(* ===== verification/PV_Prelude.thy ===== *)
theory PV_Prelude
  imports Main "HOL-Library.Word"
begin

text \<open>
  Shared vocabulary of the development: bytes and Go strings, the errors the code returns and
  the panics the Go runtime raises, and the state-and-error actions in which the readers and
  writers of the repository are written.

  A Go string is a sequence of bytes; \<^typ>\<open>string\<close> (a list of 8-bit characters) is used for
  it, and \<open>bytes_of_string\<close> / \<open>string_of_bytes\<close> are the conversions \<open>[]byte(s)\<close> and
  \<open>string(b)\<close>.
\<close>

unbundle bit_operations_syntax

type_synonym byte = "8 word"

section \<open>Strings and bytes\<close>

definition byte_of_char :: "char \<Rightarrow> byte" where
  "byte_of_char c = word_of_nat (of_char c)"

definition char_of_byte :: "byte \<Rightarrow> char" where
  "char_of_byte b = char_of (unat b)"

definition bytes_of_string :: "string \<Rightarrow> byte list" where
  "bytes_of_string = map byte_of_char"

definition string_of_bytes :: "byte list \<Rightarrow> string" where
  "string_of_bytes = map char_of_byte"

lemma char_of_byte_of_char [simp]: "char_of_byte (byte_of_char c) = c"
proof -
  have "(of_char c :: nat) < 256" by (metis of_char_of char_of_char mod_less_divisor zero_less_numeral)
  then show ?thesis
    by (simp add: char_of_byte_def byte_of_char_def unat_of_nat)
qed

lemma byte_of_char_of_byte [simp]: "byte_of_char (char_of_byte b) = b"
proof -
  have "unat b < 2 ^ LENGTH(8)" by (rule unsigned_less)
  then show ?thesis by (simp add: char_of_byte_def byte_of_char_def)
qed

lemma string_of_bytes_of_string [simp]: "string_of_bytes (bytes_of_string s) = s"
  by (induction s) (simp_all add: string_of_bytes_def bytes_of_string_def)

lemma bytes_of_string_of_bytes [simp]: "bytes_of_string (string_of_bytes s) = s"
  by (induction s) (simp_all add: string_of_bytes_def bytes_of_string_def)

lemma length_bytes_of_string [simp]: "length (bytes_of_string s) = length s"
  by (simp add: bytes_of_string_def)

lemma length_string_of_bytes [simp]: "length (string_of_bytes s) = length s"
  by (simp add: string_of_bytes_def)

section \<open>Errors and panics\<close>

text \<open>
  \<open>PVStatus\<close> (pvdata/values.go) is both a message field and an \<open>error\<close> value of the server,
  so its type stands here, before the errors.
\<close>

record pvstatus =
  st_Type :: byte
  st_Message :: string
  st_CallTree :: string

text \<open>The panics of the Go runtime and of package reflect that the code can reach.\<close>

datatype panic =
    NilDereference          \<comment> \<open>a method call or field access on a nil pointer or interface\<close>
  | MakeSliceLen            \<comment> \<open>make([]T, n) with n negative\<close>
  | SetLenRange             \<comment> \<open>reflect's SetLen with a negative length\<close>
  | IndexRange              \<comment> \<open>a slice or string index out of range\<close>
  | TypeAssertion           \<comment> \<open>x.(T) where x does not hold a T\<close>
  | UnexportedField         \<comment> \<open>reflect's Interface() on an unexported field\<close>
  | ZeroReflectValue        \<comment> \<open>a method of the zero reflect.Value\<close>
  | StructOfField           \<comment> \<open>reflect.StructOf with an invalid or duplicate field name\<close>
  | Unaddressable           \<comment> \<open>reflect's Addr() on a value that is not a variable\<close>

text \<open>
  The errors. A \<open>Panic\<close> travels through the actions as an error does (nothing in the
  repository recovers), but the handlers never turn it into a reply: see \<open>is_panic\<close>.
\<close>

datatype gerr =
    EOF
  | UnexpectedEOF
  | CantEncode | CantDecode
  | DontKnowHow
  | ExceedsBound nat int
  | BadMagic byte
  | NotAStruct
  | NoDescription
  | FieldFailed string gerr
  | NoZeroValue byte
  | StatusErr pvstatus
  | UnknownChannel "32 word"
  | UnknownRequest "32 word"
  | ChannelExists "32 word"
  | RequestExists "32 word"
  | WrongArguments
  | NotSupported string
  | WrongDoer
  | Cancelled
  | OtherError string
  | OutOfFuel
  | Panic panic

fun is_panic :: "gerr \<Rightarrow> bool" where
  "is_panic (Panic p) = True"
| "is_panic (FieldFailed n e) = is_panic e"
| "is_panic _ = False"

section \<open>Actions: state and error\<close>

text \<open>
  A Go function that mutates a coder and returns \<open>(x, error)\<close> or \<open>error\<close> is an action:
  it maps the state before to the result and the state after. On an error the state reached so
  far is kept, as the mutated object keeps it in Go.
\<close>

type_synonym ('s, 'a) act = "'s \<Rightarrow> (gerr + 'a) \<times> 's"

definition retA :: "'a \<Rightarrow> ('s, 'a) act" where
  "retA x s = (Inr x, s)"

definition failA :: "gerr \<Rightarrow> ('s, 'a) act" where
  "failA e s = (Inl e, s)"

definition bindA :: "('s, 'a) act \<Rightarrow> ('a \<Rightarrow> ('s, 'b) act) \<Rightarrow> ('s, 'b) act" where
  "bindA m f s = (case m s of (Inl e, t) \<Rightarrow> (Inl e, t) | (Inr x, t) \<Rightarrow> f x t)"

definition seqA :: "('s, unit) act \<Rightarrow> ('s, 'b) act \<Rightarrow> ('s, 'b) act" where
  "seqA m n s = bindA m (\<lambda>_. n) s"

text \<open>Conditionals on actions, kept as constants so that recursive actions may occur in them.\<close>

definition ifA :: "bool \<Rightarrow> ('s, 'a) act \<Rightarrow> ('s, 'a) act \<Rightarrow> ('s, 'a) act" where
  "ifA b m n s = (if b then m s else n s)"

definition whenA :: "bool \<Rightarrow> ('s, unit) act \<Rightarrow> ('s, unit) act" where
  "whenA b m s = (if b then m s else (Inr (), s))"

definition liftA :: "gerr + 'a \<Rightarrow> ('s, 'a) act" where
  "liftA r s = (r, s)"

lemma ifA_simps [simp]: "ifA True m n = m" "ifA False m n = n"
  by (simp_all add: ifA_def [abs_def])

named_theorems act_simps \<open>evaluation of actions at a state\<close>

declare retA_def [act_simps] failA_def [act_simps] bindA_def [act_simps] seqA_def [act_simps]
  liftA_def [act_simps] ifA_def [act_simps] whenA_def [act_simps]

lemma ifA_cong [fundef_cong]:
  assumes "b = b'" and "b' \<Longrightarrow> m s = m' s'" and "\<not> b' \<Longrightarrow> n s = n' s'"
  shows "ifA b m n s = ifA b' m' n' s'"
  using assms by (simp add: ifA_def)

lemma whenA_cong [fundef_cong]:
  assumes "b = b'" and "b' \<Longrightarrow> m s = m' s'" and "s = s'"
  shows "whenA b m s = whenA b' m' s'"
  using assms by (simp add: whenA_def)

lemma bindA_cong [fundef_cong]:
  assumes "m s = m' s'" and "\<And>x t. m' s' = (Inr x, t) \<Longrightarrow> f x t = f' x t" and "s = s'"
  shows "bindA m f s = bindA m' f' s'"
  using assms by (auto simp: bindA_def split: prod.splits sum.splits)

lemma seqA_cong [fundef_cong]:
  assumes "m s = m' s'" and "\<And>t. m' s' = (Inr (), t) \<Longrightarrow> n t = n' t" and "s = s'"
  shows "seqA m n s = seqA m' n' s'"
  using assms by (auto simp: bindA_def seqA_def split: prod.splits sum.splits)

lemma bindA_Inr: "m s = (Inr x, t) \<Longrightarrow> bindA m f s = f x t"
  by (simp add: bindA_def)

lemma bindA_Inl: "m s = (Inl e, t) \<Longrightarrow> bindA m f s = (Inl e, t)"
  by (simp add: bindA_def)

lemma seqA_Inr: "m s = (Inr u, t) \<Longrightarrow> seqA m n s = n t"
  by (simp add: seqA_def bindA_def)

lemma seqA_Inl: "m s = (Inl e, t) \<Longrightarrow> seqA m n s = (Inl e, t)"
  by (simp add: seqA_def bindA_def)

lemma bindA_InrE:
  assumes "bindA m f s = (Inr y, u)"
  obtains x t where "m s = (Inr x, t)" and "f x t = (Inr y, u)"
  using assms by (auto simp: bindA_def split: prod.splits sum.splits)

lemma bindA_InlE:
  assumes "bindA m f s = (Inl e, u)"
  obtains "m s = (Inl e, u)" | x t where "m s = (Inr x, t)" and "f x t = (Inl e, u)"
  using assms by (auto simp: bindA_def split: prod.splits sum.splits)

lemma seqA_InrE:
  assumes "seqA m n s = (Inr y, u)"
  obtains t where "m s = (Inr (), t)" and "n t = (Inr y, u)"
  using assms by (auto simp: seqA_def elim: bindA_InrE)

text \<open>The loop \<open>for i := range xs \{ if err := f(i); err != nil \{ return err \} \}\<close>.\<close>

fun eachA :: "('a \<Rightarrow> ('s, unit) act) \<Rightarrow> 'a list \<Rightarrow> ('s, unit) act" where
  "eachA f [] s = (Inr (), s)"
| "eachA f (x # xs) s = seqA (f x) (eachA f xs) s"

text \<open>The same loop where each element is replaced by what the body computes for it.\<close>

fun mapA :: "('a \<Rightarrow> ('s, 'b) act) \<Rightarrow> 'a list \<Rightarrow> ('s, 'b list) act" where
  "mapA f [] s = (Inr [], s)"
| "mapA f (x # xs) s = bindA (f x) (\<lambda>y. bindA (mapA f xs) (\<lambda>ys. retA (y # ys))) s"

lemma eachA_cong [fundef_cong]:
  assumes "xs = ys" and "s = t" and "\<And>x u. x \<in> set ys \<Longrightarrow> f x u = g x u"
  shows "eachA f xs s = eachA g ys t"
  using assms(3) unfolding assms(1,2)
proof (induction ys arbitrary: t)
  case (Cons y ys)
  then show ?case by (auto intro!: seqA_cong)
qed simp

lemma mapA_cong [fundef_cong]:
  assumes "xs = ys" and "s = t" and "\<And>x u. x \<in> set ys \<Longrightarrow> f x u = g x u"
  shows "mapA f xs s = mapA g ys t"
  using assms(3) unfolding assms(1,2)
proof (induction ys arbitrary: t)
  case (Cons y ys)
  then show ?case by (auto intro!: bindA_cong)
qed simp

lemma mapA_length: "mapA f xs s = (Inr ys, t) \<Longrightarrow> length ys = length xs"
  by (induction xs arbitrary: s ys) (auto simp: retA_def elim!: bindA_InrE)

text \<open>
  The loop whose body may end it early with success: it answers whether to stop. \<open>eachUntilA\<close>
  runs over fixed elements, \<open>mapUntilA\<close> replaces the elements and keeps those behind the stop.
\<close>

fun eachUntilA :: "('a \<Rightarrow> ('s, bool) act) \<Rightarrow> 'a list \<Rightarrow> ('s, unit) act" where
  "eachUntilA f [] s = (Inr (), s)"
| "eachUntilA f (x # xs) s = bindA (f x) (\<lambda>stop. ifA stop (retA ()) (eachUntilA f xs)) s"

fun mapUntilA :: "('a \<Rightarrow> ('s, 'a \<times> bool) act) \<Rightarrow> 'a list \<Rightarrow> ('s, 'a list) act" where
  "mapUntilA f [] s = (Inr [], s)"
| "mapUntilA f (x # xs) s = bindA (f x) (\<lambda>r. ifA (snd r) (retA (fst r # xs))
      (bindA (mapUntilA f xs) (\<lambda>ys. retA (fst r # ys)))) s"

lemma eachUntilA_cong [fundef_cong]:
  assumes "xs = ys" and "s = t" and "\<And>x u. x \<in> set ys \<Longrightarrow> f x u = g x u"
  shows "eachUntilA f xs s = eachUntilA g ys t"
  using assms(3) unfolding assms(1,2)
proof (induction ys arbitrary: t)
  case (Cons y ys)
  then show ?case by (auto intro!: bindA_cong ifA_cong)
qed simp

lemma mapUntilA_cong [fundef_cong]:
  assumes "xs = ys" and "s = t" and "\<And>x u. x \<in> set ys \<Longrightarrow> f x u = g x u"
  shows "mapUntilA f xs s = mapUntilA g ys t"
  using assms(3) unfolding assms(1,2)
proof (induction ys arbitrary: t)
  case (Cons y ys)
  then show ?case by (auto intro!: bindA_cong ifA_cong)
qed simp

section \<open>Results without state\<close>

definition bindE :: "gerr + 'a \<Rightarrow> ('a \<Rightarrow> gerr + 'b) \<Rightarrow> gerr + 'b" where
  "bindE r f = (case r of Inl e \<Rightarrow> Inl e | Inr x \<Rightarrow> f x)"

lemma bindE_simps [simp]: "bindE (Inl e) f = Inl e" "bindE (Inr x) f = f x"
  by (simp_all add: bindE_def)

lemma bindE_InrE [elim!]:
  assumes "bindE r f = Inr y"
  obtains x where "r = Inr x" and "f x = Inr y"
  using assms by (auto simp: bindE_def split: sum.splits)

lemma bindE_cong [fundef_cong]:
  "r = r' \<Longrightarrow> (\<And>x. r' = Inr x \<Longrightarrow> f x = f' x) \<Longrightarrow> bindE r f = bindE r' f'"
  by (auto simp: bindE_def split: sum.splits)

fun mapE :: "('a \<Rightarrow> gerr + 'b) \<Rightarrow> 'a list \<Rightarrow> gerr + 'b list" where
  "mapE f [] = Inr []"
| "mapE f (x # xs) = bindE (f x) (\<lambda>y. bindE (mapE f xs) (\<lambda>ys. Inr (y # ys)))"

lemma mapE_cong [fundef_cong]:
  "xs = ys \<Longrightarrow> (\<And>x. x \<in> set ys \<Longrightarrow> f x = g x) \<Longrightarrow> mapE f xs = mapE g ys"
proof (induction ys arbitrary: xs)
  case (Cons y ys)
  then show ?case by (auto intro!: bindE_cong)
qed simp

lemma mapE_all:
  assumes "mapE f xs = Inr ys" and "\<forall>x \<in> set xs. \<forall>y. f x = Inr y \<longrightarrow> P y"
  shows "\<forall>y \<in> set ys. P y"
  using assms by (induction xs arbitrary: ys) auto

section \<open>Words as byte sequences\<close>

text \<open>Least significant byte first; \<open>binary.LittleEndian\<close>'s Put and Get of any width.\<close>

definition le_bytes :: "nat \<Rightarrow> 'a::len word \<Rightarrow> byte list" where
  "le_bytes n w = map (\<lambda>i. ucast (drop_bit (8 * i) w)) [0..<n]"

definition of_le :: "byte list \<Rightarrow> 'a::len word" where
  "of_le bs = foldr (\<lambda>b acc. ucast b OR push_bit 8 acc) bs 0"

lemma length_le_bytes [simp]: "length (le_bytes n w) = n"
  by (simp add: le_bytes_def)

lemma le_bytes_0 [simp]: "le_bytes 0 w = []"
  by (simp add: le_bytes_def)

lemma le_bytes_Suc: "le_bytes (Suc n) w = ucast w # le_bytes n (drop_bit 8 w)"
proof -
  have "[0..<Suc n] = 0 # map Suc [0..<n]" by (simp add: map_Suc_upt upt_conv_Cons)
  then show ?thesis
    by (simp add: le_bytes_def o_def add.commute [of 8] del: upt_Suc)
qed

lemma of_le_Nil [simp]: "of_le [] = 0"
  by (simp add: of_le_def)

lemma of_le_Cons: "of_le (b # bs) = ucast b OR push_bit 8 (of_le bs)"
  by (simp add: of_le_def)

lemma of_le_le_bytes: "of_le (le_bytes n w) = (take_bit (8 * n) w :: 'a::len word)"
proof (induction n arbitrary: w)
  case (Suc n)
  have "of_le (le_bytes (Suc n) w) = ucast (ucast w :: byte) OR push_bit 8 (take_bit (8 * n) (drop_bit 8 w))"
    by (simp add: le_bytes_Suc of_le_Cons Suc)
  also have "\<dots> = take_bit (8 * Suc n) w"
    by (rule bit_word_eqI) (auto simp: bit_simps)
  finally show ?case .
qed simp

lemma of_le_le_bytes_id [simp]: "LENGTH('a) \<le> 8 * n \<Longrightarrow> of_le (le_bytes n w) = (w :: 'a::len word)"
  by (simp add: of_le_le_bytes take_bit_word_eq_self)

lemma le_bytes_of_le:
  "8 * length bs \<le> LENGTH('a) \<Longrightarrow> le_bytes (length bs) (of_le bs :: 'a::len word) = bs"
proof (induction bs)
  case (Cons b bs)
  let ?w = "of_le bs :: 'a word"
  have low: "ucast (ucast b OR push_bit 8 ?w) = b"
    using Cons.prems by (intro bit_word_eqI) (auto simp: bit_simps)
  have "drop_bit 8 (ucast b OR push_bit 8 ?w) = take_bit (LENGTH('a) - 8) ?w"
    using Cons.prems by (intro bit_word_eqI) (auto simp: bit_simps dest: bit_imp_le_length)
  moreover have "le_bytes (length bs) (take_bit (LENGTH('a) - 8) ?w) = le_bytes (length bs) ?w"
  proof (unfold le_bytes_def, rule map_cong)
    fix i assume "i \<in> set [0..<length bs]"
    then have "8 * i + 8 \<le> LENGTH('a) - 8" using Cons.prems by auto
    then show "ucast (drop_bit (8 * i) (take_bit (LENGTH('a) - 8) ?w)) = (ucast (drop_bit (8 * i) ?w) :: byte)"
      by (intro bit_word_eqI) (auto simp: bit_simps)
  qed simp
  ultimately show ?case
    using Cons low by (simp add: le_bytes_Suc of_le_Cons)
qed simp

end
