(* ===== verification/PV_Tags.thy ===== *)
theory PV_Tags
  imports PV_Prelude
begin

text \<open>
  The \<open>pvaccess\<close> struct tags of pvdata/value_conversion.go: parsing a tag into a name and its
  \<open>key=value\<close> pairs, and turning the pairs into the options that change how a field is coded.
  \<open>strings.Split\<close>, \<open>strings.SplitN\<close> and \<open>strconv.ParseInt\<close> are modelled as the code uses them.
\<close>

section \<open>Splitting\<close>

fun split_on :: "char \<Rightarrow> string \<Rightarrow> string list" where
  "split_on c [] = [[]]"
| "split_on c (x # xs) =
     (if x = c then [] # split_on c xs
      else case split_on c xs of [] \<Rightarrow> [[x]] | y # ys \<Rightarrow> (x # y) # ys)"

text \<open>\<open>strings.SplitN(s, c, 2)\<close>: \<open>None\<close> when the separator does not occur.\<close>

fun cut :: "char \<Rightarrow> string \<Rightarrow> (string \<times> string) option" where
  "cut c [] = None"
| "cut c (x # xs) =
     (if x = c then Some ([], xs) else map_option (\<lambda>(a, b). (x # a, b)) (cut c xs))"

lemma split_on_nonempty [simp]: "split_on c s \<noteq> []"
  by (induction s) (auto split: list.splits)

lemma split_on_none: "c \<notin> set s \<Longrightarrow> split_on c s = [s]"
  by (induction s) auto

lemma split_on_append: "c \<notin> set s \<Longrightarrow> split_on c (s @ c # t) = s # split_on c t"
  by (induction s) auto

lemma cut_none: "c \<notin> set s \<Longrightarrow> cut c s = None"
  by (induction s) auto

lemma cut_append: "c \<notin> set s \<Longrightarrow> cut c (s @ c # t) = Some (s, t)"
  by (induction s) auto

section \<open>Tags\<close>

type_synonym tags = "string \<rightharpoonup> string"

definition add_pair :: "tags \<Rightarrow> string \<Rightarrow> tags" where
  "add_pair tags pair =
     (case cut (CHR ''='') pair of Some (k, v) \<Rightarrow> tags(k \<mapsto> v) | None \<Rightarrow> tags(pair \<mapsto> []))"

definition parse_tag :: "string \<Rightarrow> string \<times> tags" where
  "parse_tag tag =
     (if length tag > 0 then
        (let pairs = split_on (CHR '','') tag
         in (hd pairs, foldl add_pair Map.empty (tl pairs)))
      else ([], Map.empty))"

text \<open>Reading a missing key of a Go map gives the zero value.\<close>

definition tag_value :: "tags \<Rightarrow> string \<Rightarrow> string" where
  "tag_value tags k = (case tags k of None \<Rightarrow> [] | Some v \<Rightarrow> v)"

definition has_tag :: "tags \<Rightarrow> string \<Rightarrow> bool" where
  "has_tag tags k \<longleftrightarrow> tags k \<noteq> None"

section \<open>Integers\<close>

definition digit_value :: "char \<Rightarrow> nat option" where
  "digit_value c =
     (let n = of_char c in
      if 48 \<le> n \<and> n \<le> 57 then Some (n - 48)
      else if 97 \<le> n \<and> n \<le> 122 then Some (n - 87)
      else if 65 \<le> n \<and> n \<le> 90 then Some (n - 55)
      else None)"

fun parse_digits :: "nat \<Rightarrow> nat \<Rightarrow> string \<Rightarrow> nat option" where
  "parse_digits base acc [] = Some acc"
| "parse_digits base acc (c # cs) =
     (if c = CHR ''_'' then parse_digits base acc cs
      else case digit_value c of
        None \<Rightarrow> None
      | Some d \<Rightarrow> if d < base then parse_digits base (acc * base + d) cs else None)"

text \<open>\<open>underscoreOK\<close> after the base prefix; \<open>p\<close> is the class of the previous character.\<close>

fun underscores_ok :: "bool \<Rightarrow> char \<Rightarrow> string \<Rightarrow> bool" where
  "underscores_ok hex p [] \<longleftrightarrow> p \<noteq> CHR ''_''"
| "underscores_ok hex p (c # cs) \<longleftrightarrow>
     (if (case digit_value c of None \<Rightarrow> False | Some d \<Rightarrow> d < 10 \<or> hex \<and> d < 16)
      then underscores_ok hex (CHR ''0'') cs
      else if c = CHR ''_'' then p = CHR ''0'' \<and> underscores_ok hex (CHR ''_'') cs
      else p \<noteq> CHR ''_'' \<and> underscores_ok hex (CHR ''!'') cs)"

definition parse_uint :: "string \<Rightarrow> nat option" where
  "parse_uint s =
     (case s of
        [] \<Rightarrow> None
      | c # r \<Rightarrow>
          if c = CHR ''0'' then
            (case r of
               b # d # ds \<Rightarrow>
                 if b = CHR ''b'' \<or> b = CHR ''B'' then
                   if underscores_ok False (CHR ''0'') (d # ds) then parse_digits 2 0 (d # ds) else None
                 else if b = CHR ''o'' \<or> b = CHR ''O'' then
                   if underscores_ok False (CHR ''0'') (d # ds) then parse_digits 8 0 (d # ds) else None
                 else if b = CHR ''x'' \<or> b = CHR ''X'' then
                   if underscores_ok True (CHR ''0'') (d # ds) then parse_digits 16 0 (d # ds) else None
                 else if underscores_ok False (CHR ''^'') s then parse_digits 8 0 r else None
             | _ \<Rightarrow> if underscores_ok False (CHR ''^'') s then parse_digits 8 0 r else None)
          else if underscores_ok False (CHR ''^'') s then parse_digits 10 0 s else None)"

text \<open>\<open>strconv.ParseInt(s, 0, 64)\<close>; a syntax or range error is \<open>None\<close>.\<close>

definition parse_int :: "string \<Rightarrow> int option" where
  "parse_int s =
     (let neg = (s \<noteq> [] \<and> hd s = CHR ''-'');
          u = (if s \<noteq> [] \<and> (hd s = CHR ''-'' \<or> hd s = CHR ''+'') then tl s else s)
      in case parse_uint u of
           None \<Rightarrow> None
         | Some n \<Rightarrow>
             if neg then (if n \<le> 2 ^ 63 then Some (- int n) else None)
             else (if n < 2 ^ 63 then Some (int n) else None))"

section \<open>Options\<close>

datatype opt = NameOption string | AlwaysOption int | BoundOption int | ShortOption

definition tagsToOptions :: "tags \<Rightarrow> opt list" where
  "tagsToOptions tags =
     (case tags ''name'' of Some val \<Rightarrow> [NameOption val] | None \<Rightarrow> [])
   @ (case tags ''always'' of
        Some val \<Rightarrow> (case parse_int val of Some n \<Rightarrow> [AlwaysOption n] | None \<Rightarrow> [])
      | None \<Rightarrow> [])
   @ (case tags ''bound'' of
        Some val \<Rightarrow> (case parse_int val of Some n \<Rightarrow> [BoundOption n] | None \<Rightarrow> [])
      | None \<Rightarrow> [])
   @ (case tags ''short'' of Some _ \<Rightarrow> [ShortOption] | None \<Rightarrow> [])"

section \<open>The tags the repository uses\<close>

lemma parse_tag_Nil [simp]: "parse_tag [] = ([], Map.empty)"
  by (simp add: parse_tag_def)

text \<open>A tag that is only a name carries no option.\<close>

lemma parse_tag_name: "CHR '','' \<notin> set n \<Longrightarrow> parse_tag n = (n, Map.empty)"
  using split_on_none [of "CHR '',''" n] by (simp add: parse_tag_def)

lemma tagsToOptions_empty [simp]: "tagsToOptions Map.empty = []"
  by (simp add: tagsToOptions_def)

lemma parse_tag_short: "parse_tag '',short'' = ([], [''short'' \<mapsto> []])"
  by (simp add: parse_tag_def add_pair_def)

lemma parse_tag_breakonerror: "parse_tag '',breakonerror'' = ([], [''breakonerror'' \<mapsto> []])"
  by (simp add: parse_tag_def add_pair_def)

lemma parse_tag_bound: "parse_tag '',bound=500'' = ([], [''bound'' \<mapsto> ''500''])"
  by (simp add: parse_tag_def add_pair_def)

lemma parse_tag_always: "parse_tag '',always=0x08'' = ([], [''always'' \<mapsto> ''0x08''])"
  by (simp add: parse_tag_def add_pair_def)

lemma parse_int_500: "parse_int ''500'' = Some 500"
  by (simp add: parse_int_def parse_uint_def digit_value_def)

lemma parse_int_0x08: "parse_int ''0x08'' = Some 8"
  by (simp add: parse_int_def parse_uint_def digit_value_def)

lemma tagsToOptions_used [simp]:
  "tagsToOptions [''short'' \<mapsto> v] = [ShortOption]"
  "tagsToOptions [''breakonerror'' \<mapsto> v] = []"
  "tagsToOptions [''bound'' \<mapsto> ''500''] = [BoundOption 500]"
  "tagsToOptions [''always'' \<mapsto> ''0x08''] = [AlwaysOption 8]"
  by (simp_all add: tagsToOptions_def parse_int_500 parse_int_0x08)

end
