(* ===== verification/PV_Wire.thy ===== *)
theory PV_Wire
  imports PV_Prelude
begin

text \<open>
  The coder states of pvdata/values.go: \<open>EncoderState\<close> and \<open>DecoderState\<close> with their
  fixed-width reads and writes in the coder's byte order, and the contract \<open>wire_codec\<close> between
  an encoder and a decoder of the same type that every type of the protocol is proved to meet.

  The writer of an encoder is a growing byte sequence (the code writes to a \<open>bytes.Buffer\<close> or a
  \<open>bufio.Writer\<close>), the reader of a decoder is the sequence of the bytes still to come.
\<close>

datatype byte_order = BigEndian | LittleEndian

record estate =
  ebuf :: "byte list"
  eorder :: byte_order
  ecbs :: "bool list"
  eucbs :: bool

text \<open>A decoder's byte order may be nil: \<open>connection.New\<close> leaves it unset.\<close>

record dstate =
  dbuf :: "byte list"
  dorder :: "byte_order option"
  dcbs :: "bool list"
  ducbs :: bool
  dcbsi :: nat

type_synonym enc = "(estate, unit) act"
type_synonym 'a dec = "(dstate, 'a) act"

definition encoder :: "byte_order \<Rightarrow> estate" where
  "encoder bo = \<lparr>ebuf = [], eorder = bo, ecbs = [], eucbs = False\<rparr>"

definition decoder :: "byte_order \<Rightarrow> byte list \<Rightarrow> dstate" where
  "decoder bo bs = \<lparr>dbuf = bs, dorder = Some bo, dcbs = [], ducbs = False, dcbsi = 0\<rparr>"

lemma encoder_sel [simp]:
  "ebuf (encoder bo) = []" "eorder (encoder bo) = bo" "ecbs (encoder bo) = []" "eucbs (encoder bo) = False"
  by (simp_all add: encoder_def)

lemma decoder_sel [simp]:
  "dbuf (decoder bo bs) = bs" "dorder (decoder bo bs) = Some bo" "dcbs (decoder bo bs) = []"
  "ducbs (decoder bo bs) = False" "dcbsi (decoder bo bs) = 0" "(decoder bo bs)\<lparr>dbuf := cs\<rparr> = decoder bo cs"
  by (simp_all add: decoder_def)

section \<open>Writing\<close>

definition emit :: "byte list \<Rightarrow> estate \<Rightarrow> estate" where
  "emit bs s = s\<lparr>ebuf := ebuf s @ bs\<rparr>"

lemma emit_sel [simp]:
  "ebuf (emit bs s) = ebuf s @ bs" "eorder (emit bs s) = eorder s" "ecbs (emit bs s) = ecbs s"
  "eucbs (emit bs s) = eucbs s"
  by (simp_all add: emit_def)

lemma emit_emit [simp]: "emit cs (emit bs s) = emit (bs @ cs) s"
  by (simp add: emit_def)

lemma emit_Nil [simp]: "emit [] s = s"
  by (simp add: emit_def)

definition write_bytes :: "byte list \<Rightarrow> enc" where
  "write_bytes bs s = (Inr (), emit bs s)"

definition write_byte :: "byte \<Rightarrow> enc" where
  "write_byte b s = (Inr (), emit [b] s)"

text \<open>\<open>ByteOrder.PutUintN\<close> and \<open>ByteOrder.UintN\<close> of encoding/binary.\<close>

fun put_uint :: "byte_order \<Rightarrow> nat \<Rightarrow> 'a::len word \<Rightarrow> byte list" where
  "put_uint LittleEndian n w = le_bytes n w"
| "put_uint BigEndian n w = rev (le_bytes n w)"

fun get_uint :: "byte_order \<Rightarrow> byte list \<Rightarrow> 'a::len word" where
  "get_uint LittleEndian bs = of_le bs"
| "get_uint BigEndian bs = of_le (rev bs)"

lemma length_put_uint [simp]: "length (put_uint bo n w) = n"
  by (cases bo) simp_all

lemma get_put_uint [simp]: "LENGTH('a) \<le> 8 * n \<Longrightarrow> get_uint bo (put_uint bo n w) = (w :: 'a::len word)"
  by (cases bo) simp_all

lemma put_get_uint:
  "8 * length bs \<le> LENGTH('a) \<Longrightarrow> n = length bs \<Longrightarrow> put_uint bo n (get_uint bo bs :: 'a::len word) = bs"
  using le_bytes_of_le [of bs, where 'a = 'a] le_bytes_of_le [of "rev bs", where 'a = 'a]
  by (cases bo) simp_all

definition WriteUint16 :: "16 word \<Rightarrow> enc" where
  "WriteUint16 v s = write_bytes (put_uint (eorder s) 2 v) s"

definition WriteUint32 :: "32 word \<Rightarrow> enc" where
  "WriteUint32 v s = write_bytes (put_uint (eorder s) 4 v) s"

definition WriteUint64 :: "64 word \<Rightarrow> enc" where
  "WriteUint64 v s = write_bytes (put_uint (eorder s) 8 v) s"

section \<open>Reading\<close>

definition read_byte :: "byte dec" where
  "read_byte s = (case dbuf s of [] \<Rightarrow> (Inl EOF, s) | b # bs \<Rightarrow> (Inr b, s\<lparr>dbuf := bs\<rparr>))"

text \<open>
  \<open>io.ReadFull\<close> into a buffer of \<open>n\<close> bytes: \<open>io.EOF\<close> when nothing could be read,
  \<open>io.ErrUnexpectedEOF\<close> when only part of it could.
\<close>

definition read_full :: "nat \<Rightarrow> byte list dec" where
  "read_full n s =
     (if n \<le> length (dbuf s) then (Inr (take n (dbuf s)), s\<lparr>dbuf := drop n (dbuf s)\<rparr>)
      else if dbuf s = [] then (Inl EOF, s)
      else (Inl UnexpectedEOF, s\<lparr>dbuf := []\<rparr>))"

text \<open>The method call on the byte order panics when none has been set.\<close>

definition read_uint :: "nat \<Rightarrow> 'a::len word dec" where
  "read_uint n = bindA (read_full n) (\<lambda>bs s.
     case dorder s of None \<Rightarrow> (Inl (Panic NilDereference), s) | Some bo \<Rightarrow> (Inr (get_uint bo bs), s))"

definition ReadUint16 :: "16 word dec" where "ReadUint16 = read_uint 2"
definition ReadUint32 :: "32 word dec" where "ReadUint32 = read_uint 4"
definition ReadUint64 :: "64 word dec" where "ReadUint64 = read_uint 8"

lemma read_byte_Cons [simp]: "dbuf s = b # bs \<Longrightarrow> read_byte s = (Inr b, s\<lparr>dbuf := bs\<rparr>)"
  by (simp add: read_byte_def)

lemma read_full_append: "dbuf s = bs @ rest \<Longrightarrow> length bs = n \<Longrightarrow> read_full n s = (Inr bs, s\<lparr>dbuf := rest\<rparr>)"
  by (auto simp: read_full_def)

lemma read_uint_put:
  "dorder s = Some bo \<Longrightarrow> dbuf s = put_uint bo n w @ rest \<Longrightarrow> LENGTH('a) \<le> 8 * n \<Longrightarrow>
   read_uint n s = (Inr (w :: 'a::len word), s\<lparr>dbuf := rest\<rparr>)"
  by (simp add: read_uint_def bindA_def read_full_append)

lemmas ReadUint_put =
  read_uint_put [where 'a = 16 and n = 2, folded ReadUint16_def, simplified]
  read_uint_put [where 'a = 32 and n = 4, folded ReadUint32_def, simplified]
  read_uint_put [where 'a = 64 and n = 8, folded ReadUint64_def, simplified]

text \<open>
  The same with the input written as a record update, the form in which the simplifier runs a
  decoder over the concatenated encodings of its parts.
\<close>

lemma read_uint_upd:
  "dorder s = Some bo \<Longrightarrow> LENGTH('a) \<le> 8 * n \<Longrightarrow>
   read_uint n (s\<lparr>dbuf := put_uint bo n w @ rest\<rparr>) = (Inr (w :: 'a::len word), s\<lparr>dbuf := rest\<rparr>)"
  by (subst read_uint_put [where bo = bo and rest = rest]) simp_all

lemmas ReadUint_upd [act_simps] =
  read_uint_upd [where 'a = 16 and n = 2, folded ReadUint16_def, simplified]
  read_uint_upd [where 'a = 32 and n = 4, folded ReadUint32_def, simplified]
  read_uint_upd [where 'a = 64 and n = 8, folded ReadUint64_def, simplified]

lemma read_full_upd [act_simps]:
  "n = length bs \<Longrightarrow> read_full n (s\<lparr>dbuf := bs @ rest\<rparr>) = (Inr bs, s\<lparr>dbuf := rest\<rparr>)"
  by (simp add: read_full_append)

lemma dec_updI: "dbuf s = bs \<Longrightarrow> m (s\<lparr>dbuf := bs\<rparr>) = r \<Longrightarrow> m (s :: dstate) = r"
  by (cases s) simp

text \<open>No read gives bytes back: the reader only moves forward.\<close>

definition consumes :: "'a dec \<Rightarrow> bool" where
  "consumes m \<longleftrightarrow> (\<forall>s r t. m s = (r, t) \<longrightarrow> (\<exists>bs. dbuf s = bs @ dbuf t) \<and> dorder t = dorder s)"

lemma consumesI:
  assumes "\<And>s r t. m s = (r, t) \<Longrightarrow> (\<exists>bs. dbuf s = bs @ dbuf t) \<and> dorder t = dorder s"
  shows "consumes m"
  using assms by (auto simp: consumes_def)

lemma consumesD: "consumes m \<Longrightarrow> m s = (r, t) \<Longrightarrow> (\<exists>bs. dbuf s = bs @ dbuf t) \<and> dorder t = dorder s"
  by (auto simp: consumes_def)

lemma consumes_length: "consumes m \<Longrightarrow> m s = (r, t) \<Longrightarrow> length (dbuf t) \<le> length (dbuf s)"
  by (drule (1) consumesD) auto

lemma consumes_ret [intro, simp]: "consumes (retA x)" "consumes (failA e)" "consumes (liftA r)"
  by (auto simp: consumes_def act_simps)

lemma consumes_bind [intro]:
  assumes m: "consumes m" and f: "\<And>x. consumes (f x)"
  shows "consumes (bindA m f)"
proof (rule consumesI)
  fix s r t assume run: "bindA m f s = (r, t)"
  obtain q u where mq: "m s = (q, u)" by (cases "m s") auto
  from consumesD [OF m mq] obtain bs where u: "dbuf s = bs @ dbuf u" "dorder u = dorder s" by auto
  show "(\<exists>bs. dbuf s = bs @ dbuf t) \<and> dorder t = dorder s"
  proof (cases q)
    case (Inl e)
    with run mq u show ?thesis by (auto simp: bindA_def)
  next
    case (Inr x)
    with run mq have "f x u = (r, t)" by (simp add: bindA_def)
    from consumesD [OF f this] u show ?thesis by auto
  qed
qed

lemma consumes_seq [intro]: "consumes m \<Longrightarrow> consumes n \<Longrightarrow> consumes (seqA m n)"
  using consumes_bind [of m "\<lambda>_. n"] by (simp add: consumes_def seqA_def)

lemma consumes_read [intro, simp]:
  "consumes read_byte" "consumes (read_full n)" "consumes (read_uint n)"
  "consumes ReadUint16" "consumes ReadUint32" "consumes ReadUint64"
proof -
  show b: "consumes read_byte"
    by (rule consumesI) (auto simp: read_byte_def split: list.splits)
  show f: "consumes (read_full n)" for n
  proof (rule consumesI)
    fix s r t assume "read_full n s = (r, t)"
    then show "(\<exists>bs. dbuf s = bs @ dbuf t) \<and> dorder t = dorder s"
      by (auto simp: read_full_def split: if_splits intro: exI [of _ "take n (dbuf s)"])
  qed
  show u: "consumes (read_uint n :: 'b::len word dec)" for n
    unfolding read_uint_def
    by (intro consumes_bind f) (auto simp: consumes_def split: option.splits)
  show "consumes ReadUint16" "consumes ReadUint32" "consumes ReadUint64"
    unfolding ReadUint16_def ReadUint32_def ReadUint64_def by (rule u)+
qed

lemma read_byte_shorter:
  assumes "\<And>b. consumes (f b)" and "bindA read_byte f s = (Inr x, t)"
  shows "length (dbuf t) < length (dbuf s)"
proof -
  from assms(2) obtain b u where r: "read_byte s = (Inr b, u)" and f: "f b u = (Inr x, t)"
    by (elim bindA_InrE)
  from r have "length (dbuf s) = Suc (length (dbuf u))"
    by (auto simp: read_byte_def split: list.splits)
  with consumes_length [OF assms(1) f] show ?thesis by simp
qed

text \<open>Loops over a sequence of encodings.\<close>

lemma eachA_wire:
  assumes "\<And>x (s :: estate). x \<in> set xs \<Longrightarrow> f x s = (Inr (), emit (w (eorder s) x) s)"
  shows "eachA f xs s = (Inr (), emit (concat (map (w (eorder s)) xs)) s)"
  using assms by (induction xs arbitrary: s) (simp_all add: act_simps)

lemma mapA_wire:
  assumes "\<And>x z (d :: dstate) rest. x \<in> set xs \<Longrightarrow> z \<in> set zs \<Longrightarrow> dorder d = Some bo \<Longrightarrow> dbuf d = w x @ rest \<Longrightarrow>
      f z d = (Inr (g x), d\<lparr>dbuf := rest\<rparr>)"
    and "length zs = length xs" and "dorder d = Some bo" and "dbuf d = concat (map w xs) @ rest"
  shows "mapA f zs d = (Inr (map g xs), d\<lparr>dbuf := rest\<rparr>)"
  using assms
proof (induction xs arbitrary: zs d)
  case (Cons x xs)
  then obtain z zs' where zs: "zs = z # zs'" "length zs' = length xs" by (cases zs) auto
  let ?d = "d\<lparr>dbuf := concat (map w xs) @ rest\<rparr>"
  have "f z d = (Inr (g x), ?d)"
    using Cons.prems zs by (intro Cons.prems(1)) simp_all
  moreover have "mapA f zs' ?d = (Inr (map g xs), ?d\<lparr>dbuf := rest\<rparr>)"
  proof (rule Cons.IH)
    fix y z' r and e :: dstate
    assume "y \<in> set xs" "z' \<in> set zs'" "dorder e = Some bo" "dbuf e = w y @ r"
    then show "f z' e = (Inr (g y), e\<lparr>dbuf := r\<rparr>)"
      using Cons.prems(1) [of y z' e r] zs by simp
  qed (use zs Cons.prems in simp_all)
  ultimately show ?case
    using zs by (simp add: act_simps)
qed simp

section \<open>The contract between an encoder and a decoder\<close>

text \<open>
  \<open>wire bo v\<close> is the encoding of \<open>v\<close>: the encoder appends exactly it and leaves the rest of
  its state alone, and the decoder, in front of it, takes exactly it and returns \<open>v\<close> (or the
  value \<open>norm v\<close> that stands for it on the wire). \<open>ok\<close> says which values have an encoding.
\<close>

locale wire_codec =
  fixes enc :: "'a \<Rightarrow> enc"
    and dec :: "'a dec"
    and wire :: "byte_order \<Rightarrow> 'a \<Rightarrow> byte list"
    and ok :: "'a \<Rightarrow> bool"
    and norm :: "'a \<Rightarrow> 'a"
  assumes enc_wire: "ok v \<Longrightarrow> enc v s = (Inr (), emit (wire (eorder s) v) s)"
    and dec_wire: "ok v \<Longrightarrow> dorder d = Some bo \<Longrightarrow> dbuf d = wire bo v @ rest \<Longrightarrow>
      dec d = (Inr (norm v), d\<lparr>dbuf := rest\<rparr>)"
begin

lemma dec_upd:
  "ok v \<Longrightarrow> dorder d = Some bo \<Longrightarrow> dec (d\<lparr>dbuf := wire bo v @ rest\<rparr>) = (Inr (norm v), d\<lparr>dbuf := rest\<rparr>)"
  by (subst dec_wire [where bo = bo and rest = rest]) simp_all

lemma bind_dec_upd:
  "ok v \<Longrightarrow> dorder d = Some bo \<Longrightarrow>
   bindA dec f (d\<lparr>dbuf := wire bo v @ rest\<rparr>) = f (norm v) (d\<lparr>dbuf := rest\<rparr>)"
  by (simp add: bindA_def dec_upd)

lemma seq_enc: "ok v \<Longrightarrow> seqA (enc v) n s = n (emit (wire (eorder s) v) s)"
  by (simp add: seqA_Inr enc_wire)

lemma roundtrip:
  assumes "ok v" and "eorder e = bo" and "dorder d = Some bo"
    and "enc v (e\<lparr>ebuf := []\<rparr>) = (r, e')" and "dbuf d = ebuf e' @ rest"
  shows "r = Inr () \<and> dec d = (Inr (norm v), d\<lparr>dbuf := rest\<rparr>)"
  using assms enc_wire [OF assms(1), of "e\<lparr>ebuf := []\<rparr>"] by (auto intro: dec_wire)

text \<open>Two encodings followed by anything are told apart: no encoding is a prefix of another's.\<close>

lemma unambiguous:
  assumes "ok v" "ok w" and "wire bo v @ xs = wire bo w @ ys"
  shows "norm v = norm w \<and> xs = ys"
proof -
  have "dec (decoder bo (wire bo v @ xs)) = (Inr (norm v), decoder bo xs)"
    by (subst dec_wire [OF assms(1), where bo = bo and rest = xs]) simp_all
  moreover have "dec (decoder bo (wire bo v @ xs)) = (Inr (norm w), decoder bo ys)"
    unfolding assms(3) by (subst dec_wire [OF assms(2), where bo = bo and rest = ys]) simp_all
  ultimately show ?thesis by (auto simp: decoder_def)
qed

lemma enc_each:
  "list_all ok vs \<Longrightarrow> eachA enc vs s = (Inr (), emit (concat (map (wire (eorder s)) vs)) s)"
  by (rule eachA_wire) (auto simp: enc_wire list_all_iff)

lemma dec_each:
  "list_all ok vs \<Longrightarrow> length zs = length vs \<Longrightarrow> dorder d = Some bo \<Longrightarrow>
   dbuf d = concat (map (wire bo) vs) @ rest \<Longrightarrow>
   mapA (\<lambda>_. dec) zs d = (Inr (map norm vs), d\<lparr>dbuf := rest\<rparr>)"
  by (rule mapA_wire [where w = "wire bo"]) (auto simp: dec_wire list_all_iff)

end

end
