(* ===== verification/PV_Scalars.thy ===== *)
theory PV_Scalars
  imports PV_Wire
begin

text \<open>
  The scalar types of pvdata/values.go: \<open>PVSize\<close>, the numeric types, \<open>PVString\<close> and
  \<open>PVBoundedString\<close>, each with its \<open>PVEncode\<close> and \<open>PVDecode\<close>.

  Go's signed and unsigned integers of a width are both words of that width: the conversions
  between them keep the bits. A float is its IEEE bit pattern (\<open>math.Float32bits\<close>).
\<close>

section \<open>PVSize\<close>

definition max8 :: int where "max8 = 254"
definition max32 :: int where "max32 = 0x7fffffff"

definition PVSize_PVEncode :: "64 word \<Rightarrow> enc" where
  "PVSize_PVEncode v s =
     (if sint v < 0 then write_byte 255 s
      else if sint v < max8 then write_byte (ucast v) s
      else if sint v < max32 then
        write_bytes (word_of_int max8 # put_uint (eorder s) 4 (ucast v :: 32 word)) s
      else write_bytes (word_of_int max8 # put_uint (eorder s) 4 (word_of_int max32 :: 32 word)
             @ put_uint (eorder s) 8 v) s)"

definition PVSize_PVDecode :: "64 word dec" where
  "PVSize_PVDecode =
     bindA read_byte (\<lambda>data.
       if data = 255 then retA (-1)
       else if data \<noteq> word_of_int max8 then retA (ucast data)
       else bindA ReadUint32 (\<lambda>data32.
         if data32 \<noteq> word_of_int max32 then retA (ucast data32)
         else ReadUint64))"

definition size_wire :: "byte_order \<Rightarrow> 64 word \<Rightarrow> byte list" where
  "size_wire bo v =
     (if sint v < 0 then [255]
      else if sint v < 254 then [ucast v]
      else if sint v < 0x7fffffff then 254 # put_uint bo 4 (ucast v :: 32 word)
      else 254 # put_uint bo 4 (0x7fffffff :: 32 word) @ put_uint bo 8 v)"

text \<open>Every negative size stands for the null size \<open>-1\<close>.\<close>

definition size_norm :: "64 word \<Rightarrow> 64 word" where
  "size_norm v = (if sint v < 0 then -1 else v)"

lemma sint_nonneg_uint: "0 \<le> sint (v :: 'a::len word) \<Longrightarrow> sint v = uint v"
proof -
  assume "0 \<le> sint v"
  moreover have "sint v < 2 ^ LENGTH('a)"
    using sint_lt [of v] by (rule less_le_trans) (simp add: power_increasing)
  ultimately show ?thesis
    by (simp add: uint_sint take_bit_int_eq_self)
qed

lemma ucast_ucast_small:
  assumes "LENGTH('b) \<le> LENGTH('a)" and "uint v < 2 ^ LENGTH('b)"
  shows "ucast (ucast (v :: 'a::len word) :: 'b::len word) = v"
proof (rule word_uint_eqI)
  have "uint (ucast (ucast v :: 'b word) :: 'a word) = take_bit LENGTH('b) (uint v)"
    using assms(1) by (simp add: unsigned_ucast_eq unsigned_take_bit_eq min_def)
  also have "\<dots> = uint v"
    using assms(2) by (simp add: take_bit_int_eq_self)
  finally show "uint (ucast (ucast v :: 'b word) :: 'a word) = uint v" .
qed

lemma uint_ucast_small:
  "LENGTH('b) \<le> LENGTH('a) \<Longrightarrow> uint v < 2 ^ LENGTH('b) \<Longrightarrow> uint (ucast (v :: 'a::len word) :: 'b::len word) = uint v"
  by (simp add: unsigned_ucast_eq take_bit_int_eq_self)

lemma ucast_neq_small:
  assumes "LENGTH('b) \<le> LENGTH('a)" and "uint v < 2 ^ LENGTH('b)" and "uint v \<noteq> uint c"
  shows "(ucast (v :: 'a::len word) :: 'b::len word) \<noteq> c"
  using uint_ucast_small [OF assms(1,2)] assms(3) by auto

lemma PVSize_enc: "PVSize_PVEncode v s = (Inr (), emit (size_wire (eorder s) v) s)"
  by (simp add: PVSize_PVEncode_def size_wire_def write_byte_def write_bytes_def max8_def max32_def)

lemma PVSize_dec:
  assumes bo: "dorder d = Some bo" and buf: "dbuf d = size_wire bo v @ rest"
  shows "PVSize_PVDecode d = (Inr (size_norm v), d\<lparr>dbuf := rest\<rparr>)"
proof -
  consider (neg) "sint v < 0" | (small) "0 \<le> sint v" "sint v < 254"
    | (mid) "254 \<le> sint v" "sint v < 0x7fffffff" | (large) "0x7fffffff \<le> sint v" by linarith
  then show ?thesis
  proof cases
    case neg
    with buf show ?thesis
      by (simp add: PVSize_PVDecode_def size_wire_def act_simps size_norm_def)
  next
    case small
    then have u: "uint v < 254" using sint_nonneg_uint [of v] by simp
    have "(ucast v :: byte) \<noteq> 255" "(ucast v :: byte) \<noteq> 254"
      using u by (intro ucast_neq_small; simp)+
    moreover have "ucast (ucast v :: byte) = v"
      using u by (intro ucast_ucast_small) simp_all
    ultimately show ?thesis
      using small buf by (simp add: PVSize_PVDecode_def size_wire_def act_simps size_norm_def max8_def)
  next
    case mid
    then have u: "uint v < 0x7fffffff" using sint_nonneg_uint [of v] by simp
    have "(ucast v :: 32 word) \<noteq> 0x7fffffff"
      using u by (intro ucast_neq_small) simp_all
    moreover have "ucast (ucast v :: 32 word) = v"
      using u by (intro ucast_ucast_small) simp_all
    ultimately show ?thesis
      using mid buf bo
      by (simp add: PVSize_PVDecode_def size_wire_def act_simps size_norm_def max8_def max32_def ReadUint_put)
  next
    case large
    then show ?thesis
      using buf bo
      by (simp add: PVSize_PVDecode_def size_wire_def act_simps size_norm_def max8_def max32_def ReadUint_put)
  qed
qed

interpretation size_codec: wire_codec PVSize_PVEncode PVSize_PVDecode size_wire "\<lambda>_. True" size_norm
  by unfold_locales (simp_all add: PVSize_enc PVSize_dec)

lemma consumes_PVSize [intro, simp]: "consumes PVSize_PVDecode"
  unfolding PVSize_PVDecode_def by (auto intro!: consumes_bind)

text \<open>Lengths of Go slices and strings are nonnegative, and fit an int.\<close>

definition len_word :: "nat \<Rightarrow> 64 word" where
  "len_word n = word_of_nat n"

definition len_ok :: "nat \<Rightarrow> bool" where
  "len_ok n \<longleftrightarrow> n < 2 ^ 63"

lemma sint_len_word [simp]: "len_ok n \<Longrightarrow> sint (len_word n) = int n"
  by (simp add: len_word_def len_ok_def signed_of_nat signed_take_bit_int_eq_self)

lemma size_norm_len [simp]: "len_ok n \<Longrightarrow> size_norm (len_word n) = len_word n"
  by (simp add: size_norm_def)

section \<open>Numeric types\<close>

definition PVBoolean_PVEncode :: "bool \<Rightarrow> enc" where
  "PVBoolean_PVEncode v = (if v then write_byte 1 else write_byte 0)"

definition PVBoolean_PVDecode :: "bool dec" where
  "PVBoolean_PVDecode = bindA read_byte (\<lambda>data. retA (data \<noteq> 0))"

definition PVByte_PVEncode :: "byte \<Rightarrow> enc" where
  "PVByte_PVEncode v = write_byte v"

definition PVByte_PVDecode :: "byte dec" where
  "PVByte_PVDecode = bindA read_byte (\<lambda>data. retA data)"

definition PVUByte_PVEncode :: "byte \<Rightarrow> enc" where
  "PVUByte_PVEncode v = write_byte v"

definition PVUByte_PVDecode :: "byte dec" where
  "PVUByte_PVDecode = bindA read_byte (\<lambda>data. retA data)"

definition PVShort_PVEncode :: "16 word \<Rightarrow> enc" where
  "PVShort_PVEncode v = WriteUint16 v"

definition PVShort_PVDecode :: "16 word dec" where
  "PVShort_PVDecode = bindA ReadUint16 (\<lambda>data. retA data)"

definition PVUShort_PVEncode :: "16 word \<Rightarrow> enc" where
  "PVUShort_PVEncode v = WriteUint16 v"

definition PVUShort_PVDecode :: "16 word dec" where
  "PVUShort_PVDecode = bindA ReadUint16 (\<lambda>data. retA data)"

definition PVInt_PVEncode :: "32 word \<Rightarrow> enc" where
  "PVInt_PVEncode v = WriteUint32 v"

definition PVInt_PVDecode :: "32 word dec" where
  "PVInt_PVDecode = bindA ReadUint32 (\<lambda>data. retA data)"

definition PVUInt_PVEncode :: "32 word \<Rightarrow> enc" where
  "PVUInt_PVEncode v = WriteUint32 v"

definition PVUInt_PVDecode :: "32 word dec" where
  "PVUInt_PVDecode = bindA ReadUint32 (\<lambda>data. retA data)"

definition PVLong_PVEncode :: "64 word \<Rightarrow> enc" where
  "PVLong_PVEncode v = WriteUint64 v"

definition PVLong_PVDecode :: "64 word dec" where
  "PVLong_PVDecode = bindA ReadUint64 (\<lambda>data. retA data)"

definition PVULong_PVEncode :: "64 word \<Rightarrow> enc" where
  "PVULong_PVEncode v = WriteUint64 v"

definition PVULong_PVDecode :: "64 word dec" where
  "PVULong_PVDecode = bindA ReadUint64 (\<lambda>data. retA data)"

definition PVFloat_PVEncode :: "32 word \<Rightarrow> enc" where
  "PVFloat_PVEncode v = WriteUint32 v"

definition PVFloat_PVDecode :: "32 word dec" where
  "PVFloat_PVDecode = bindA ReadUint32 (\<lambda>data. retA data)"

definition PVDouble_PVEncode :: "64 word \<Rightarrow> enc" where
  "PVDouble_PVEncode v = WriteUint64 v"

definition PVDouble_PVDecode :: "64 word dec" where
  "PVDouble_PVDecode = bindA ReadUint64 (\<lambda>data. retA data)"

section \<open>Strings\<close>

definition PVString_PVEncode :: "string \<Rightarrow> enc" where
  "PVString_PVEncode v =
     seqA (PVSize_PVEncode (len_word (length v))) (write_bytes (bytes_of_string v))"

text \<open>A negative size makes \<open>make([]byte, int(size))\<close> panic.\<close>

definition PVString_PVDecode :: "string dec" where
  "PVString_PVDecode =
     bindA PVSize_PVDecode (\<lambda>size.
       if sint size < 0 then failA (Panic MakeSliceLen)
       else bindA (read_full (nat (sint size))) (\<lambda>bytes. retA (string_of_bytes bytes)))"

text \<open>
  \<open>PVBoundedString\<close> checks its bound before encoding; its \<open>PVDecode\<close> is the one of the
  embedded \<open>*PVString\<close>.
\<close>

definition PVBoundedString_PVEncode :: "64 word \<Rightarrow> string \<Rightarrow> enc" where
  "PVBoundedString_PVEncode bound v =
     (if int (length v) > sint bound then failA (ExceedsBound (length v) (sint bound))
      else PVString_PVEncode v)"

section \<open>The scalar types together\<close>

text \<open>A value of one of the scalar types: the type switch of \<open>valueToPVField\<close> selects by it.\<close>

datatype prim =
    PVBoolean bool
  | PVByte byte
  | PVUByte byte
  | PVShort "16 word"
  | PVUShort "16 word"
  | PVInt "32 word"
  | PVUInt "32 word"
  | PVLong "64 word"
  | PVULong "64 word"
  | PVFloat "32 word"
  | PVDouble "64 word"
  | PVString string

fun enc_prim :: "prim \<Rightarrow> enc" where
  "enc_prim (PVBoolean v) = PVBoolean_PVEncode v"
| "enc_prim (PVByte v) = PVByte_PVEncode v"
| "enc_prim (PVUByte v) = PVUByte_PVEncode v"
| "enc_prim (PVShort v) = PVShort_PVEncode v"
| "enc_prim (PVUShort v) = PVUShort_PVEncode v"
| "enc_prim (PVInt v) = PVInt_PVEncode v"
| "enc_prim (PVUInt v) = PVUInt_PVEncode v"
| "enc_prim (PVLong v) = PVLong_PVEncode v"
| "enc_prim (PVULong v) = PVULong_PVEncode v"
| "enc_prim (PVFloat v) = PVFloat_PVEncode v"
| "enc_prim (PVDouble v) = PVDouble_PVEncode v"
| "enc_prim (PVString v) = PVString_PVEncode v"

text \<open>Decoding stores into a variable of a type, here any value of that type.\<close>

fun dec_prim :: "prim \<Rightarrow> prim dec" where
  "dec_prim (PVBoolean _) = bindA PVBoolean_PVDecode (\<lambda>v. retA (PVBoolean v))"
| "dec_prim (PVByte _) = bindA PVByte_PVDecode (\<lambda>v. retA (PVByte v))"
| "dec_prim (PVUByte _) = bindA PVUByte_PVDecode (\<lambda>v. retA (PVUByte v))"
| "dec_prim (PVShort _) = bindA PVShort_PVDecode (\<lambda>v. retA (PVShort v))"
| "dec_prim (PVUShort _) = bindA PVUShort_PVDecode (\<lambda>v. retA (PVUShort v))"
| "dec_prim (PVInt _) = bindA PVInt_PVDecode (\<lambda>v. retA (PVInt v))"
| "dec_prim (PVUInt _) = bindA PVUInt_PVDecode (\<lambda>v. retA (PVUInt v))"
| "dec_prim (PVLong _) = bindA PVLong_PVDecode (\<lambda>v. retA (PVLong v))"
| "dec_prim (PVULong _) = bindA PVULong_PVDecode (\<lambda>v. retA (PVULong v))"
| "dec_prim (PVFloat _) = bindA PVFloat_PVDecode (\<lambda>v. retA (PVFloat v))"
| "dec_prim (PVDouble _) = bindA PVDouble_PVDecode (\<lambda>v. retA (PVDouble v))"
| "dec_prim (PVString _) = bindA PVString_PVDecode (\<lambda>v. retA (PVString v))"

text \<open>The zero value of the type of a scalar; two scalars have one type iff it is the same.\<close>

fun prim_zero :: "prim \<Rightarrow> prim" where
  "prim_zero (PVBoolean _) = PVBoolean False"
| "prim_zero (PVByte _) = PVByte 0"
| "prim_zero (PVUByte _) = PVUByte 0"
| "prim_zero (PVShort _) = PVShort 0"
| "prim_zero (PVUShort _) = PVUShort 0"
| "prim_zero (PVInt _) = PVInt 0"
| "prim_zero (PVUInt _) = PVUInt 0"
| "prim_zero (PVLong _) = PVLong 0"
| "prim_zero (PVULong _) = PVULong 0"
| "prim_zero (PVFloat _) = PVFloat 0"
| "prim_zero (PVDouble _) = PVDouble 0"
| "prim_zero (PVString _) = PVString []"

section \<open>The scalar codecs meet the contract\<close>

definition string_wire :: "byte_order \<Rightarrow> string \<Rightarrow> byte list" where
  "string_wire bo v = size_wire bo (len_word (length v)) @ bytes_of_string v"

definition string_ok :: "string \<Rightarrow> bool" where
  "string_ok v \<longleftrightarrow> len_ok (length v)"

fun prim_wire :: "byte_order \<Rightarrow> prim \<Rightarrow> byte list" where
  "prim_wire bo (PVBoolean v) = [if v then 1 else 0]"
| "prim_wire bo (PVByte v) = [v]"
| "prim_wire bo (PVUByte v) = [v]"
| "prim_wire bo (PVShort v) = put_uint bo 2 v"
| "prim_wire bo (PVUShort v) = put_uint bo 2 v"
| "prim_wire bo (PVInt v) = put_uint bo 4 v"
| "prim_wire bo (PVUInt v) = put_uint bo 4 v"
| "prim_wire bo (PVLong v) = put_uint bo 8 v"
| "prim_wire bo (PVULong v) = put_uint bo 8 v"
| "prim_wire bo (PVFloat v) = put_uint bo 4 v"
| "prim_wire bo (PVDouble v) = put_uint bo 8 v"
| "prim_wire bo (PVString v) = string_wire bo v"

fun prim_ok :: "prim \<Rightarrow> bool" where
  "prim_ok (PVString v) = string_ok v"
| "prim_ok _ = True"

lemmas scalar_enc_defs =
  PVBoolean_PVEncode_def PVByte_PVEncode_def PVUByte_PVEncode_def PVShort_PVEncode_def
  PVUShort_PVEncode_def PVInt_PVEncode_def PVUInt_PVEncode_def PVLong_PVEncode_def
  PVULong_PVEncode_def PVFloat_PVEncode_def PVDouble_PVEncode_def
  WriteUint16_def WriteUint32_def WriteUint64_def write_bytes_def write_byte_def

lemmas scalar_dec_defs =
  PVBoolean_PVDecode_def PVByte_PVDecode_def PVUByte_PVDecode_def PVShort_PVDecode_def
  PVUShort_PVDecode_def PVInt_PVDecode_def PVUInt_PVDecode_def PVLong_PVDecode_def
  PVULong_PVDecode_def PVFloat_PVDecode_def PVDouble_PVDecode_def

lemma PVString_enc: "PVString_PVEncode v s = (Inr (), emit (string_wire (eorder s) v) s)"
  by (simp add: PVString_PVEncode_def string_wire_def act_simps PVSize_enc write_bytes_def)

lemma PVString_dec:
  assumes "string_ok v" "dorder d = Some bo" "dbuf d = string_wire bo v @ rest"
  shows "PVString_PVDecode d = (Inr v, d\<lparr>dbuf := rest\<rparr>)"
proof -
  have "PVSize_PVDecode d = (Inr (len_word (length v)), d\<lparr>dbuf := bytes_of_string v @ rest\<rparr>)"
    using assms by (subst PVSize_dec [where bo = bo and v = "len_word (length v)"])
      (auto simp: string_wire_def string_ok_def)
  then show ?thesis
    using assms(1) by (simp add: PVString_PVDecode_def act_simps string_ok_def read_full_append)
qed

interpretation string_codec: wire_codec PVString_PVEncode PVString_PVDecode string_wire string_ok "\<lambda>v. v"
  by unfold_locales (simp_all add: PVString_enc PVString_dec)

lemma prim_enc: "enc_prim p s = (Inr (), emit (prim_wire (eorder s) p) s)"
  by (cases p) (simp_all add: scalar_enc_defs PVString_enc)

lemma prim_dec:
  assumes "prim_zero z = prim_zero p" "prim_ok p" "dorder d = Some bo" "dbuf d = prim_wire bo p @ rest"
  shows "dec_prim z d = (Inr p, d\<lparr>dbuf := rest\<rparr>)"
proof -
  have str: "PVString_PVDecode d = (Inr v, d\<lparr>dbuf := rest\<rparr>)" if "p = PVString v" for v
    using assms that by (intro PVString_dec) simp_all
  show ?thesis
    using assms str by (cases p; cases z) (simp_all add: scalar_dec_defs act_simps ReadUint_put)
qed

interpretation prim_codec: wire_codec enc_prim "dec_prim z" prim_wire
  "\<lambda>p. prim_zero p = prim_zero z \<and> prim_ok p" "\<lambda>p. p" for z
  by unfold_locales (simp_all add: prim_enc prim_dec)

lemma consumes_PVString [intro, simp]: "consumes PVString_PVDecode"
  unfolding PVString_PVDecode_def by (intro consumes_bind) auto

lemma consumes_prim [intro, simp]: "consumes (dec_prim z)"
  by (cases z) (auto simp: scalar_dec_defs intro!: consumes_bind)

section \<open>Properties\<close>

text \<open>Every \<open>PVSize\<close>, in either byte order, is read back from its encoding and from nothing
  else of the input; a negative size is the null size \<open>-1\<close>, all others keep their value.\<close>

theorem PVSize_roundtrip:
  "\<exists>e. PVSize_PVEncode v (encoder bo) = (Inr (), e) \<and>
     PVSize_PVDecode (decoder bo (ebuf e @ rest)) = (Inr (if sint v < 0 then -1 else v), decoder bo rest)"
  using PVSize_enc [of v "encoder bo"] PVSize_dec [of "decoder bo (size_wire bo v @ rest)" bo v rest]
  by (simp add: size_norm_def)

text \<open>A value of any scalar type, decoded into a variable of its type, is the value that was
  encoded, and the input behind it is untouched; strings up to the length an int can hold.\<close>

theorem prim_roundtrip:
  assumes "prim_zero z = prim_zero p" and "prim_ok p"
  shows "\<exists>e. enc_prim p (encoder bo) = (Inr (), e) \<and>
     dec_prim z (decoder bo (ebuf e @ rest)) = (Inr p, decoder bo rest)"
  using prim_enc [of p "encoder bo"] prim_dec [OF assms, of "decoder bo (prim_wire bo p @ rest)" bo rest]
  by simp

theorem prim_roundtrip_witness:
  "\<exists>e. enc_prim (PVString ''motor'') (encoder BigEndian) = (Inr (), e) \<and>
     dec_prim (PVString []) (decoder BigEndian (ebuf e @ [7])) = (Inr (PVString ''motor''), decoder BigEndian [7])"
  by (rule prim_roundtrip) (simp_all add: string_ok_def len_ok_def)

text \<open>The null size in front of a string is not an error but a panic: the one byte \<open>0xFF\<close>
  stops the program whatever follows it.\<close>

theorem PVString_null_size_panics:
  "PVString_PVDecode (decoder bo (0xFF # rest)) = (Inl (Panic MakeSliceLen), decoder bo rest)"
  by (simp add: PVString_PVDecode_def PVSize_PVDecode_def act_simps)

end
