(* ===== verification/PV_BitSet.thy ===== *)
theory PV_BitSet
  imports PV_Scalars
begin

text \<open>
  \<open>PVBitSet\<close> of pvdata/values.go: a growing sequence of presence bits, packed on the wire eight
  bytes at a time into longs in the coder's byte order and the remainder into single bytes.
\<close>

section \<open>Construction and access\<close>

fun set_bits_from :: "int list \<Rightarrow> bool list \<Rightarrow> gerr + bool list" where
  "set_bits_from [] present = Inr present"
| "set_bits_from (b # bits) present =
     (if 0 \<le> b \<and> b < int (length present) then set_bits_from bits (present[nat b := True])
      else Inl (Panic IndexRange))"

definition NewBitSetWithBits :: "int list \<Rightarrow> gerr + bool list" where
  "NewBitSetWithBits bits =
     (let max = foldl (\<lambda>max b. if b > max then b else max) (-1) bits
      in set_bits_from bits (replicate (nat (max + 1)) False))"

definition PVBitSet_Get :: "bool list \<Rightarrow> nat \<Rightarrow> bool" where
  "PVBitSet_Get present b = (if b < length present then present ! b else False)"

section \<open>Encoding\<close>

text \<open>
  The inner loops \<open>for j := 0; j < n \&\& off+j < len(bs.Present); j++ \{ if bs.Present[off+j] \{ out |= 1 << j \} \}\<close>.
\<close>

definition pack_bits :: "nat \<Rightarrow> nat \<Rightarrow> bool list \<Rightarrow> 'a::len word" where
  "pack_bits n off present =
     foldl (\<lambda>out j. if present ! (off + j) then out OR push_bit j 1 else out) 0
       [0..<min n (length present - off)]"

function enc_bit_bytes :: "bool list \<Rightarrow> nat \<Rightarrow> enc" where
  "enc_bit_bytes present j s =
     (if j < length present
      then seqA (PVUByte_PVEncode (pack_bits 8 j present)) (enc_bit_bytes present (j + 8)) s
      else (Inr (), s))"
  by pat_completeness auto
termination by (relation "measure (\<lambda>(present, j, s). length present - j)") auto

function enc_bit_words :: "bool list \<Rightarrow> nat \<Rightarrow> nat \<Rightarrow> enc" where
  "enc_bit_words present nb i s =
     (if i < nb * 8 then
        if i + 64 \<le> nb * 8
        then seqA (PVULong_PVEncode (pack_bits 64 i present)) (enc_bit_words present nb (i + 64)) s
        else seqA (enc_bit_bytes present i) (enc_bit_words present nb (i + 64)) s
      else (Inr (), s))"
  by pat_completeness auto
termination by (relation "measure (\<lambda>(present, nb, i, s). nb * 8 - i)") auto

declare enc_bit_bytes.simps [simp del] enc_bit_words.simps [simp del]

definition PVBitSet_PVEncode :: "bool list \<Rightarrow> enc" where
  "PVBitSet_PVEncode present =
     (let nb = (length present + 7) div 8
      in seqA (PVSize_PVEncode (len_word nb)) (enc_bit_words present nb 0))"

section \<open>Decoding\<close>

text \<open>
  The inner loops \<open>val := (in \& 1) == 1; if val \{ maxBit = i*8 + j \}; append(val); in >>= 1\<close>;
  \<open>pos\<close> is \<open>i*8 + j\<close>.
\<close>

fun unpack_bits :: "nat \<Rightarrow> nat \<Rightarrow> 'a::len word \<Rightarrow> int \<Rightarrow> bool list \<Rightarrow> int \<times> bool list" where
  "unpack_bits 0 pos w maxBit present = (maxBit, present)"
| "unpack_bits (Suc n) pos w maxBit present =
     (let val = (w AND 1 = 1)
      in unpack_bits n (pos + 1) (drop_bit 1 w) (if val then int pos else maxBit) (present @ [val]))"

function dec_bit_words :: "int \<Rightarrow> nat \<Rightarrow> int \<Rightarrow> bool list \<Rightarrow> (nat \<times> int \<times> bool list) dec" where
  "dec_bit_words nb i maxBit present s =
     (if int i + 7 < nb then
        bindA PVULong_PVDecode (\<lambda>w. case unpack_bits 64 (i * 8) w maxBit present of
          (maxBit', present') \<Rightarrow> dec_bit_words nb (i + 8) maxBit' present') s
      else (Inr (i, maxBit, present), s))"
  by pat_completeness auto
termination by (relation "measure (\<lambda>(nb, i, maxBit, present, s). nat (nb - int i))") auto

function dec_bit_bytes :: "int \<Rightarrow> nat \<Rightarrow> int \<Rightarrow> bool list \<Rightarrow> (int \<times> bool list) dec" where
  "dec_bit_bytes nb i maxBit present s =
     (if int i < nb then
        bindA PVUByte_PVDecode (\<lambda>w. case unpack_bits 8 (i * 8) w maxBit present of
          (maxBit', present') \<Rightarrow> dec_bit_bytes nb (i + 1) maxBit' present') s
      else (Inr (maxBit, present), s))"
  by pat_completeness auto
termination by (relation "measure (\<lambda>(nb, i, maxBit, present, s). nat (nb - int i))") auto

declare dec_bit_words.simps [simp del] dec_bit_bytes.simps [simp del]

definition PVBitSet_PVDecode :: "bool list dec" where
  "PVBitSet_PVDecode =
     bindA PVSize_PVDecode (\<lambda>nb.
     bindA (dec_bit_words (sint nb) 0 (-1) []) (\<lambda>(i, maxBit, present).
     bindA (dec_bit_bytes (sint nb) i maxBit present) (\<lambda>(maxBit, present).
     retA (take (nat (maxBit + 1)) present))))"

section \<open>Packing and unpacking\<close>

lemma bit_foldl_set_bits:
  "bit (foldl (\<lambda>out j. if P j then out OR push_bit j 1 else out) (a :: 'a::len word) js) k \<longleftrightarrow>
     bit a k \<or> (k < LENGTH('a) \<and> k \<in> set js \<and> P k)"
  by (induction js arbitrary: a) (auto simp: bit_simps bit_1_iff)

lemma bit_pack_bits:
  "bit (pack_bits n off present :: 'a::len word) k \<longleftrightarrow>
     k < LENGTH('a) \<and> k < n \<and> off + k < length present \<and> present ! (off + k)"
  by (auto simp: pack_bits_def bit_foldl_set_bits)

lemma pack_bits_drop: "pack_bits n off present = pack_bits n 0 (drop off present)"
  by (auto simp: pack_bits_def intro!: foldl_cong)

lemma map_bit_pack_bits:
  "n \<le> LENGTH('a) \<Longrightarrow>
   map (bit (pack_bits n 0 present :: 'a::len word)) [0..<n] = take n present @ replicate (n - length present) False"
  by (intro nth_equalityI) (auto simp: bit_pack_bits nth_append)

text \<open>The number of the last bit that is set, \<open>-1\<close> if none is.\<close>

fun last_set :: "bool list \<Rightarrow> int" where
  "last_set [] = -1"
| "last_set (b # bs) = (if \<exists>c \<in> set bs. c then last_set bs + 1 else if b then 0 else -1)"

lemma last_set_snoc: "last_set (bs @ [b]) = (if b then int (length bs) else last_set bs)"
  by (induction bs) auto

definition bitset_trim :: "bool list \<Rightarrow> bool list" where
  "bitset_trim present = rev (dropWhile Not (rev present))"

lemma bitset_trim_snoc: "bitset_trim (bs @ [b]) = (if b then bs @ [b] else bitset_trim bs)"
  by (simp add: bitset_trim_def)

lemma bitset_trim_pad [simp]: "bitset_trim (bs @ replicate n False) = bitset_trim bs"
proof (induction n)
  case (Suc n)
  have "bitset_trim (bs @ replicate (Suc n) False) = bitset_trim ((bs @ replicate n False) @ [False])"
    by (simp add: replicate_append_same)
  then show ?case using Suc by (simp only: bitset_trim_snoc) simp
qed simp

lemma last_set_bound: "-1 \<le> last_set bs \<and> last_set bs < int (length bs)"
  by (induction bs) auto

lemma take_last_set: "take (nat (last_set bs + 1)) bs = bitset_trim bs"
proof (induction bs rule: rev_induct)
  case (snoc b bs)
  have "nat (last_set bs + 1) \<le> length bs"
    using last_set_bound [of bs] by linarith
  with snoc show ?case
    by (simp add: last_set_snoc bitset_trim_snoc nat_add_distrib)
qed (simp add: bitset_trim_def)

lemma unpack_bits_eq:
  "length present = pos \<Longrightarrow> maxBit = last_set present \<Longrightarrow> n \<le> LENGTH('a) \<Longrightarrow>
   unpack_bits n pos (w :: 'a::len word) maxBit present =
     (last_set (present @ map (bit w) [0..<n]), present @ map (bit w) [0..<n])"
proof (induction n arbitrary: pos w maxBit present)
  case (Suc n)
  have val: "(w AND 1 = 1) = bit w 0"
    by (simp add: and_one_eq bit_0 odd_iff_mod_2_eq_one)
  have "map (bit w) [0..<Suc n] = bit w 0 # map (bit (drop_bit 1 w)) [0..<n]"
    by (simp add: upt_conv_Cons map_Suc_upt [symmetric] bit_drop_bit_eq o_def del: upt_Suc)
  then have "(present @ [bit w 0]) @ map (bit (drop_bit 1 w)) [0..<n] = present @ map (bit w) [0..<Suc n]"
    by simp
  with Suc.prems Suc.IH [of "present @ [bit w 0]" "pos + 1" _ "drop_bit 1 w"] show ?case
    by (cases "bit w 0") (simp_all add: val last_set_snoc Let_def del: upt_Suc)
qed simp

section \<open>The packed form, and the codec\<close>

function bit_bytes :: "bool list \<Rightarrow> byte list" where
  "bit_bytes bits = (if bits = [] then [] else pack_bits 8 0 bits # bit_bytes (drop 8 bits))"
  by pat_completeness auto
termination by (relation "measure length") auto

function bit_words :: "byte_order \<Rightarrow> bool list \<Rightarrow> byte list" where
  "bit_words bo bits =
     (if 56 < length bits then put_uint bo 8 (pack_bits 64 0 bits :: 64 word) @ bit_words bo (drop 64 bits)
      else bit_bytes bits)"
  by pat_completeness auto
termination by (relation "measure (\<lambda>(bo, bits). length bits)") auto

declare bit_bytes.simps [simp del] bit_words.simps [simp del]

definition bitset_wire :: "byte_order \<Rightarrow> bool list \<Rightarrow> byte list" where
  "bitset_wire bo present = size_wire bo (len_word ((length present + 7) div 8)) @ bit_words bo present"

definition bitset_ok :: "bool list \<Rightarrow> bool" where
  "bitset_ok present \<longleftrightarrow> len_ok (length present)"

lemma enc_bit_bytes_eq: "enc_bit_bytes present j s = (Inr (), emit (bit_bytes (drop j present)) s)"
proof (induction present j s rule: enc_bit_bytes.induct)
  case (1 present j s)
  show ?case
  proof (cases "j < length present")
    case True
    with 1 show ?thesis
      by (simp add: enc_bit_bytes.simps [of present j s] bit_bytes.simps [of "drop j present"]
          act_simps scalar_enc_defs pack_bits_drop [of 8 j] add.commute)
  next
    case False
    then show ?thesis by (simp add: enc_bit_bytes.simps bit_bytes.simps)
  qed
qed

lemma enc_bit_words_eq:
  assumes "nb = (length present + 7) div 8" and "8 dvd i"
  shows "enc_bit_words present nb i s = (Inr (), emit (bit_words (eorder s) (drop i present)) s)"
  using assms
proof (induction present nb i s rule: enc_bit_words.induct)
  case (1 present nb i s)
  from "1.prems" have full: "i + 64 \<le> nb * 8 \<longleftrightarrow> 56 < length (drop i present)"
    by (auto elim!: dvdE) arith
  show ?case
  proof (cases "i + 64 \<le> nb * 8")
    case True
    with 1 full show ?thesis
      by (simp add: enc_bit_words.simps [of present _ i s] bit_words.simps [of _ "drop i present"]
          act_simps scalar_enc_defs pack_bits_drop [of 64 i] add.commute)
  next
    case False
    with full have short: "bit_words (eorder s) (drop i present) = bit_bytes (drop i present)"
      by (simp add: bit_words.simps)
    show ?thesis
    proof (cases "i < nb * 8")
      case True
      with \<open>\<not> i + 64 \<le> nb * 8\<close> short show ?thesis
        by (simp add: enc_bit_words.simps [of present nb i s] enc_bit_words.simps [of present nb "i + 64"]
            act_simps enc_bit_bytes_eq)
    next
      case False
      with "1.prems" have "drop i present = []" by (auto elim!: dvdE)
      with False short show ?thesis
        by (simp add: enc_bit_words.simps [of present nb i s] bit_bytes.simps)
    qed
  qed
qed

lemma PVBitSet_enc: "PVBitSet_PVEncode present s = (Inr (), emit (bitset_wire (eorder s) present) s)"
  by (simp add: PVBitSet_PVEncode_def bitset_wire_def Let_def act_simps PVSize_enc enc_bit_words_eq)

lemma dec_bit_bytes_eq:
  assumes "length present = 8 * i" "maxBit = last_set present"
    and "nb = int i + int ((length bits + 7) div 8)" and "dbuf d = bit_bytes bits @ rest"
  shows "\<exists>k. dec_bit_bytes nb i maxBit present d =
     (Inr (last_set (present @ bits @ replicate k False), present @ bits @ replicate k False), d\<lparr>dbuf := rest\<rparr>)"
  using assms
proof (induction bits arbitrary: i maxBit present d rule: bit_bytes.induct)
  case (1 bits)
  show ?case
  proof (cases "bits = []")
    case True
    with "1.prems" show ?thesis
      by (intro exI [of _ 0]) (simp add: dec_bit_bytes.simps bit_bytes.simps)
  next
    case False
    let ?w = "pack_bits 8 0 bits :: byte"
    let ?new = "take 8 bits @ replicate (8 - length bits) False"
    have new: "map (bit ?w) [0..<8] = ?new"
      by (rule map_bit_pack_bits) simp
    have more: "int i < nb"
      using "1.prems"(3) False by (cases bits) simp_all
    have step: "dec_bit_bytes nb i maxBit present d =
        dec_bit_bytes nb (i + 1) (last_set (present @ ?new)) (present @ ?new) (d\<lparr>dbuf := bit_bytes (drop 8 bits) @ rest\<rparr>)"
      using "1.prems"(1,2,4) False more unpack_bits_eq [of present "8 * i" maxBit 8 ?w]
      by (subst dec_bit_bytes.simps)
         (simp add: bit_bytes.simps [of bits] scalar_dec_defs act_simps new mult.commute)
    have len: "length (present @ ?new) = 8 * (i + 1)"
      using "1.prems" by simp
    show ?thesis
    proof (cases "length bits \<le> 8")
      case True
      then have "nb = int (i + 1)" using "1.prems" False by (cases bits) auto
      with True step show ?thesis
        by (intro exI [of _ "8 - length bits"])
           (simp add: dec_bit_bytes.simps [of _ "i + 1"] dec_bit_bytes.simps [of _ "Suc i"] bit_bytes.simps)
    next
      case False
      have "(length bits + 7) div 8 = Suc ((length (drop 8 bits) + 7) div 8)"
        using False by simp
      then have "nb = int (i + 1) + int ((length (drop 8 bits) + 7) div 8)"
        using "1.prems" by simp
      from "1.IH" [OF \<open>bits \<noteq> []\<close> len refl this, of "d\<lparr>dbuf := bit_bytes (drop 8 bits) @ rest\<rparr>"]
      obtain k where "dec_bit_bytes nb i maxBit present d =
          (Inr (last_set ((present @ ?new) @ drop 8 bits @ replicate k False),
            (present @ ?new) @ drop 8 bits @ replicate k False), d\<lparr>dbuf := rest\<rparr>)"
        unfolding step by auto
      moreover have "(present @ ?new) @ drop 8 bits @ replicate k False = present @ bits @ replicate k False"
        using False by (simp add: append_assoc [symmetric] del: append_assoc) simp
      ultimately show ?thesis by metis
    qed
  qed
qed


lemma dec_bits_eq:
  assumes "length present = 8 * i" "maxBit = last_set present"
    and "nb = int i + int ((length bits + 7) div 8)" and "dorder d = Some bo" and "dbuf d = bit_words bo bits @ rest"
  shows "\<exists>k. bindA (dec_bit_words nb i maxBit present) (\<lambda>(i, maxBit, present). dec_bit_bytes nb i maxBit present) d =
     (Inr (last_set (present @ bits @ replicate k False), present @ bits @ replicate k False), d\<lparr>dbuf := rest\<rparr>)"
    (is "\<exists>k. ?run i maxBit present d = ?result present bits k")
  using assms
proof (induction bo bits arbitrary: i maxBit present d rule: bit_words.induct)
  case (1 bo bits)
  show ?case
  proof (cases "56 < length bits")
    case False
    then have "\<not> int i + 7 < nb" using "1.prems"(3) by simp
    then have "dec_bit_words nb i maxBit present d = (Inr (i, maxBit, present), d)"
      by (simp add: dec_bit_words.simps)
    moreover have "bit_words bo bits = bit_bytes bits" using False by (simp add: bit_words.simps)
    ultimately show ?thesis
      using dec_bit_bytes_eq [of present i maxBit nb bits d rest] "1.prems"
      by (simp add: bindA_def)
  next
    case True
    let ?w = "pack_bits 64 0 bits :: 64 word"
    let ?new = "take 64 bits @ replicate (64 - length bits) False"
    let ?d = "d\<lparr>dbuf := bit_words bo (drop 64 bits) @ rest\<rparr>"
    have new: "map (bit ?w) [0..<64] = ?new"
      by (rule map_bit_pack_bits) simp
    have more: "int i + 7 < nb" using True "1.prems"(3) by simp
    have step: "?run i maxBit present d = ?run (i + 8) (last_set (present @ ?new)) (present @ ?new) ?d"
      using "1.prems"(1,2,4,5) True more unpack_bits_eq [of present "8 * i" maxBit 64 ?w]
      by (simp add: dec_bit_words.simps [of nb i] bit_words.simps [of bo bits] scalar_dec_defs act_simps
          ReadUint_put new mult.commute)
    show ?thesis
    proof (cases "length bits \<le> 64")
      case True
      then have "nb = int (i + 8)" using "1.prems"(3) \<open>56 < length bits\<close> by simp
      with True step show ?thesis
        by (intro exI [of _ "64 - length bits"])
           (simp add: dec_bit_words.simps dec_bit_bytes.simps bit_words.simps [of bo "[]"] bit_bytes.simps [of "[]"] act_simps)
    next
      case False
      have nb: "nb = int (i + 8) + int ((length (drop 64 bits) + 7) div 8)"
        using "1.prems"(3) False by simp
      have len: "length (present @ ?new) = 8 * (i + 8)"
        using "1.prems"(1) False by simp
      have d: "?d\<lparr>dbuf := rest\<rparr> = d\<lparr>dbuf := rest\<rparr>" "dbuf ?d = bit_words bo (drop 64 bits) @ rest"
        "dorder ?d = Some bo" using "1.prems"(4) by simp_all
      have all: "(present @ ?new) @ drop 64 bits @ replicate k False = present @ bits @ replicate k False" for k
        using False by (simp add: append_assoc [symmetric] del: append_assoc) simp
      show ?thesis
        using "1.IH" [OF True len refl nb d(3,2)] unfolding d(1) all step .
    qed
  qed
qed

lemma PVBitSet_dec:
  assumes ok: "bitset_ok present" and bo: "dorder d = Some bo" and buf: "dbuf d = bitset_wire bo present @ rest"
  shows "PVBitSet_PVDecode d = (Inr (bitset_trim present), d\<lparr>dbuf := rest\<rparr>)"
proof -
  let ?nb = "(length present + 7) div 8"
  have len: "len_ok ?nb" using ok by (simp add: bitset_ok_def len_ok_def)
  have "PVSize_PVDecode d = (Inr (len_word ?nb), d\<lparr>dbuf := bit_words bo present @ rest\<rparr>)"
    using bo buf len by (subst PVSize_dec [where bo = bo and v = "len_word ?nb"]) (auto simp: bitset_wire_def)
  moreover obtain k where "bindA (dec_bit_words (int ?nb) 0 (-1) []) (\<lambda>(i, maxBit, present).
      dec_bit_bytes (int ?nb) i maxBit present) (d\<lparr>dbuf := bit_words bo present @ rest\<rparr>) =
      (Inr (last_set (present @ replicate k False), present @ replicate k False), d\<lparr>dbuf := rest\<rparr>)"
    using dec_bits_eq [of "[]" 0 "-1" "int ?nb" present "d\<lparr>dbuf := bit_words bo present @ rest\<rparr>" bo rest] bo by auto
  ultimately show ?thesis
    using len unfolding PVBitSet_PVDecode_def
    by (auto simp: act_simps take_last_set simp del: take_append split: prod.splits sum.splits)
qed

interpretation bitset_codec: wire_codec PVBitSet_PVEncode PVBitSet_PVDecode bitset_wire bitset_ok bitset_trim
  by unfold_locales (simp_all add: PVBitSet_enc PVBitSet_dec)

text \<open>Trimming keeps every bit.\<close>

lemma nth_bitset_trim: "PVBitSet_Get (bitset_trim present) b = PVBitSet_Get present b"
proof (induction present rule: rev_induct)
  case (snoc x xs)
  then show ?case
    by (auto simp: bitset_trim_snoc PVBitSet_Get_def nth_append)
qed (simp add: bitset_trim_def PVBitSet_Get_def)

lemma bitset_trim_last: "bitset_trim present = [] \<or> last (bitset_trim present)"
  by (induction present rule: rev_induct) (auto simp: bitset_trim_snoc, simp add: bitset_trim_def)

lemma consumes_dec_bits [intro, simp]:
  "consumes (dec_bit_words nb i maxBit present)" "consumes (dec_bit_bytes nb i maxBit present)"
proof -
  have rd: "consumes PVULong_PVDecode" "consumes PVUByte_PVDecode"
    by (auto simp: scalar_dec_defs intro!: consumes_bind)
  have "(\<exists>bs. dbuf s = bs @ dbuf t) \<and> dorder t = dorder s"
    if "dec_bit_words nb i maxBit present s = (r, t)" for r s t
    using that
  proof (induction nb i maxBit present s rule: dec_bit_words.induct)
    case (1 nb i maxBit present s)
    then show ?case
      using consumesD [OF rd(1), of s]
      by (subst (asm) dec_bit_words.simps)
        (fastforce simp: bindA_def split: if_splits prod.splits sum.splits)
  qed
  then show "consumes (dec_bit_words nb i maxBit present)" by (auto intro: consumesI)
  have "(\<exists>bs. dbuf s = bs @ dbuf t) \<and> dorder t = dorder s"
    if "dec_bit_bytes nb i maxBit present s = (r, t)" for r s t
    using that
  proof (induction nb i maxBit present s rule: dec_bit_bytes.induct)
    case (1 nb i maxBit present s)
    then show ?case
      using consumesD [OF rd(2), of s]
      by (subst (asm) dec_bit_bytes.simps)
        (fastforce simp: bindA_def split: if_splits prod.splits sum.splits)
  qed
  then show "consumes (dec_bit_bytes nb i maxBit present)" by (auto intro: consumesI)
qed

lemma consumes_PVBitSet [intro, simp]: "consumes PVBitSet_PVDecode"
  unfolding PVBitSet_PVDecode_def by (intro consumes_bind) (auto split: prod.splits intro!: consumes_bind)

section \<open>Properties\<close>

lemma PVBitSet_Get_update:
  "b < length ps \<Longrightarrow> PVBitSet_Get (ps[b := True]) c \<longleftrightarrow> c = b \<or> PVBitSet_Get ps c"
  by (auto simp: PVBitSet_Get_def nth_list_update)

lemma set_bits_from_ok:
  "\<forall>b \<in> set bits. 0 \<le> b \<and> b < int (length ps) \<Longrightarrow>
   \<exists>qs. set_bits_from bits ps = Inr qs \<and> (\<forall>c. PVBitSet_Get qs c \<longleftrightarrow> PVBitSet_Get ps c \<or> int c \<in> set bits)"
proof (induction bits arbitrary: ps)
  case (Cons b bits)
  then have b: "0 \<le> b" "b < int (length ps)" by simp_all
  from Cons.prems have "\<forall>c \<in> set bits. 0 \<le> c \<and> c < int (length (ps[nat b := True]))" by simp
  from Cons.IH [OF this] obtain qs where "set_bits_from bits (ps[nat b := True]) = Inr qs"
    "\<forall>c. PVBitSet_Get qs c \<longleftrightarrow> PVBitSet_Get (ps[nat b := True]) c \<or> int c \<in> set bits"
    by (elim exE conjE)
  with b show ?case by (simp add: PVBitSet_Get_update nat_eq_iff2) blast
qed simp

lemma foldl_max_ge: "m \<le> foldl (\<lambda>max b. if b > max then b else max) (m :: int) bits"
proof (induction bits arbitrary: m)
  case (Cons b bits)
  show ?case using Cons [of "if b > m then b else m"] by (cases "b > m") simp_all
qed simp

lemma foldl_max_bound: "b \<in> set bits \<Longrightarrow> b \<le> foldl (\<lambda>max b. if b > max then b else max) (m :: int) bits"
proof (induction bits arbitrary: m)
  case (Cons c bits)
  then show ?case
    using foldl_max_ge [of "if c > m then c else m" bits] by (cases "c > m") auto
qed simp

lemma PVBitSet_Get_replicate [simp]: "\<not> PVBitSet_Get (replicate n False) c"
  by (simp add: PVBitSet_Get_def)

text \<open>A bit set built from bit numbers holds exactly these bits.\<close>

theorem NewBitSetWithBits_Get:
  assumes "list_all (\<lambda>b. 0 \<le> b) bits"
  shows "\<exists>ps. NewBitSetWithBits bits = Inr ps \<and> (\<forall>c. PVBitSet_Get ps c \<longleftrightarrow> int c \<in> set bits)"
proof -
  let ?max = "foldl (\<lambda>max b. if b > max then b else max) (-1) bits"
  have "\<forall>b \<in> set bits. 0 \<le> b \<and> b < int (length (replicate (nat (?max + 1)) False))"
    using assms foldl_max_bound [of _ bits "-1"] unfolding list_all_iff by fastforce
  then show ?thesis
    using set_bits_from_ok [of bits "replicate (nat (?max + 1)) False"]
    unfolding NewBitSetWithBits_def Let_def by auto
qed

theorem NewBitSetWithBits_Get_witness:
  "\<exists>ps. NewBitSetWithBits [3, 0, 9] = Inr ps \<and> (\<forall>c. PVBitSet_Get ps c \<longleftrightarrow> int c \<in> set [3, 0, 9])"
  by (rule NewBitSetWithBits_Get) simp

text \<open>C8: A bit set of any length, in either byte order, is read back from its encoding with the
  same bits set, cut behind the last of them.\<close>

theorem PVBitSet_roundtrip:
  assumes "length ps < 2 ^ 63"
  shows "\<exists>e qs. PVBitSet_PVEncode ps (encoder bo) = (Inr (), e) \<and>
     PVBitSet_PVDecode (decoder bo (ebuf e @ rest)) = (Inr qs, decoder bo rest) \<and>
     (\<forall>b. PVBitSet_Get qs b = PVBitSet_Get ps b) \<and> (qs = [] \<or> last qs)"
  using assms PVBitSet_enc [of ps "encoder bo"] PVBitSet_dec [of ps "decoder bo (bitset_wire bo ps @ rest)" bo rest]
    bitset_trim_last [of ps] by (simp add: bitset_ok_def len_ok_def nth_bitset_trim)

theorem PVBitSet_roundtrip_witness:
  "\<exists>e qs. PVBitSet_PVEncode [False, True, False] (encoder LittleEndian) = (Inr (), e) \<and>
     PVBitSet_PVDecode (decoder LittleEndian (ebuf e @ [1, 2])) = (Inr qs, decoder LittleEndian [1, 2]) \<and>
     (\<forall>b. PVBitSet_Get qs b = PVBitSet_Get [False, True, False] b) \<and> (qs = [] \<or> last qs)"
  by (rule PVBitSet_roundtrip) simp

end
