(* ===== verification/PV_Status.thy ===== *)
theory PV_Status
  imports PV_Scalars
begin

text \<open>
  \<open>PVStatus\<close> of pvdata/values.go: the outcome of an operation, one byte on the wire when it is
  a plain OK, else its type followed by the message and the call tree.
\<close>

abbreviation PVStatus_OK :: byte where "PVStatus_OK \<equiv> 0"
abbreviation PVStatus_WARNING :: byte where "PVStatus_WARNING \<equiv> 1"
abbreviation PVStatus_ERROR :: byte where "PVStatus_ERROR \<equiv> 2"
abbreviation PVStatus_FATAL :: byte where "PVStatus_FATAL \<equiv> 3"

definition zero_status :: pvstatus where
  "zero_status = \<lparr>st_Type = PVStatus_OK, st_Message = [], st_CallTree = []\<rparr>"

definition PVStatus_PVEncode :: "pvstatus \<Rightarrow> enc" where
  "PVStatus_PVEncode v =
     (if st_Type v = PVStatus_OK \<and> length (st_Message v) = 0 \<and> length (st_CallTree v) = 0
      then write_byte 0xFF
      else seqA (write_byte (st_Type v))
             (seqA (PVString_PVEncode (st_Message v)) (PVString_PVEncode (st_CallTree v))))"

definition PVStatus_PVDecode :: "pvstatus dec" where
  "PVStatus_PVDecode =
     bindA read_byte (\<lambda>t.
       if t = 0xFF then retA \<lparr>st_Type = PVStatus_OK, st_Message = [], st_CallTree = []\<rparr>
       else bindA PVString_PVDecode (\<lambda>message.
            bindA PVString_PVDecode (\<lambda>callTree.
              retA \<lparr>st_Type = t, st_Message = message, st_CallTree = callTree\<rparr>)))"

text \<open>\<open>v.Type > PVStatus_WARNING\<close>, the test of the \<open>breakonerror\<close> tag; \<open>PVByte\<close> is signed.\<close>

definition status_failed :: "pvstatus \<Rightarrow> bool" where
  "status_failed v \<longleftrightarrow> sint (st_Type v) > sint PVStatus_WARNING"

definition status_wire :: "byte_order \<Rightarrow> pvstatus \<Rightarrow> byte list" where
  "status_wire bo v =
     (if v = zero_status then [0xFF]
      else st_Type v # string_wire bo (st_Message v) @ string_wire bo (st_CallTree v))"

definition status_ok :: "pvstatus \<Rightarrow> bool" where
  "status_ok v \<longleftrightarrow> st_Type v \<noteq> 0xFF \<and> string_ok (st_Message v) \<and> string_ok (st_CallTree v)"

lemma PVStatus_enc: "PVStatus_PVEncode v s = (Inr (), emit (status_wire (eorder s) v) s)"
  by (cases v) (simp add: PVStatus_PVEncode_def status_wire_def zero_status_def act_simps
      write_byte_def PVString_enc)

lemma PVStatus_dec:
  assumes "status_ok v" "dorder d = Some bo" "dbuf d = status_wire bo v @ rest"
  shows "PVStatus_PVDecode d = (Inr v, d\<lparr>dbuf := rest\<rparr>)"
proof (rule dec_updI [OF assms(3)], cases "v = zero_status")
  case True
  then show "PVStatus_PVDecode (d\<lparr>dbuf := status_wire bo v @ rest\<rparr>) = (Inr v, d\<lparr>dbuf := rest\<rparr>)"
    by (simp add: PVStatus_PVDecode_def status_wire_def act_simps zero_status_def)
next
  case False
  then show "PVStatus_PVDecode (d\<lparr>dbuf := status_wire bo v @ rest\<rparr>) = (Inr v, d\<lparr>dbuf := rest\<rparr>)"
    using assms(1,2)
    by (simp add: PVStatus_PVDecode_def status_wire_def status_ok_def act_simps string_codec.dec_upd)
qed

interpretation status_codec: wire_codec PVStatus_PVEncode PVStatus_PVDecode status_wire status_ok "\<lambda>v. v"
  by unfold_locales (simp_all add: PVStatus_enc PVStatus_dec)

lemma consumes_PVStatus [intro, simp]: "consumes PVStatus_PVDecode"
  unfolding PVStatus_PVDecode_def by (auto intro!: consumes_bind)

section \<open>Properties\<close>

text \<open>A status is read back from its encoding. The one type that cannot be sent is the signed
  byte \<open>-1\<close>, the mark of the short form.\<close>

theorem PVStatus_roundtrip:
  assumes "st_Type v \<noteq> 0xFF" and "length (st_Message v) < 2 ^ 63" and "length (st_CallTree v) < 2 ^ 63"
  shows "\<exists>e. PVStatus_PVEncode v (encoder bo) = (Inr (), e) \<and>
     PVStatus_PVDecode (decoder bo (ebuf e @ rest)) = (Inr v, decoder bo rest)"
  using assms PVStatus_enc [of v "encoder bo"] PVStatus_dec [of v "decoder bo (status_wire bo v @ rest)" bo rest]
  by (simp add: status_ok_def string_ok_def len_ok_def)

theorem PVStatus_roundtrip_witness:
  "let v = \<lparr>st_Type = PVStatus_ERROR, st_Message = ''no channel'', st_CallTree = []\<rparr> in
   \<exists>e. PVStatus_PVEncode v (encoder BigEndian) = (Inr (), e) \<and>
     PVStatus_PVDecode (decoder BigEndian (ebuf e @ [])) = (Inr v, decoder BigEndian [])"
  unfolding Let_def by (rule PVStatus_roundtrip) simp_all

end
