(* ===== verification/PV_FieldDesc.thy ===== *)
theory PV_FieldDesc
  imports PV_Scalars
begin

text \<open>
  \<open>FieldDesc\<close> of pvdata/values.go: the introspection data that describes a type on the wire.

  A descriptor nests through the fields of a structure, so the decoder recurses as deep as the
  input says. Its model takes a fuel; every level reads a byte first, so one more than the
  number of bytes to come is always enough (\<open>FieldDesc_decode_fuel_enough\<close>).
\<close>

section \<open>Type codes\<close>

abbreviation NULL_TYPE_CODE :: byte where "NULL_TYPE_CODE \<equiv> 0xFF"
abbreviation ONLY_ID_TYPE_CODE :: byte where "ONLY_ID_TYPE_CODE \<equiv> 0xFE"
abbreviation FULL_WITH_ID_TYPE_CODE :: byte where "FULL_WITH_ID_TYPE_CODE \<equiv> 0xFD"
abbreviation FULL_TAGGED_ID_TYPE_CODE :: byte where "FULL_TAGGED_ID_TYPE_CODE \<equiv> 0xFC"

abbreviation BOOLEAN :: byte where "BOOLEAN \<equiv> 0x00"
abbreviation BYTE :: byte where "BYTE \<equiv> 0x20"
abbreviation SHORT :: byte where "SHORT \<equiv> 0x21"
abbreviation INT_CODE :: byte where "INT_CODE \<equiv> 0x22"
abbreviation LONG :: byte where "LONG \<equiv> 0x23"
abbreviation UBYTE :: byte where "UBYTE \<equiv> 0x24"
abbreviation USHORT :: byte where "USHORT \<equiv> 0x25"
abbreviation UINT :: byte where "UINT \<equiv> 0x26"
abbreviation ULONG :: byte where "ULONG \<equiv> 0x27"
abbreviation FLOAT :: byte where "FLOAT \<equiv> 0x42"
abbreviation DOUBLE :: byte where "DOUBLE \<equiv> 0x43"
abbreviation STRING :: byte where "STRING \<equiv> 0x60"
abbreviation ARRAY_BITS :: byte where "ARRAY_BITS \<equiv> 0x18"
abbreviation VARIABLE_ARRAY :: byte where "VARIABLE_ARRAY \<equiv> 0x08"
abbreviation FIXED_ARRAY :: byte where "FIXED_ARRAY \<equiv> 0x18"
abbreviation BOUNDED_STRING :: byte where "BOUNDED_STRING \<equiv> 0x86"
abbreviation STRUCT :: byte where "STRUCT \<equiv> 0x80"
abbreviation UNION :: byte where "UNION \<equiv> 0x81"
abbreviation VARIANT_UNION :: byte where "VARIANT_UNION \<equiv> 0x82"
abbreviation STRUCT_ARRAY :: byte where "STRUCT_ARRAY \<equiv> 0x88"
abbreviation UNION_ARRAY :: byte where "UNION_ARRAY \<equiv> 0x89"

section \<open>Descriptors\<close>

text \<open>
  The fields of the struct up to \<open>StructType\<close> are the record \<open>fd_head\<close>; \<open>Fields\<close>, a slice of
  \<open>StructFieldDesc\<close> (a name and a descriptor), makes the type recursive.
\<close>

record fd_head =
  TypeCode :: byte
  HasID :: bool
  HasTag :: bool
  fd_ID :: "16 word"
  fd_Tag :: "32 word"
  fd_Size :: "64 word"
  StructType :: string

datatype fdesc = FieldDesc (fd_head: fd_head) (fd_Fields: "(string \<times> fdesc) list")

definition zero_head :: fd_head where
  "zero_head = \<lparr>TypeCode = 0, HasID = False, HasTag = False, fd_ID = 0, fd_Tag = 0, fd_Size = 0, StructType = []\<rparr>"

definition zero_fdesc :: fdesc where
  "zero_fdesc = FieldDesc zero_head []"

lemma size_fd_Fields [termination_simp]: "sf \<in> set fs \<Longrightarrow> size (snd sf) < size (FieldDesc h fs)"
  by (induction fs) auto

text \<open>\<open>f.TypeCode \& 0x10 == 0x10 || f.TypeCode == BOUNDED_STRING\<close>\<close>

definition has_size :: "byte \<Rightarrow> bool" where
  "has_size tc \<longleftrightarrow> tc AND 0x10 = 0x10 \<or> tc = BOUNDED_STRING"

section \<open>Encoding\<close>

text \<open>The id and tag in front of the type code; \<open>True\<close> where the code returns after the id.\<close>

definition FieldDesc_encode_ids :: "fd_head \<Rightarrow> (estate, bool) act" where
  "FieldDesc_encode_ids h =
     (if HasID h \<and> HasTag h then
        seqA (write_byte FULL_TAGGED_ID_TYPE_CODE)
       (seqA (PVUShort_PVEncode (fd_ID h))
       (seqA (PVInt_PVEncode (fd_Tag h)) (retA False)))
      else if HasID h then
        if TypeCode h = NULL_TYPE_CODE
        then seqA (write_byte ONLY_ID_TYPE_CODE) (seqA (PVUShort_PVEncode (fd_ID h)) (retA True))
        else seqA (write_byte FULL_WITH_ID_TYPE_CODE) (seqA (PVUShort_PVEncode (fd_ID h)) (retA False))
      else retA False)"

text \<open>
  \<open>Encode(s, \&f.StructType, f.Fields)\<close> writes the fields as a \<open>PVArray\<close> of \<open>StructFieldDesc\<close>:
  their number, then for each the name and the descriptor (\<open>PVArray.PVEncode\<close> exempts this type
  from the presence byte, and switches the changed-bit recording off meanwhile).
\<close>

function FieldDesc_PVEncode :: "fdesc \<Rightarrow> enc" where
  "FieldDesc_PVEncode (FieldDesc h fs) s =
     bindA (FieldDesc_encode_ids h) (\<lambda>done.
       whenA (\<not> done)
        (seqA (write_byte (TypeCode h))
        (whenA (\<not> (TypeCode h = NULL_TYPE_CODE \<or> TypeCode h = VARIANT_UNION))
          (seqA (whenA (has_size (TypeCode h)) (PVSize_PVEncode (fd_Size h)))
          (seqA (whenA (TypeCode h = STRUCT_ARRAY) (write_byte STRUCT))
          (seqA (whenA (TypeCode h = UNION_ARRAY) (write_byte UNION))
          (whenA (TypeCode h AND STRUCT = STRUCT \<or> TypeCode h AND UNION = UNION)
            (seqA (PVString_PVEncode (StructType h))
            (seqA (PVSize_PVEncode (len_word (length fs)))
            (eachA (\<lambda>sf. seqA (PVString_PVEncode (fst sf)) (FieldDesc_PVEncode (snd sf))) fs)))))))))) s"
  by pat_completeness auto
termination
  by (relation "measure (\<lambda>(f, s). size f)") (auto dest: size_fd_Fields)

section \<open>Decoding\<close>

text \<open>
  Everything before the structure part: \<open>(True, h)\<close> where the code returns early. A fresh
  descriptor is decoded over the zero value; the model takes the old value, since the fields
  the input does not mention keep theirs.
\<close>

definition FieldDesc_decode_head :: "fd_head \<Rightarrow> (bool \<times> fd_head) dec" where
  "FieldDesc_decode_head h0 =
     bindA read_byte (\<lambda>typeCode.
       let h = h0\<lparr>TypeCode := typeCode\<rparr> in
       if typeCode = NULL_TYPE_CODE then retA (True, h)
       else if typeCode = VARIANT_UNION then retA (True, h)
       else if typeCode = ONLY_ID_TYPE_CODE then retA (True, h\<lparr>HasID := True, TypeCode := NULL_TYPE_CODE\<rparr>)
       else
         let h = (if typeCode = FULL_WITH_ID_TYPE_CODE then h\<lparr>HasID := True\<rparr>
                  else if typeCode = FULL_TAGGED_ID_TYPE_CODE then h\<lparr>HasID := True, HasTag := True\<rparr>
                  else h) in
         bindA (if HasID h then bindA PVUShort_PVDecode (\<lambda>i. retA (h\<lparr>fd_ID := i\<rparr>)) else retA h) (\<lambda>h.
         bindA (if HasTag h then bindA PVInt_PVDecode (\<lambda>t. retA (h\<lparr>fd_Tag := t\<rparr>)) else retA h) (\<lambda>h.
         bindA (if TypeCode h = FULL_WITH_ID_TYPE_CODE \<or> TypeCode h = FULL_TAGGED_ID_TYPE_CODE
                then bindA read_byte (\<lambda>tc. retA (h\<lparr>TypeCode := tc\<rparr>)) else retA h) (\<lambda>h.
         bindA (if has_size (TypeCode h)
                then bindA PVSize_PVDecode (\<lambda>n. retA (h\<lparr>fd_Size := n\<rparr>)) else retA h) (\<lambda>h.
         retA (False, h))))))"

text \<open>
  The elements a decoded slice starts from: \<open>reflect.MakeSlice\<close> makes zero values when the
  capacity is too small, else \<open>SetLen\<close> keeps the old elements.
\<close>

definition slice_resize :: "'a \<Rightarrow> nat \<Rightarrow> 'a list \<Rightarrow> 'a list" where
  "slice_resize zero n olds = (if length olds < n then replicate n zero else take n olds)"

lemma length_slice_resize [simp]: "length (slice_resize z n olds) = n"
  by (simp add: slice_resize_def)

text \<open>
  \<open>Decode(s, \&f.StructType, \&f.Fields)\<close>, where \<open>rec\<close> decodes the descriptor of a field;
  \<open>PVArray.PVDecode\<close> resizes the slice, and \<open>SetLen\<close> panics on a negative length.
\<close>

definition FieldDesc_decode_fields :: "(fdesc \<Rightarrow> fdesc dec) \<Rightarrow> fd_head \<Rightarrow> (string \<times> fdesc) list \<Rightarrow> fdesc dec" where
  "FieldDesc_decode_fields rec h fs =
     bindA PVString_PVDecode (\<lambda>st.
     bindA PVSize_PVDecode (\<lambda>n.
       if sint n < 0 then failA (Panic SetLenRange)
       else bindA (mapA (\<lambda>sf. bindA PVString_PVDecode (\<lambda>name. bindA (rec (snd sf)) (\<lambda>g. retA (name, g))))
                     (slice_resize ([], zero_fdesc) (nat (sint n)) fs)) (\<lambda>fs'.
            retA (FieldDesc (h\<lparr>StructType := st\<rparr>) fs'))))"

fun FieldDesc_decode :: "nat \<Rightarrow> fdesc \<Rightarrow> fdesc dec" where
  "FieldDesc_decode 0 f s = (Inl OutOfFuel, s)"
| "FieldDesc_decode (Suc fuel) (FieldDesc h0 fs) s =
     bindA (FieldDesc_decode_head h0) (\<lambda>(done, h).
       if \<not> done \<and> (TypeCode h = STRUCT \<or> TypeCode h = UNION)
       then FieldDesc_decode_fields (FieldDesc_decode fuel) h fs
       else retA (FieldDesc h fs)) s"

definition FieldDesc_PVDecode :: "fdesc \<Rightarrow> fdesc dec" where
  "FieldDesc_PVDecode f s = FieldDesc_decode (Suc (length (dbuf s))) f s"

section \<open>The bytes of a descriptor\<close>

text \<open>The bytes of the part before and after the fields, and of the whole.\<close>

definition head_wire :: "byte_order \<Rightarrow> fd_head \<Rightarrow> byte list" where
  "head_wire bo h =
     (if HasID h \<and> HasTag h then FULL_TAGGED_ID_TYPE_CODE # put_uint bo 2 (fd_ID h) @ put_uint bo 4 (fd_Tag h)
      else if HasID h then
        if TypeCode h = NULL_TYPE_CODE then ONLY_ID_TYPE_CODE # put_uint bo 2 (fd_ID h)
        else FULL_WITH_ID_TYPE_CODE # put_uint bo 2 (fd_ID h)
      else [])"

function fdesc_wire :: "byte_order \<Rightarrow> fdesc \<Rightarrow> byte list" where
  "fdesc_wire bo (FieldDesc h fs) =
     head_wire bo h @
     (let tc = TypeCode h in
      if HasID h \<and> \<not> HasTag h \<and> tc = NULL_TYPE_CODE then []
      else tc #
       (if tc = NULL_TYPE_CODE \<or> tc = VARIANT_UNION then []
        else (if has_size tc then size_wire bo (fd_Size h) else [])
          @ (if tc = STRUCT_ARRAY then [STRUCT] else [])
          @ (if tc = UNION_ARRAY then [UNION] else [])
          @ (if tc AND STRUCT = STRUCT \<or> tc AND UNION = UNION
             then string_wire bo (StructType h) @ size_wire bo (len_word (length fs))
               @ concat (map (\<lambda>sf. string_wire bo (fst sf) @ fdesc_wire bo (snd sf)) fs)
             else [])))"
  by pat_completeness auto
termination
  by (relation "measure (\<lambda>(bo, f). size f)") (auto dest: size_fd_Fields)

lemma FieldDesc_enc: "FieldDesc_PVEncode f s = (Inr (), emit (fdesc_wire (eorder s) f) s)"
proof (induction f arbitrary: s)
  case (FieldDesc h fs)
  have "FieldDesc_PVEncode (snd sf) s = (Inr (), emit (fdesc_wire (eorder s) (snd sf)) s)" if "sf \<in> set fs" for sf s
    using FieldDesc [OF that, of "snd sf"] by (cases sf) (simp add: prod_set_defs)
  then have fields: "eachA (\<lambda>sf. seqA (PVString_PVEncode (fst sf)) (FieldDesc_PVEncode (snd sf))) fs s =
      (Inr (), emit (concat (map (\<lambda>sf. string_wire (eorder s) (fst sf) @ fdesc_wire (eorder s) (snd sf)) fs)) s)" for s
    by (intro eachA_wire [where w = "\<lambda>bo sf. string_wire bo (fst sf) @ fdesc_wire bo (snd sf)"])
      (simp add: act_simps PVString_enc)
  show ?case
    by (simp add: Let_def act_simps fields FieldDesc_encode_ids_def scalar_enc_defs PVString_enc PVSize_enc head_wire_def)
qed

section \<open>Enough fuel\<close>

lemma consumes_FieldDesc_decode_head [intro, simp]: "consumes (FieldDesc_decode_head h)"
  unfolding FieldDesc_decode_head_def Let_def scalar_dec_defs
  by (intro consumes_bind consumes_read) (auto intro!: consumes_bind)

lemma FieldDesc_decode_head_shorter:
  assumes "FieldDesc_decode_head h s = (Inr x, t)"
  shows "length (dbuf t) < length (dbuf s)"
  using assms unfolding FieldDesc_decode_head_def Let_def scalar_dec_defs
  by (rule read_byte_shorter [rotated]) (auto intro!: consumes_bind)

lemma consumes_mapA: "(\<And>x. x \<in> set xs \<Longrightarrow> consumes (f x)) \<Longrightarrow> consumes (mapA f xs)"
proof (induction xs)
  case Nil
  then show ?case by (simp add: consumes_def)
next
  case (Cons x xs)
  have "mapA f (x # xs) = bindA (f x) (\<lambda>y. bindA (mapA f xs) (\<lambda>ys. retA (y # ys)))"
    by (rule ext) simp
  with Cons show ?case by (auto intro!: consumes_bind)
qed

lemma consumes_FieldDesc_decode_fields:
  "(\<And>g. consumes (rec g)) \<Longrightarrow> consumes (FieldDesc_decode_fields rec h fs)"
  unfolding FieldDesc_decode_fields_def by (intro consumes_bind) (auto intro!: consumes_bind consumes_mapA)

lemma consumes_FieldDesc_decode [intro, simp]: "consumes (FieldDesc_decode fuel f)"
proof (induction fuel arbitrary: f)
  case 0
  then show ?case by (simp add: consumes_def)
next
  case (Suc fuel)
  obtain h0 fs where f: "f = FieldDesc h0 fs" by (cases f)
  show ?case
    unfolding f FieldDesc_decode.simps(2) [abs_def]
    by (intro consumes_bind consumes_FieldDesc_decode_head)
       (auto split: prod.splits intro!: consumes_FieldDesc_decode_fields Suc)
qed

lemma consumes_FieldDesc_PVDecode [intro, simp]: "consumes (FieldDesc_PVDecode f)"
  unfolding consumes_def FieldDesc_PVDecode_def
  using consumesD [OF consumes_FieldDesc_decode] by blast

text \<open>
  With more fuel than bytes the fuel never runs out, and its amount does not matter: the model
  of \<open>PVDecode\<close> is the recursion of the code, without a bound.
\<close>

lemma mapA_cong_consumes:
  assumes "\<And>x. consumes (f x)"
    and "\<And>x u. length (dbuf u) \<le> length (dbuf s) \<Longrightarrow> f x u = g x u"
  shows "mapA f xs s = mapA g xs s"
  using assms(2)
proof (induction xs arbitrary: s)
  case (Cons x xs)
  show ?case
  proof (cases "f x s")
    case (Pair r t)
    then have "length (dbuf t) \<le> length (dbuf s)"
      using consumes_length [OF assms(1)] by blast
    with Cons have "mapA f xs t = mapA g xs t" by (meson le_trans)
    with Pair Cons.prems [of s x] show ?thesis
      by (cases r) (simp_all add: bindA_def)
  qed
qed simp

lemma FieldDesc_decode_fields_cong:
  assumes "\<And>g. consumes (rec g)"
    and "\<And>g u. length (dbuf u) \<le> length (dbuf s) \<Longrightarrow> rec g u = rec' g u"
  shows "FieldDesc_decode_fields rec h fs s = FieldDesc_decode_fields rec' h fs s"
  unfolding FieldDesc_decode_fields_def
proof (intro bindA_cong refl if_cong)
  fix st t n u
  assume "PVString_PVDecode s = (Inr st, t)" "PVSize_PVDecode t = (Inr n, u)"
  then have u: "length (dbuf u) \<le> length (dbuf s)"
    using consumes_length [OF consumes_PVString] consumes_length [OF consumes_PVSize] by (meson le_trans)
  let ?body = "\<lambda>rec sf. bindA PVString_PVDecode (\<lambda>name. bindA (rec (snd sf)) (\<lambda>g. retA (name, g)))"
  let ?zs = "slice_resize ([], zero_fdesc) (nat (sint n)) fs"
  have "mapA (?body rec) ?zs u = mapA (?body rec') ?zs u"
  proof (rule mapA_cong_consumes)
    show "consumes (?body rec sf)" for sf
      using assms(1) by (auto intro!: consumes_bind)
    show "?body rec sf v = ?body rec' sf v" if "length (dbuf v) \<le> length (dbuf u)" for sf v
    proof (intro bindA_cong refl)
      fix name w assume "PVString_PVDecode v = (Inr name, w)"
      then have "length (dbuf w) \<le> length (dbuf s)"
        using consumes_length [OF consumes_PVString] that u by (meson le_trans)
      then show "rec (snd sf) w = rec' (snd sf) w" by (rule assms(2))
    qed
  qed
  then show "(if sint n < 0 then failA (Panic SetLenRange)
      else bindA (mapA (?body rec) ?zs) (\<lambda>fs'. retA (FieldDesc (h\<lparr>StructType := st\<rparr>) fs'))) u =
    (if sint n < 0 then failA (Panic SetLenRange)
      else bindA (mapA (?body rec') ?zs) (\<lambda>fs'. retA (FieldDesc (h\<lparr>StructType := st\<rparr>) fs'))) u"
    by (auto intro: bindA_cong)
qed

lemma FieldDesc_decode_fuel_irrelevant:
  "length (dbuf s) < k \<Longrightarrow> length (dbuf s) < k' \<Longrightarrow> FieldDesc_decode k f s = FieldDesc_decode k' f s"
proof (induction k arbitrary: k' f s)
  case (Suc k)
  then obtain k'' where k': "k' = Suc k''" by (cases k') auto
  obtain h0 fs where f: "f = FieldDesc h0 fs" by (cases f)
  show ?case
    unfolding k' f FieldDesc_decode.simps
  proof (intro bindA_cong refl)
    fix x t assume "FieldDesc_decode_head h0 s = (Inr x, t)"
    then have "length (dbuf t) < length (dbuf s)" by (rule FieldDesc_decode_head_shorter)
    then have "FieldDesc_decode_fields (FieldDesc_decode k) h fs t = FieldDesc_decode_fields (FieldDesc_decode k'') h fs t" for h
      using Suc k' by (intro FieldDesc_decode_fields_cong Suc.IH) auto
    then show "(case x of (done, h) \<Rightarrow> if \<not> done \<and> (TypeCode h = STRUCT \<or> TypeCode h = UNION)
        then FieldDesc_decode_fields (FieldDesc_decode k) h fs else retA (FieldDesc h fs)) t =
      (case x of (done, h) \<Rightarrow> if \<not> done \<and> (TypeCode h = STRUCT \<or> TypeCode h = UNION)
        then FieldDesc_decode_fields (FieldDesc_decode k'') h fs else retA (FieldDesc h fs)) t"
      by (auto split: prod.splits)
  qed
qed simp

lemma mapA_InlE:
  assumes "mapA f xs s = (Inl e, t)" and "\<And>x. consumes (f x)"
  obtains x u where "x \<in> set xs" and "f x u = (Inl e, t)" and "length (dbuf u) \<le> length (dbuf s)"
  using assms(1)
proof (induction xs arbitrary: s thesis)
  case (Cons x xs)
  from Cons.prems(2) show ?case
  proof (simp, elim bindA_InlE)
    assume "f x s = (Inl e, t)"
    then show ?thesis using Cons.prems(1) [of x s] by simp
  next
    fix y u assume y: "f x s = (Inr y, u)" and "mapA f xs u = (Inl e, t)"
    then obtain x' v where "x' \<in> set xs" "f x' v = (Inl e, t)" "length (dbuf v) \<le> length (dbuf u)"
      using Cons.IH by blast
    with consumes_length [OF assms(2) y] show ?thesis
      using Cons.prems(1) [of x' v] by simp
  qed (simp add: retA_def)
qed simp

lemma read_not_OutOfFuel [simp]:
  "read_byte s \<noteq> (Inl OutOfFuel, t)" "read_full n s \<noteq> (Inl OutOfFuel, t)"
  "(read_uint n :: 'a::len word dec) s \<noteq> (Inl OutOfFuel, t)"
  "ReadUint16 s \<noteq> (Inl OutOfFuel, t)" "ReadUint32 s \<noteq> (Inl OutOfFuel, t)" "ReadUint64 s \<noteq> (Inl OutOfFuel, t)"
  by (auto simp: read_byte_def read_full_def read_uint_def ReadUint16_def ReadUint32_def ReadUint64_def
      bindA_def split: list.splits option.splits prod.splits sum.splits if_splits)

lemma scalar_not_OutOfFuel [simp]:
  "PVSize_PVDecode s \<noteq> (Inl OutOfFuel, t)" "PVString_PVDecode s \<noteq> (Inl OutOfFuel, t)"
  "PVUShort_PVDecode s \<noteq> (Inl OutOfFuel, t)" "PVInt_PVDecode s \<noteq> (Inl OutOfFuel, t)"
  unfolding PVSize_PVDecode_def PVString_PVDecode_def scalar_dec_defs
  by (auto elim!: bindA_InlE simp: retA_def failA_def split: if_splits)

lemma FieldDesc_decode_head_not_OutOfFuel [simp]: "FieldDesc_decode_head h s \<noteq> (Inl OutOfFuel, t)"
  unfolding FieldDesc_decode_head_def Let_def
  by (auto elim!: bindA_InlE simp: retA_def split: if_splits)

lemma FieldDesc_decode_fields_OutOfFuel:
  assumes "FieldDesc_decode_fields rec h fs s = (Inl OutOfFuel, t)" and "\<And>g. consumes (rec g)"
  obtains g u where "rec g u = (Inl OutOfFuel, t)" and "length (dbuf u) \<le> length (dbuf s)"
proof -
  let ?body = "\<lambda>sf. bindA PVString_PVDecode (\<lambda>name. bindA (rec (snd sf)) (\<lambda>g. retA (name, g)))"
  from assms(1) obtain n u where n: "length (dbuf u) \<le> length (dbuf s)"
    and "mapA ?body (slice_resize ([], zero_fdesc) n fs) u = (Inl OutOfFuel, t)"
    unfolding FieldDesc_decode_fields_def
    using consumes_length [OF consumes_PVString] consumes_length [OF consumes_PVSize]
    by (auto elim!: bindA_InlE simp: retA_def failA_def split: if_splits) (meson le_trans)
  then obtain sf v where v: "?body sf v = (Inl OutOfFuel, t)" "length (dbuf v) \<le> length (dbuf u)"
    using assms(2) by (elim mapA_InlE) (auto intro!: consumes_bind)
  then show ?thesis
    using that [of "snd sf"] n consumes_length [OF consumes_PVString]
    by (auto elim!: bindA_InlE simp: retA_def) (meson le_trans)
qed

lemma FieldDesc_decode_fuel_enough:
  "length (dbuf s) < k \<Longrightarrow> FieldDesc_decode k f s \<noteq> (Inl OutOfFuel, t)"
proof (induction k arbitrary: f s t)
  case (Suc k)
  obtain h0 fs where f: "f = FieldDesc h0 fs" by (cases f)
  show ?case
  proof
    assume "FieldDesc_decode (Suc k) f s = (Inl OutOfFuel, t)"
    then obtain h u where u: "length (dbuf u) < length (dbuf s)"
      and "FieldDesc_decode_fields (FieldDesc_decode k) h fs u = (Inl OutOfFuel, t)"
      unfolding f FieldDesc_decode.simps
      by (auto elim!: bindA_InlE dest: FieldDesc_decode_head_shorter simp: retA_def split: if_splits)
    then obtain g v where "FieldDesc_decode k g v = (Inl OutOfFuel, t)" "length (dbuf v) \<le> length (dbuf u)"
      by (elim FieldDesc_decode_fields_OutOfFuel) auto
    with u Suc show False by (metis Suc_lessE le_less_trans less_Suc_eq_le less_le_trans not_less)
  qed
qed simp

section \<open>Round trip\<close>

text \<open>
  The descriptors whose encoding the decoder reads back. Left out are the ones on which the two
  sides disagree: an id without a description (the decoder leaves the id in the input), a null
  type with id and tag, a bounded string (the encoder adds an empty structure), and the codes
  above \<open>0x82\<close>, among them the structure and union arrays.
\<close>

definition wf_head :: "fd_head \<Rightarrow> bool" where
  "wf_head h \<longleftrightarrow>
     (HasTag h \<longrightarrow> HasID h) \<and> (\<not> HasTag h \<longrightarrow> fd_Tag h = 0) \<and> (\<not> HasID h \<longrightarrow> fd_ID h = 0) \<and>
     (TypeCode h = NULL_TYPE_CODE \<longrightarrow> \<not> HasID h \<and> fd_Size h = 0) \<and>
     (has_size (TypeCode h) \<or> fd_Size h = 0) \<and> size_norm (fd_Size h) = fd_Size h \<and>
     (TypeCode h AND 0x80 \<noteq> 0x80 \<or> TypeCode h \<in> {STRUCT, UNION, VARIANT_UNION, NULL_TYPE_CODE})"

fun wf_fdesc :: "fdesc \<Rightarrow> bool" where
  "wf_fdesc (FieldDesc h fs) \<longleftrightarrow>
     wf_head h \<and>
     (if TypeCode h = STRUCT \<or> TypeCode h = UNION
      then string_ok (StructType h) \<and> len_ok (length fs) \<and> (\<forall>sf \<in> set fs. string_ok (fst sf) \<and> wf_fdesc (snd sf))
      else StructType h = [] \<and> fs = [])"

text \<open>The part \<open>FieldDesc_decode_head\<close> reads.\<close>

definition head_bytes :: "byte_order \<Rightarrow> fd_head \<Rightarrow> byte list" where
  "head_bytes bo h = head_wire bo h @ [TypeCode h] @
     (if TypeCode h \<noteq> NULL_TYPE_CODE \<and> has_size (TypeCode h) then size_wire bo (fd_Size h) else [])"

lemma and_0x81: "(tc :: byte) AND 0x81 = 0x81 \<Longrightarrow> tc AND 0x80 = 0x80"
proof -
  assume "tc AND 0x81 = 0x81"
  moreover have "tc AND 0x80 = (tc AND 0x81) AND 0x80" by (simp add: and.assoc)
  ultimately show ?thesis by simp
qed

lemma fdesc_wire_wf:
  assumes "wf_fdesc (FieldDesc h fs)"
  shows "fdesc_wire bo (FieldDesc h fs) = head_bytes bo h @
     (if TypeCode h = STRUCT \<or> TypeCode h = UNION
      then string_wire bo (StructType h) @ size_wire bo (len_word (length fs))
        @ concat (map (\<lambda>sf. string_wire bo (fst sf) @ fdesc_wire bo (snd sf)) fs)
      else [])"
proof -
  have "TypeCode h AND 0x80 \<noteq> 0x80 \<Longrightarrow> TypeCode h AND 0x81 \<noteq> 0x81"
    using and_0x81 by blast
  with assms show ?thesis
    by (auto simp: head_bytes_def wf_head_def Let_def has_size_def)
qed

lemma FieldDesc_decode_head_wf:
  assumes wf: "wf_head h" and bo: "dorder d = Some bo"
  shows "FieldDesc_decode_head zero_head (d\<lparr>dbuf := head_bytes bo h @ rest\<rparr>) =
    (Inr (TypeCode h = NULL_TYPE_CODE \<or> TypeCode h = VARIANT_UNION \<and> \<not> HasID h, h\<lparr>StructType := []\<rparr>),
     d\<lparr>dbuf := rest\<rparr>)"
proof (cases h)
  case (fields tc i t ident tag n st)
  from wf have codes: "tc \<noteq> ONLY_ID_TYPE_CODE" "tc \<noteq> FULL_WITH_ID_TYPE_CODE" "tc \<noteq> FULL_TAGGED_ID_TYPE_CODE"
    and ids: "t \<Longrightarrow> i" "\<not> t \<Longrightarrow> tag = 0" "\<not> i \<Longrightarrow> ident = 0"
    and null: "tc = NULL_TYPE_CODE \<Longrightarrow> \<not> i \<and> n = 0"
    and sz: "\<not> has_size tc \<Longrightarrow> n = 0" "size_norm n = n"
    unfolding fields by (auto simp: wf_head_def)
  note defs = FieldDesc_decode_head_def head_bytes_def head_wire_def zero_head_def fields scalar_dec_defs
    act_simps size_codec.dec_upd
  consider (none) "\<not> i" "\<not> t" | (ident) "i" "\<not> t" | (tagged) "i" "t" using ids by blast
  then show ?thesis
  proof cases
    case none
    have "\<not> has_size VARIANT_UNION" by (simp add: has_size_def)
    then show ?thesis
      using none codes ids null sz bo
      by (cases "tc = NULL_TYPE_CODE"; cases "tc = VARIANT_UNION"; cases "has_size tc") (simp_all add: defs Let_def)
  next
    case ident
    then have "tc \<noteq> NULL_TYPE_CODE" using null by blast
    with ident codes ids sz bo show ?thesis
      by (cases "has_size tc") (simp_all add: defs Let_def)
  next
    case tagged
    then have "tc \<noteq> NULL_TYPE_CODE" using null by blast
    with tagged codes ids sz bo show ?thesis
      by (cases "has_size tc") (simp_all add: defs Let_def)
  qed
qed

lemma FieldDesc_decode_wf:
  assumes "wf_fdesc f" and "length (fdesc_wire bo f) \<le> k" and "dorder d = Some bo"
    and "dbuf d = fdesc_wire bo f @ rest"
  shows "FieldDesc_decode k zero_fdesc d = (Inr f, d\<lparr>dbuf := rest\<rparr>)"
  using assms
proof (induction k arbitrary: f d rest)
  case 0
  then show ?case by (cases f) (simp add: fdesc_wire_wf head_bytes_def del: fdesc_wire.simps wf_fdesc.simps)
next
  case (Suc k)
  obtain h fs where f: "f = FieldDesc h fs" by (cases f)
  define tail where "tail = (if TypeCode h = STRUCT \<or> TypeCode h = UNION
      then string_wire bo (StructType h) @ size_wire bo (len_word (length fs))
        @ concat (map (\<lambda>sf. string_wire bo (fst sf) @ fdesc_wire bo (snd sf)) fs) else [])"
  have wire: "fdesc_wire bo f = head_bytes bo h @ tail"
    using Suc.prems(1) unfolding f tail_def by (rule fdesc_wire_wf)
  have wf: "wf_head h" using Suc.prems(1) by (simp add: f)
  have head: "FieldDesc_decode_head zero_head (d\<lparr>dbuf := fdesc_wire bo f @ rest\<rparr>) =
      (Inr (TypeCode h = NULL_TYPE_CODE \<or> TypeCode h = VARIANT_UNION \<and> \<not> HasID h, h\<lparr>StructType := []\<rparr>),
       d\<lparr>dbuf := tail @ rest\<rparr>)"
    using FieldDesc_decode_head_wf [OF wf Suc.prems(3)] by (simp add: wire)
  show ?case
  proof (rule dec_updI [OF Suc.prems(4)], cases "TypeCode h = STRUCT \<or> TypeCode h = UNION")
    case False
    then have "tail = []" "fs = []" "StructType h = []" using Suc.prems(1) by (auto simp: f tail_def)
    with False head show "FieldDesc_decode (Suc k) zero_fdesc (d\<lparr>dbuf := fdesc_wire bo f @ rest\<rparr>) = (Inr f, d\<lparr>dbuf := rest\<rparr>)"
      by (simp add: zero_fdesc_def act_simps f)
  next
    case True
    let ?body = "\<lambda>sf. bindA PVString_PVDecode (\<lambda>name. bindA (FieldDesc_decode k (snd sf)) (\<lambda>g. retA (name, g)))"
    let ?w = "\<lambda>sf. string_wire bo (fst sf) @ fdesc_wire bo (snd sf)"
    have ok: "string_ok (StructType h)" "len_ok (length fs)" "\<And>sf. sf \<in> set fs \<Longrightarrow> string_ok (fst sf) \<and> wf_fdesc (snd sf)"
      using Suc.prems(1) True by (auto simp: f)
    have short: "length (fdesc_wire bo (snd sf)) \<le> k" if "sf \<in> set fs" for sf
    proof -
      have "length (?w sf) \<le> length (concat (map ?w fs))"
        using that by (induction fs) auto
      then show ?thesis
        using Suc.prems(2) True by (simp add: wire tail_def head_bytes_def)
    qed
    have fields: "mapA ?body (replicate (length fs) ([], zero_fdesc)) (d\<lparr>dbuf := concat (map ?w fs) @ rest\<rparr>) =
        (Inr (map (\<lambda>sf. sf) fs), d\<lparr>dbuf := concat (map ?w fs) @ rest, dbuf := rest\<rparr>)"
    proof (rule mapA_wire [where w = ?w and bo = bo])
      fix sf :: "string \<times> fdesc" and z and e :: dstate and r
      assume sf: "sf \<in> set fs" and z: "z \<in> set (replicate (length fs) ([], zero_fdesc))"
        and e: "dorder e = Some bo" "dbuf e = ?w sf @ r"
      have "FieldDesc_decode k zero_fdesc (e\<lparr>dbuf := fdesc_wire bo (snd sf) @ r\<rparr>) = (Inr (snd sf), e\<lparr>dbuf := r\<rparr>)"
        using Suc.IH [of "snd sf" "e\<lparr>dbuf := fdesc_wire bo (snd sf) @ r\<rparr>" r] ok(3) [OF sf] short [OF sf] e by simp
      then have "?body z (e\<lparr>dbuf := ?w sf @ r\<rparr>) = (Inr sf, e\<lparr>dbuf := r\<rparr>)"
        using ok(3) [OF sf] z e(1) by (simp add: act_simps string_codec.dec_upd)
      then show "?body z e = (Inr sf, e\<lparr>dbuf := r\<rparr>)"
        by (rule dec_updI [OF e(2)])
    qed (use Suc.prems(3) in simp_all)
    have resize: "slice_resize ([], zero_fdesc) (length fs) [] = replicate (length fs) ([], zero_fdesc)"
      by (simp add: slice_resize_def)
    have "\<not> (TypeCode h = NULL_TYPE_CODE \<or> TypeCode h = VARIANT_UNION \<and> \<not> HasID h)"
      using True by auto
    moreover have "FieldDesc_decode_fields (FieldDesc_decode k) (h\<lparr>StructType := []\<rparr>) [] (d\<lparr>dbuf := tail @ rest\<rparr>) =
        (Inr (FieldDesc h fs), d\<lparr>dbuf := rest\<rparr>)"
      using True ok(1,2) Suc.prems(3)
      by (simp add: FieldDesc_decode_fields_def tail_def resize
          string_codec.bind_dec_upd size_codec.bind_dec_upd 
          bindA_Inr [where m = "mapA ?body (replicate (length fs) ([], zero_fdesc))", OF fields] retA_def)
    ultimately show "FieldDesc_decode (Suc k) zero_fdesc (d\<lparr>dbuf := fdesc_wire bo f @ rest\<rparr>) = (Inr f, d\<lparr>dbuf := rest\<rparr>)"
      using True head by (simp add: zero_fdesc_def f bindA_def)
  qed
qed

lemma FieldDesc_dec:
  assumes "wf_fdesc f" and "dorder d = Some bo" and "dbuf d = fdesc_wire bo f @ rest"
  shows "FieldDesc_PVDecode zero_fdesc d = (Inr f, d\<lparr>dbuf := rest\<rparr>)"
  unfolding FieldDesc_PVDecode_def using assms by (intro FieldDesc_decode_wf [where bo = bo]) simp_all

interpretation fdesc_codec: wire_codec FieldDesc_PVEncode "FieldDesc_PVDecode zero_fdesc" fdesc_wire wf_fdesc "\<lambda>f. f"
  by unfold_locales (simp_all add: FieldDesc_enc FieldDesc_dec del: wf_fdesc.simps)

section \<open>Properties\<close>

text \<open>C9: A type description, nested to any depth, is read back from its encoding. \<open>wf_fdesc\<close>
  leaves out the descriptors on which the two sides disagree.\<close>

theorem FieldDesc_roundtrip:
  assumes "wf_fdesc f"
  shows "\<exists>e. FieldDesc_PVEncode f (encoder bo) = (Inr (), e) \<and>
     FieldDesc_PVDecode zero_fdesc (decoder bo (ebuf e @ rest)) = (Inr f, decoder bo rest)"
  using FieldDesc_enc [of f "encoder bo"] FieldDesc_dec [OF assms, of "decoder bo (fdesc_wire bo f @ rest)" bo rest]
  by simp

definition scalar_desc :: fdesc where
  "scalar_desc = FieldDesc (zero_head\<lparr>TypeCode := STRUCT, StructType := ''epics:nt/NTScalar:1.0''\<rparr>)
     [(''value'', FieldDesc (zero_head\<lparr>TypeCode := LONG\<rparr>) []),
      (''alarm'', FieldDesc (zero_head\<lparr>TypeCode := STRUCT, StructType := ''alarm_t''\<rparr>)
         [(''severity'', FieldDesc (zero_head\<lparr>TypeCode := INT_CODE\<rparr>) [])])]"

theorem FieldDesc_roundtrip_witness:
  "\<exists>e. FieldDesc_PVEncode scalar_desc (encoder BigEndian) = (Inr (), e) \<and>
     FieldDesc_PVDecode zero_fdesc (decoder BigEndian (ebuf e @ [1])) = (Inr scalar_desc, decoder BigEndian [1])"
  by (rule FieldDesc_roundtrip)
    (simp add: scalar_desc_def wf_head_def zero_head_def has_size_def string_ok_def len_ok_def size_norm_def)

text \<open>C10: Decoding a type description ends on every input, however it is nested: the bound on the
  recursion is never reached, and no larger bound would change the outcome.\<close>

theorem FieldDesc_PVDecode_total:
  "fst (FieldDesc_PVDecode f s) \<noteq> Inl OutOfFuel \<and>
   FieldDesc_decode (Suc (length (dbuf s)) + k) f s = FieldDesc_PVDecode f s"
proof
  show "fst (FieldDesc_PVDecode f s) \<noteq> Inl OutOfFuel"
    using FieldDesc_decode_fuel_enough [of s "Suc (length (dbuf s))" f "snd (FieldDesc_PVDecode f s)"]
    by (metis FieldDesc_PVDecode_def lessI prod.collapse)
  show "FieldDesc_decode (Suc (length (dbuf s)) + k) f s = FieldDesc_PVDecode f s"
    unfolding FieldDesc_PVDecode_def by (rule FieldDesc_decode_fuel_irrelevant) simp_all
qed

text \<open>The description of a bounded string is written with an empty structure behind it, because
  its code \<open>0x86\<close> has the bit of \<open>STRUCT\<close>; the decoder stops after the bound and leaves the two
  bytes of the structure to whatever is read next.\<close>

theorem bounded_string_desc_desync:
  "\<exists>e. FieldDesc_PVEncode (FieldDesc (zero_head\<lparr>TypeCode := BOUNDED_STRING, fd_Size := n\<rparr>) []) (encoder bo) = (Inr (), e) \<and>
     ebuf e = 0x86 # size_wire bo n @ [0, 0] \<and>
     FieldDesc_PVDecode zero_fdesc (decoder bo (ebuf e @ rest)) =
       (Inr (FieldDesc (zero_head\<lparr>TypeCode := BOUNDED_STRING, fd_Size := size_norm n\<rparr>) []), decoder bo (0 # 0 # rest))"
proof -
  have "(decoder bo (size_wire bo n @ 0 # 0 # rest)) = (decoder bo [])\<lparr>dbuf := size_wire bo n @ 0 # 0 # rest\<rparr>"
    by simp
  then have "PVSize_PVDecode (decoder bo (size_wire bo n @ 0 # 0 # rest)) = (Inr (size_norm n), decoder bo (0 # 0 # rest))"
    by (subst PVSize_dec [where bo = bo and v = n and rest = "0 # 0 # rest"]) simp_all
  then show ?thesis
    by (simp add: FieldDesc_enc head_wire_def has_size_def zero_head_def zero_fdesc_def FieldDesc_PVDecode_def Let_def
        FieldDesc_decode_head_def act_simps string_wire_def size_wire_def len_word_def bytes_of_string_def)
qed

end
