(* ===== verification/PV_Reflect.thy ===== *)
theory PV_Reflect
  imports PV_BitSet PV_Status PV_FieldDesc PV_Tags
begin

text \<open>
  The Go values that package pvdata handles by reflection, and what value_conversion.go and
  values.go make of them: which \<open>PVField\<close> a variable is converted to, how a value is described,
  and which fresh variable a description asks for.
\<close>

section \<open>Variables\<close>

text \<open>
  A \<open>gval\<close> is the content of a Go variable together with its type, as far as the code can tell:
  \<^item> \<open>GPrim named p\<close>: a scalar, of one of the package's named types (\<open>PVInt\<close>) or of the Go type
    behind it (\<open>int32\<close>);
  \<^item> \<open>GSize\<close>, \<open>GStatus\<close>, \<open>GBitSet\<close>, \<open>GDesc\<close>, \<open>GTime sec nsec tag\<close>, \<open>GBounded s bound\<close>: the package's
    own types with methods;
  \<^item> \<open>GAny data\<close>, \<open>GDiff bits value\<close>: \<open>PVAny\<close> and \<open>PVStructureDiff\<close> with the interface they hold;
  \<^item> \<open>GPVStructure id st\<close>, \<open>GPVArray fixed short a\<close>: the wrappers around a structure and an array;
  \<^item> \<open>GSlice zero elems spare\<close>: a slice, with the zero value of its element type and the elements
    between its length and its capacity; \<open>GArray zero elems\<close>: an array;
  \<^item> \<open>GStruct id fields\<close>: a struct with what its \<open>TypeID\<close> method returns (empty without one), each
    field with its Go name and its pvaccess tag;
  \<^item> \<open>GPtr t\<close> and \<open>GNil t\<close>: a pointer to a variable, a nil pointer to a variable of the type of \<open>t\<close>;
  \<^item> \<open>GIface v\<close>: a variable of interface type with the value in it, if any;
  \<^item> \<open>GHidden\<close>: an unexported field; \<open>GOther\<close>: any other kind, and the zero \<open>reflect.Value\<close>.

  The value in an interface is a pointer or the copy of a variable's content.
\<close>

datatype gval =
    GPrim bool prim
  | GSize "64 word"
  | GStatus pvstatus
  | GBitSet "bool list"
  | GDesc fdesc
  | GTime "64 word" "32 word" "32 word"
  | GBounded string "64 word"
  | GAny "gval option"
  | GDiff "bool list" "gval option"
  | GPVStructure string gval
  | GPVArray bool bool gval
  | GSlice gval "gval list" "gval list"
  | GArray gval "gval list"
  | GStruct string "(string \<times> string \<times> gval) list"
  | GPtr gval
  | GNil gval
  | GIface "gval option"
  | GHidden
  | GOther

text \<open>
  The \<open>PVField\<close> that \<open>valueToPVField\<close> returns, apart from the variable it works on: that
  variable's own methods, a bounded string around it, a \<open>PVArray\<close> or \<open>PVStructure\<close> over it
  (\<open>HStruct True\<close> for the type \<open>PVStructure\<close>, \<open>HStruct False\<close> for a pointer to one), or the
  methods of a nil pointer.
\<close>

datatype how =
    HDirect
  | HBounded int
  | HArray bool bool
  | HStruct bool string
  | HNil

text \<open>The types whose pointers have the methods \<open>PVEncode\<close> and \<open>PVDecode\<close>.\<close>

fun is_pvtype :: "gval \<Rightarrow> bool" where
  "is_pvtype (GPrim named _) = named"
| "is_pvtype (GSize _) = True"
| "is_pvtype (GStatus _) = True"
| "is_pvtype (GBitSet _) = True"
| "is_pvtype (GDesc _) = True"
| "is_pvtype (GTime _ _ _) = True"
| "is_pvtype (GBounded _ _) = True"
| "is_pvtype (GAny _) = True"
| "is_pvtype (GDiff _ _) = True"
| "is_pvtype (GPVStructure _ _) = True"
| "is_pvtype (GPVArray _ _ _) = True"
| "is_pvtype _ = False"

section \<open>Conversion to a PVField\<close>

text \<open>What a pointer to a variable is converted to, once the options have been tried.\<close>

fun target_field :: "gval \<Rightarrow> (how \<times> gval) option" where
  "target_field (GPVStructure i st) = Some (HStruct False i, st)"
| "target_field (GPVArray fixed short a) = Some (HArray fixed short, a)"
| "target_field (GSlice z es sp) = Some (HArray False False, GSlice z es sp)"
| "target_field (GArray z es) = Some (HArray True False, GArray z es)"
| "target_field (GStruct i fs) = Some (HStruct True i, GStruct i fs)"
| "target_field (GPtr t) = None"
| "target_field (GNil t) = None"
| "target_field (GIface v) = None"
| "target_field GHidden = None"
| "target_field GOther = None"
| "target_field g = Some (HDirect, g)"

text \<open>
  \<open>valueToPVField(v)\<close> for \<open>v\<close> a pointer to the variable. A variable that is itself a pointer is
  followed once more. A variable of interface type counts only when its value implements
  \<open>PVField\<close>: anything else in it is overwritten by the address of the interface, which does not.
\<close>

fun field_of :: "gval \<Rightarrow> (how \<times> gval) option" where
  "field_of (GPVStructure i st) = Some (HStruct True i, st)"
| "field_of (GPtr t) = target_field t"
| "field_of (GNil t) = (case t of
      GPrim _ _ \<Rightarrow> Some (HNil, t)
    | _ \<Rightarrow> if is_pvtype t then Some (HNil, t) else None)"
| "field_of (GIface None) = None"
| "field_of (GIface (Some v)) = (case v of
      GPtr t \<Rightarrow> if is_pvtype t then target_field t else None
    | GNil t \<Rightarrow> if is_pvtype t then Some (HNil, t) else None
    | GPVStructure i st \<Rightarrow> Some (HStruct True i, st)
    | GPVArray fixed short a \<Rightarrow> Some (HArray fixed short, a)
    | GBounded s b \<Rightarrow> Some (HDirect, GBounded s b)
    | _ \<Rightarrow> None)"
| "field_of g = target_field g"

text \<open>
  \<open>valueToPVField(reflect.ValueOf(x))\<close> for the value \<open>x\<close> of an interface, the conversion in
  \<open>Encode\<close>, \<open>Decode\<close> and \<open>NewPVAny\<close>. A nil interface and a nil pointer lead to the zero
  \<open>reflect.Value\<close>, on which \<open>CanInterface\<close> panics. A struct or array by value, one of the package's
  own included, is not addressable; the panic that coding its first component raises is raised here.
\<close>

fun iface_field :: "gval option \<Rightarrow> gerr + (how \<times> gval) option" where
  "iface_field None = Inl (Panic ZeroReflectValue)"
| "iface_field (Some v) = (case v of
      GPtr t \<Rightarrow> Inr (field_of t)
    | GNil t \<Rightarrow> Inl (Panic ZeroReflectValue)
    | GPVStructure i st \<Rightarrow> Inr (Some (HStruct True i, st))
    | GPVArray fixed short a \<Rightarrow> Inr (Some (HArray fixed short, a))
    | GBounded s b \<Rightarrow> Inr (Some (HDirect, GBounded s b))
    | GSlice z es sp \<Rightarrow> Inr (Some (HArray False False, GSlice z es sp))
    | GArray z es \<Rightarrow> if es = [] then Inr (Some (HArray True False, GArray z es)) else Inl (Panic Unaddressable)
    | GStruct i fs \<Rightarrow> if fs = [] then Inr (Some (HStruct True i, GStruct i fs)) else Inl (Panic Unaddressable)
    | GStatus st \<Rightarrow> Inl (Panic Unaddressable)
    | GBitSet bits \<Rightarrow> Inl (Panic Unaddressable)
    | GDesc f \<Rightarrow> Inl (Panic Unaddressable)
    | GTime sec nsec tag \<Rightarrow> Inl (Panic Unaddressable)
    | GAny d \<Rightarrow> Inl (Panic Unaddressable)
    | GDiff bits d \<Rightarrow> Inl (Panic Unaddressable)
    | _ \<Rightarrow> Inr None)"

text \<open>Writing back what a decoder stored into the variable that \<open>field_of\<close> found.\<close>

fun plug_target :: "gval \<Rightarrow> gval \<Rightarrow> gval" where
  "plug_target (GPVStructure i st) t' = GPVStructure i t'"
| "plug_target (GPVArray fixed short a) t' = GPVArray fixed short t'"
| "plug_target g t' = t'"

fun plug :: "gval \<Rightarrow> gval \<Rightarrow> gval" where
  "plug (GPtr t) t' = GPtr (plug_target t t')"
| "plug (GNil t) t' = GNil t"
| "plug (GIface (Some v)) t' = GIface (Some (case v of GPtr t \<Rightarrow> GPtr (plug_target t t') | _ \<Rightarrow> plug_target v t'))"
| "plug g t' = plug_target g t'"

fun plug_iface :: "gval \<Rightarrow> gval \<Rightarrow> gval" where
  "plug_iface (GPtr t) t' = GPtr (plug t t')"
| "plug_iface v t' = plug_target v t'"

section \<open>Options\<close>

text \<open>
  \<open>alwaysOption\<close> stores into every integer variable: \<open>SetInt\<close> and \<open>SetUint\<close> keep the low bits.
\<close>

fun set_int :: "int \<Rightarrow> gval \<Rightarrow> gval" where
  "set_int n (GPrim named p) = GPrim named (case p of
      PVByte _ \<Rightarrow> PVByte (word_of_int n) | PVUByte _ \<Rightarrow> PVUByte (word_of_int n)
    | PVShort _ \<Rightarrow> PVShort (word_of_int n) | PVUShort _ \<Rightarrow> PVUShort (word_of_int n)
    | PVInt _ \<Rightarrow> PVInt (word_of_int n) | PVUInt _ \<Rightarrow> PVUInt (word_of_int n)
    | PVLong _ \<Rightarrow> PVLong (word_of_int n) | PVULong _ \<Rightarrow> PVULong (word_of_int n)
    | _ \<Rightarrow> p)"
| "set_int n (GSize v) = GSize (word_of_int n)"
| "set_int n g = g"

text \<open>
  The options are tried in order, and the first that returns a field decides. The model has the
  \<open>name\<close> option on the structs of the program, not on the structs of package pvdata itself.
\<close>

fun valueToPVField :: "opt list \<Rightarrow> gval \<Rightarrow> gval \<times> (how \<times> gval) option" where
  "valueToPVField [] g = (g, field_of g)"
| "valueToPVField (NameOption n # os) g = (case g of
      GStruct i fs \<Rightarrow> (g, Some (HStruct True n, g))
    | _ \<Rightarrow> valueToPVField os g)"
| "valueToPVField (AlwaysOption n # os) g = valueToPVField os (set_int n g)"
| "valueToPVField (BoundOption b # os) g = (case g of
      GPrim False (PVString s) \<Rightarrow> (g, Some (HBounded b, g))
    | _ \<Rightarrow> valueToPVField os g)"
| "valueToPVField (ShortOption # os) g = (case g of
      GSlice z es sp \<Rightarrow> (g, Some (HArray False True, g))
    | _ \<Rightarrow> valueToPVField os g)"

text \<open>
  The error for a variable that converts to nothing prints it with \<open>item.Interface()\<close>, which
  panics on an unexported field.
\<close>

definition no_field_err :: "gval \<Rightarrow> gerr" where
  "no_field_err g = (if g = GHidden then Panic UnexportedField else DontKnowHow)"

text \<open>
  \<open>tags["omitifnil"] != "" \&\& vf.Kind() == reflect.Ptr \&\& (!vf.IsValid() || vf.IsNil())\<close>
\<close>

definition omitted :: "tags \<Rightarrow> gval \<Rightarrow> bool" where
  "omitted tags g \<longleftrightarrow> tag_value tags ''omitifnil'' \<noteq> [] \<and> (case g of GNil _ \<Rightarrow> True | _ \<Rightarrow> False)"

text \<open>\<open>breakonerror\<close> asserts that the field is a \<open>*PVStatus\<close>.\<close>

fun break_on_error :: "gval \<Rightarrow> gerr + bool" where
  "break_on_error (GStatus st) = Inr (status_failed st)"
| "break_on_error _ = Inl (Panic TypeAssertion)"

section \<open>Sizes, for the recursions over variables\<close>

lemma size_elems [termination_simp]: "(g :: gval) \<in> set gs \<Longrightarrow> size g < Suc (size_list size gs)"
  by (induction gs) auto

lemma size_fields [termination_simp]:
  "f \<in> set fs \<Longrightarrow> size (snd (snd f)) < size (GStruct i fs)"
  by (induction fs) auto

lemma target_field_size: "target_field g = Some (h, t) \<Longrightarrow> size t \<le> size g"
  by (cases g) auto

lemma field_of_size: "field_of g = Some (h, t) \<Longrightarrow> size t \<le> size g"
proof (cases "\<exists>v. g = GIface (Some v)")
  case True
  moreover assume "field_of g = Some (h, t)"
  ultimately show ?thesis
    by (auto split: gval.splits if_splits) (drule target_field_size, simp)
next
  case False
  moreover assume "field_of g = Some (h, t)"
  ultimately show ?thesis
  proof (cases g)
    case (GIface v)
    with False \<open>field_of g = Some (h, t)\<close> show ?thesis by (cases v) auto
  qed (auto split: gval.splits if_splits dest: target_field_size)
qed

lemma size_set_int [simp]: "size (set_int n g) = size g"
  by (cases g) (auto split: prim.splits)

lemma valueToPVField_size: "valueToPVField os g = (g', Some (h, t)) \<Longrightarrow> size t \<le> size g"
  by (induction os g rule: valueToPVField.induct)
    (auto split: gval.splits prim.splits bool.splits dest: field_of_size)

lemma iface_field_size: "iface_field (Some v) = Inr (Some (h, t)) \<Longrightarrow> size t \<le> size v"
  by (cases v) (auto split: if_splits dest: field_of_size)

lemma iface_field_size': "iface_field v = Inr (Some (h, t)) \<Longrightarrow> size t \<le> size_option size v"
  by (cases v) (auto simp del: iface_field.simps(2) dest!: iface_field_size)

lemma valueToPVField_size': "snd (valueToPVField os g) = Some (h, t) \<Longrightarrow> size t \<le> size g"
  by (metis prod.collapse valueToPVField_size)

text \<open>
  The number of variant unions in a variable. What \<open>createZero\<close> makes has none, so decoding into
  a variant union ends although the data in it is new.
\<close>

primrec anys :: "gval \<Rightarrow> nat" where
  "anys (GPrim b p) = 0"
| "anys (GSize w) = 0"
| "anys (GStatus st) = 0"
| "anys (GBitSet bits) = 0"
| "anys (GDesc f) = 0"
| "anys (GTime a b c) = 0"
| "anys (GBounded s b) = 0"
| "anys (GAny v) = Suc (case map_option anys v of None \<Rightarrow> 0 | Some n \<Rightarrow> n)"
| "anys (GDiff b v) = (case map_option anys v of None \<Rightarrow> 0 | Some n \<Rightarrow> n)"
| "anys (GPVStructure i st) = anys st"
| "anys (GPVArray fixed short a) = anys a"
| "anys (GSlice z es sp) = anys z + sum_list (map anys es) + sum_list (map anys sp)"
| "anys (GArray z es) = anys z + sum_list (map anys es)"
| "anys (GStruct i fs) = sum_list (map (\<lambda>f. snd (snd f)) (map (map_prod id (map_prod id anys)) fs))"
| "anys (GPtr t) = anys t"
| "anys (GNil t) = anys t"
| "anys (GIface v) = (case map_option anys v of None \<Rightarrow> 0 | Some n \<Rightarrow> n)"
| "anys GHidden = 0"
| "anys GOther = 0"

definition anys_opt :: "gval option \<Rightarrow> nat" where
  "anys_opt v = (case v of None \<Rightarrow> 0 | Some g \<Rightarrow> anys g)"

lemma anys_fields [simp]: "anys (GStruct i fs) = sum_list (map (\<lambda>f. anys (snd (snd f))) fs)"
  by (simp add: o_def)

lemma anys_option [simp]:
  "anys (GAny v) = Suc (anys_opt v)" "anys (GDiff b v) = anys_opt v" "anys (GIface v) = anys_opt v"
  "anys_opt None = 0" "anys_opt (Some g) = anys g"
  by (cases v; simp add: anys_opt_def)+

declare anys.simps(8,9,14,17) [simp del]

lemma anys_elem: "g \<in> set es \<Longrightarrow> anys g \<le> sum_list (map anys es)"
  by (simp add: member_le_sum_list)

lemma anys_field: "f \<in> set fs \<Longrightarrow> anys (snd (snd f)) \<le> anys (GStruct i fs)"
  by (simp add: member_le_sum_list)

lemma anys_target: "target_field g = Some (h, t) \<Longrightarrow> anys t \<le> anys g"
  by (cases g) auto

lemma anys_field_of: "field_of g = Some (h, t) \<Longrightarrow> anys t \<le> anys g"
proof (cases "\<exists>v. g = GIface (Some v)")
  case True
  moreover assume "field_of g = Some (h, t)"
  ultimately show ?thesis
    by (auto split: gval.splits if_splits dest: anys_target)
next
  case False
  moreover assume "field_of g = Some (h, t)"
  ultimately show ?thesis
  proof (cases g)
    case (GIface v)
    with False \<open>field_of g = Some (h, t)\<close> show ?thesis by (cases v) auto
  qed (auto split: gval.splits if_splits dest: anys_target)
qed

lemma anys_set_int [simp]: "anys (set_int n g) = anys g"
  by (cases g) auto

lemma anys_valueToPVField: "snd (valueToPVField os g) = Some (h, t) \<Longrightarrow> anys t \<le> anys g"
  by (induction os g rule: valueToPVField.induct)
    (auto split: gval.splits prim.splits bool.splits dest: anys_field_of)

lemma anys_iface: "iface_field v = Inr (Some (h, t)) \<Longrightarrow> anys t \<le> anys_opt v"
proof (cases v)
  case (Some g)
  moreover assume "iface_field v = Inr (Some (h, t))"
  ultimately show ?thesis by (cases g) (auto split: if_splits dest: anys_field_of)
qed simp

lemma field_of_smaller: "field_of g = Some (h, t) \<Longrightarrow> size t \<le> size g \<and> anys t \<le> anys g"
  by (simp add: field_of_size anys_field_of)

lemma valueToPVField_smaller:
  "snd (valueToPVField os g) = Some (h, t) \<Longrightarrow> size t \<le> size g \<and> anys t \<le> anys g"
  by (simp add: valueToPVField_size' anys_valueToPVField)

lemma iface_field_smaller: "iface_field v = Inr (Some (h, t)) \<Longrightarrow> size t \<le> size_option size v \<and> anys t \<le> anys_opt v"
  by (simp add: iface_field_size' anys_iface)

section \<open>Induction along the recursion of the coders\<close>

text \<open>
  The variables a coder may recurse into: the elements of an array (a resized slice has zero
  elements and spare ones), the fields of a struct, the value in an interface.
\<close>

fun elems_of :: "gval \<Rightarrow> gval set" where
  "elems_of (GSlice z es sp) = insert z (set es \<union> set sp)"
| "elems_of (GArray z es) = insert z (set es)"
| "elems_of _ = {}"

fun fields_of :: "gval \<Rightarrow> (string \<times> string \<times> gval) set" where
  "fields_of (GStruct i fs) = set fs"
| "fields_of _ = {}"

lemma elems_of_smaller: "e \<in> elems_of g \<Longrightarrow> size e < size g \<and> anys e \<le> anys g"
  by (cases g) (auto dest: size_elems anys_elem)

lemma fields_of_smaller: "f \<in> fields_of g \<Longrightarrow> size (snd (snd f)) < size g \<and> anys (snd (snd f)) \<le> anys g"
proof (cases g)
  case (GStruct i fs)
  moreover assume "f \<in> fields_of g"
  ultimately have "f \<in> set fs" by simp
  then show ?thesis using GStruct size_fields [of f fs i] anys_field [of f fs i] by simp
qed auto

lemma coder_induct [case_names pv elem field val]:
  fixes P :: "how \<Rightarrow> gval \<Rightarrow> bool" and E :: "gval \<Rightarrow> bool"
    and F :: "string \<times> string \<times> gval \<Rightarrow> bool" and V :: "gval option \<Rightarrow> bool"
  assumes pv: "\<And>h g. (\<And>e. e \<in> elems_of g \<Longrightarrow> E e) \<Longrightarrow> (\<And>f. f \<in> fields_of g \<Longrightarrow> F f) \<Longrightarrow>
      (\<And>v. g = GAny v \<Longrightarrow> V v) \<Longrightarrow> (\<And>bits v. g = GDiff bits v \<Longrightarrow> V v) \<Longrightarrow>
      (\<And>v w. g = GAny v \<Longrightarrow> anys_opt w = 0 \<Longrightarrow> V w) \<Longrightarrow> P h g"
    and elem: "\<And>g. (\<And>h t. field_of g = Some (h, t) \<Longrightarrow> P h t) \<Longrightarrow> E g"
    and field: "\<And>f. (\<And>os h t. snd (valueToPVField os (snd (snd f))) = Some (h, t) \<Longrightarrow> P h t) \<Longrightarrow> F f"
    and val: "\<And>v. (\<And>h t. iface_field v = Inr (Some (h, t)) \<Longrightarrow> P h t) \<Longrightarrow> V v"
  shows "P h g" and "E g" and "F f" and "V v"
proof -
  let ?R = "less_than <*lex*> less_than"
  let ?Q = "\<lambda>m :: nat \<times> nat.
      (\<forall>h g. (anys g, 2 * size g) = m \<longrightarrow> P h g) \<and> (\<forall>g. (anys g, 2 * size g + 1) = m \<longrightarrow> E g) \<and>
      (\<forall>f. (anys (snd (snd f)), 2 * size (snd (snd f)) + 1) = m \<longrightarrow> F f) \<and>
      (\<forall>v. (anys_opt v, 2 * size_option size v + 1) = m \<longrightarrow> V v)"
  have wf: "wf ?R" by (intro wf_lex_prod wf_less_than)
  have all: "?Q m" for m
    using wf
  proof (induction m rule: wf_induct_rule)
    case (less m)
    have IP: "P h t" if "((anys t, 2 * size t), m) \<in> ?R" for h t using less [OF that] by blast
    have IE: "E t" if "((anys t, 2 * size t + 1), m) \<in> ?R" for t using less [OF that] by blast
    have IF: "F f" if "((anys (snd (snd f)), 2 * size (snd (snd f)) + 1), m) \<in> ?R" for f using less [OF that] by blast
    have IV: "V v" if "((anys_opt v, 2 * size_option size v + 1), m) \<in> ?R" for v using less [OF that] by blast
    have "P h g" if m: "(anys g, 2 * size g) = m" for h g
    proof (rule pv)
      fix e assume "e \<in> elems_of g"
      then show "E e" using m [symmetric] by (intro IE) (auto dest: elems_of_smaller)
    next
      fix f assume "f \<in> fields_of g"
      then show "F f" using m [symmetric] by (intro IF) (auto dest: fields_of_smaller)
    qed (use m [symmetric] in \<open>auto intro!: IV\<close>)
    moreover have "E g" if m: "(anys g, 2 * size g + 1) = m" for g
      using m [symmetric] by (intro elem IP) (auto dest: field_of_size anys_field_of)
    moreover have "F f" if m: "(anys (snd (snd f)), 2 * size (snd (snd f)) + 1) = m" for f
      using m [symmetric] by (intro field IP) (auto dest: valueToPVField_size' anys_valueToPVField)
    moreover have "V v" if m: "(anys_opt v, 2 * size_option size v + 1) = m" for v
      using m [symmetric] by (intro val IP) (auto dest: iface_field_size' anys_iface)
    ultimately show ?case by blast
  qed
  from all show "P h g" "E g" "F f" "V v" by blast+
qed

end
