(* ===== verification/PV_Describe.thy ===== *)
theory PV_Describe
  imports PV_Reflect
begin

text \<open>
  From values to descriptions and back: \<open>valueToField\<close> and the \<open>FieldDesc\<close> methods of
  pvdata/values.go, \<open>createZero\<close>, which makes a fresh variable for a description, with the table
  of normative types of pvdata/nt.go, and the access to the fields of a structure by name.
\<close>

section \<open>Describing a value\<close>

definition code_desc :: "byte \<Rightarrow> fdesc" where
  "code_desc c = FieldDesc (zero_head\<lparr>TypeCode := c\<rparr>) []"

fun prim_code :: "prim \<Rightarrow> byte" where
  "prim_code (PVBoolean _) = BOOLEAN"
| "prim_code (PVByte _) = BYTE"
| "prim_code (PVUByte _) = UBYTE"
| "prim_code (PVShort _) = SHORT"
| "prim_code (PVUShort _) = USHORT"
| "prim_code (PVInt _) = INT_CODE"
| "prim_code (PVUInt _) = UINT"
| "prim_code (PVLong _) = LONG"
| "prim_code (PVULong _) = ULONG"
| "prim_code (PVFloat _) = FLOAT"
| "prim_code (PVDouble _) = DOUBLE"
| "prim_code (PVString _) = STRING"

text \<open>The \<open>FieldDesc\<close> methods of the scalars; a string gives its length as the size.\<close>

definition prim_desc :: "prim \<Rightarrow> fdesc" where
  "prim_desc p = (case p of
      PVString s \<Rightarrow> FieldDesc (zero_head\<lparr>TypeCode := STRING, fd_Size := len_word (length s)\<rparr>) []
    | _ \<Rightarrow> code_desc (prim_code p))"

definition bounded_desc :: "64 word \<Rightarrow> fdesc" where
  "bounded_desc bound = FieldDesc (zero_head\<lparr>TypeCode := BOUNDED_STRING, fd_Size := bound\<rparr>) []"

text \<open>The types with a method \<open>FieldDesc\<close>; on a nil pointer it panics.\<close>

fun is_describer :: "gval \<Rightarrow> bool" where
  "is_describer (GPrim named p) = named"
| "is_describer (GBounded _ _) = True"
| "is_describer (GAny _) = True"
| "is_describer (GPVStructure _ _) = True"
| "is_describer (GPVArray _ _ _) = True"
| "is_describer _ = False"

fun direct_desc :: "gval \<Rightarrow> gerr + fdesc" where
  "direct_desc (GPrim named p) = Inr (prim_desc p)"
| "direct_desc (GBounded s bound) = Inr (bounded_desc bound)"
| "direct_desc (GAny d) = Inr (code_desc VARIANT_UNION)"
| "direct_desc _ = Inl NoDescription"

text \<open>\<open>PVArray.FieldDesc\<close>: the element's description with the array bits set.\<close>

fun array_desc :: "bool \<Rightarrow> nat \<Rightarrow> fdesc \<Rightarrow> fdesc" where
  "array_desc fixed n (FieldDesc h fs) = FieldDesc
     (if fixed then h\<lparr>TypeCode := TypeCode h OR FIXED_ARRAY, fd_Size := len_word n\<rparr>
      else h\<lparr>TypeCode := TypeCode h OR VARIABLE_ARRAY\<rparr>) fs"

definition prototype :: "gval \<Rightarrow> gval list \<Rightarrow> gval" where
  "prototype z es = (if es = [] then z else hd es)"

definition struct_desc :: "string \<Rightarrow> (string \<times> fdesc) list \<Rightarrow> fdesc" where
  "struct_desc i fs = FieldDesc (zero_head\<lparr>TypeCode := STRUCT, StructType := i\<rparr>) fs"

text \<open>The name of a field: the one in its tag, or else its Go name.\<close>

definition field_name :: "string \<times> string \<times> gval \<Rightarrow> string" where
  "field_name f = (let name = fst (parse_tag (fst (snd f))) in if name = [] then fst f else name)"

definition field_omitted :: "string \<times> string \<times> gval \<Rightarrow> bool" where
  "field_omitted f = omitted (snd (parse_tag (fst (snd f)))) (snd (snd f))"

text \<open>\<open>fmt.Errorf("calling Field on \%s: \%v", name, err)\<close>; a panic is not wrapped.\<close>

definition wrap_field :: "string \<Rightarrow> gerr + 'a \<Rightarrow> gerr + 'a" where
  "wrap_field name r = (case r of Inl e \<Rightarrow> Inl (if is_panic e then e else FieldFailed name e) | Inr x \<Rightarrow> Inr x)"

lemma wrap_field_cong [fundef_cong]: "n = n' \<Longrightarrow> r = r' \<Longrightarrow> wrap_field n r = wrap_field n' r'"
  by simp

text \<open>
  \<open>desc_loc g\<close> is \<open>valueToField\<close> on a pointer to a variable, \<open>desc_field g\<close> on the field of a
  struct, where a value in an interface may describe itself although it cannot be encoded.
\<close>

lemma size_hd: "es \<noteq> [] \<Longrightarrow> size (hd es) \<le> size_list size es"
  by (cases es) simp_all

function (sequential) desc_pv :: "how \<Rightarrow> gval \<Rightarrow> gerr + fdesc"
  and desc_loc :: "gval \<Rightarrow> gerr + fdesc"
  and desc_field :: "gval \<Rightarrow> gerr + fdesc" where
  "desc_pv HDirect g = direct_desc g"
| "desc_pv (HBounded b) g = Inr (bounded_desc (word_of_int b))"
| "desc_pv HNil g = (case g of
      GPrim _ _ \<Rightarrow> Inl (Panic NilDereference)
    | _ \<Rightarrow> Inl (if is_describer g then Panic NilDereference else NoDescription))"
| "desc_pv (HArray fixed short) (GSlice z es sp) =
     bindE (desc_loc (prototype z es)) (\<lambda>f. Inr (array_desc fixed (length es) f))"
| "desc_pv (HArray fixed short) (GArray z es) =
     bindE (desc_loc (prototype z es)) (\<lambda>f. Inr (array_desc fixed (length es) f))"
| "desc_pv (HStruct v i) (GStruct j fs) =
     bindE (mapE (\<lambda>f. wrap_field (field_name f) (bindE (desc_field (snd (snd f))) (\<lambda>d. Inr (field_name f, d))))
              (filter (\<lambda>f. \<not> field_omitted f) fs))
       (\<lambda>ds. Inr (struct_desc i ds))"
| "desc_pv h g = Inl (Panic ZeroReflectValue)"
| "desc_loc g = (case field_of g of None \<Rightarrow> Inl NoDescription | Some ht \<Rightarrow> desc_pv (fst ht) (snd ht))"
| "desc_field GHidden = Inl (Panic UnexportedField)"
| "desc_field (GPtr t) = desc_loc t"
| "desc_field (GNil t) = Inl (Panic (if is_describer t then NilDereference else ZeroReflectValue))"
| "desc_field (GIface (Some (GPrim True p))) = Inr (prim_desc p)"
| "desc_field (GIface (Some (GAny d))) = Inr (code_desc VARIANT_UNION)"
| "desc_field g = desc_loc g"
  by pat_completeness auto

termination
proof (relation "measure (case_sum (\<lambda>(h, g). 3 * size g) (case_sum (\<lambda>g. 3 * size g + 1) (\<lambda>g. 3 * size g + 2)))")
qed (auto simp: prototype_def dest!: field_of_size size_fields size_hd split: prod.splits)

section \<open>Creating a variable for a description\<close>

fun prim_of_code :: "byte \<Rightarrow> prim option" where
  "prim_of_code c =
     (if c = BOOLEAN then Some (PVBoolean False)
      else if c = BYTE then Some (PVByte 0)
      else if c = SHORT then Some (PVShort 0)
      else if c = INT_CODE then Some (PVInt 0)
      else if c = LONG then Some (PVLong 0)
      else if c = UBYTE then Some (PVUByte 0)
      else if c = USHORT then Some (PVUShort 0)
      else if c = UINT then Some (PVUInt 0)
      else if c = ULONG then Some (PVULong 0)
      else if c = FLOAT then Some (PVFloat 0)
      else if c = DOUBLE then Some (PVDouble 0)
      else if c = STRING then Some (PVString [])
      else None)"

text \<open>The normative types of pvdata/nt.go, as zero values.\<close>

abbreviation zInt :: gval where "zInt \<equiv> GPrim True (PVInt 0)"
abbreviation zDouble :: gval where "zDouble \<equiv> GPrim True (PVDouble 0)"
abbreviation zString :: gval where "zString \<equiv> GPrim True (PVString [])"

definition nt_enum :: gval where
  "nt_enum = GStruct ''enum_t'' [
     (''Index'', ''index'', zInt),
     (''Choices'', ''choices'', GSlice (GPrim False (PVString [])) [] [])]"

text \<open>\<open>time.Time\<close> has three unexported fields.\<close>

definition nt_time :: gval where
  "nt_time = GStruct ''time_t'' [
     (''Time'', [], GStruct [] [(''wall'', [], GHidden), (''ext'', [], GHidden), (''loc'', [], GHidden)]),
     (''UserTag'', [], zInt)]"

definition nt_alarm :: gval where
  "nt_alarm = GStruct ''alarm_t'' [
     (''Severity'', ''severity'', zInt), (''Status'', ''status'', zInt), (''Message'', ''message'', zString)]"

definition alarm_limit_fields :: "(string \<times> string \<times> gval) list" where
  "alarm_limit_fields = [
     (''Active'', ''active'', GPrim True (PVBoolean False)),
     (''LowAlarmLimit'', ''lowAlarmLimit'', zDouble),
     (''LowWarningLimit'', ''lowWarningLimit'', zDouble),
     (''HighWarningLimit'', ''highWarningLimit'', zDouble),
     (''HighAlarmLimit'', ''highAlarmLimit'', zDouble),
     (''LowAlarmSeverity'', ''lowAlarmSeverity'', zInt),
     (''LowWarningSeverity'', ''lowWarningSeverity'', zInt),
     (''HighWarningSeverity'', ''highWarningSeverity'', zInt),
     (''HighAlarmSeverity'', ''highAlarmSeverity'', zInt),
     (''Hysteresis'', ''hysteresis'', zDouble)]"

definition nt_display :: gval where
  "nt_display = GStruct ''display_t'' [
     (''LimitLow'', ''limitLow'', zDouble), (''LimitHigh'', ''limitHigh'', zDouble),
     (''Description'', ''description'', zString), (''Units'', ''units'', zString),
     (''Precision'', ''precision'', zInt), (''Form'', ''enum'', nt_enum)]"

definition nt_control :: gval where
  "nt_control = GStruct ''control_t'' [
     (''LimitLow'', ''limitLow'', zDouble), (''LimitHigh'', ''limitHigh'', zDouble),
     (''MinStep'', ''minStep'', zDouble)]"

definition ntTypes :: "(string \<times> gval) list" where
  "ntTypes = [
     (''enum_t'', nt_enum), (''time_t'', nt_time), (''alarm_t'', nt_alarm),
     (''alarmLimit_t'', GStruct ''alarmLimit_t'' alarm_limit_fields),
     (''valueAlarm_t'', GStruct ''valueAlarm_t'' alarm_limit_fields),
     (''display_t'', nt_display), (''control_t'', nt_control)]"

text \<open>
  Go field names. \<open>strings.ToUpper(name[0:1])\<close> on a byte above 127 gives the three bytes of
  U+FFFD. \<open>reflect.StructOf\<close> wants a letter or an underscore first, then letters, digits and
  underscores; bytes above 127 behind the first are taken for letters.
\<close>

definition ascii_letter :: "char \<Rightarrow> bool" where
  "ascii_letter c \<longleftrightarrow> (let n = of_char c :: nat in 65 \<le> n \<and> n \<le> 90 \<or> 97 \<le> n \<and> n \<le> 122)"

definition to_upper :: "char \<Rightarrow> string" where
  "to_upper c = (let n = of_char c :: nat in
     if 97 \<le> n \<and> n \<le> 122 then [char_of (n - 32)]
     else if 128 \<le> n then [char_of (0xEF :: nat), char_of (0xBF :: nat), char_of (0xBD :: nat)]
     else [c])"

fun go_field_name :: "string \<Rightarrow> gerr + string" where
  "go_field_name [] = Inl (Panic IndexRange)"
| "go_field_name (c # cs) =
     (let name = to_upper c @ cs in Inr (if hd name = CHR ''_'' then CHR ''X'' # name else name))"

fun valid_field_name :: "string \<Rightarrow> bool" where
  "valid_field_name [] = False"
| "valid_field_name (c # cs) \<longleftrightarrow> (ascii_letter c \<or> c = CHR ''_'') \<and>
     list_all (\<lambda>c. let n = of_char c :: nat in ascii_letter c \<or> 48 \<le> n \<and> n \<le> 57 \<or> c = CHR ''_'' \<or> 128 \<le> n) cs"

text \<open>
  A field of the new struct: \<open>reflect.TypeOf(nil).Kind()\<close> panics where the prototype is nil; a
  pointer stands for the variable it points to.
\<close>

fun zero_field :: "string \<Rightarrow> gval option \<Rightarrow> gerr + (string \<times> string \<times> gval)" where
  "zero_field name p =
     bindE (go_field_name name) (\<lambda>go. case p of
       None \<Rightarrow> Inl (Panic NilDereference)
     | Some (GPtr t) \<Rightarrow> Inr (go, name, t)
     | Some v \<Rightarrow> Inr (go, name, v))"

definition struct_of :: "string \<Rightarrow> (string \<times> string \<times> gval) list \<Rightarrow> gerr + gval option" where
  "struct_of i fs =
     (if list_all valid_field_name (map fst fs) \<and> distinct (map fst fs)
      then Inr (Some (GPVStructure i (GStruct [] fs)))
      else Inl (Panic StructOfField))"

function createZero :: "fdesc \<Rightarrow> gerr + gval option" where
  "createZero (FieldDesc h fs) =
     (if TypeCode h = NULL_TYPE_CODE then Inr None
      else if TypeCode h AND ARRAY_BITS = 0 \<and> prim_of_code (TypeCode h) \<noteq> None then
        Inr (map_option (\<lambda>p. GPtr (GPrim True p)) (prim_of_code (TypeCode h)))
      else if TypeCode h AND ARRAY_BITS = 0 \<and> TypeCode h = BOUNDED_STRING then
        Inr (Some (GPtr (GBounded [] (fd_Size h))))
      else if TypeCode h = STRUCT then
        (case (if StructType h = [] then None else map_of ntTypes (StructType h)) of
           Some z \<Rightarrow> Inr (Some (GPVStructure (StructType h) z))
         | None \<Rightarrow> bindE (mapE (\<lambda>sf. bindE (createZero (snd sf)) (zero_field (fst sf))) fs) (struct_of (StructType h)))
      else Inl (NoZeroValue (TypeCode h)))"
  by pat_completeness auto
termination
  by (relation "measure size") (auto dest: size_fd_Fields)

declare createZero.simps [simp del] prim_of_code.simps [simp del]

section \<open>Fields by name\<close>

fun PVStructure_Field :: "gval \<Rightarrow> string \<Rightarrow> (how \<times> gval) option" where
  "PVStructure_Field (GStruct i fs) name =
     (case find (\<lambda>f. field_name f = name) fs of None \<Rightarrow> None | Some f \<Rightarrow> field_of (snd (snd f)))"
| "PVStructure_Field g name = None"

text \<open>
  \<open>SubField\<close> follows a path of names as long as every field on the way is a \<open>*PVStructure\<close>.
\<close>

fun PVStructure_SubField :: "gval \<Rightarrow> string list \<Rightarrow> gerr + (how \<times> gval) option" where
  "PVStructure_SubField st [] = Inl (Panic IndexRange)"
| "PVStructure_SubField st (n # ns) =
     (case PVStructure_Field st n of
        None \<Rightarrow> Inr None
      | Some f \<Rightarrow>
          if ns \<noteq> [] then
            (case fst f of HStruct False i \<Rightarrow> PVStructure_SubField (snd f) ns | _ \<Rightarrow> Inr None)
          else Inr (Some f))"

text \<open>\<open>NewPVStructure\<close>: the id and the struct.\<close>

fun NewPVStructure :: "gval option \<Rightarrow> gerr + string \<times> gval" where
  "NewPVStructure (Some (GPVStructure i st)) = Inr (i, st)"
| "NewPVStructure (Some (GPtr (GPVStructure i st))) = Inr (i, st)"
| "NewPVStructure (Some (GPtr (GStruct i fs))) = Inr ([], GStruct i fs)"
| "NewPVStructure (Some (GStruct i fs)) = Inr ([], GStruct i fs)"
| "NewPVStructure v = Inl NotAStruct"

text \<open>\<open>IntValue\<close> and \<open>BoolValue\<close> of a field, the pointer it is being followed; \<open>int(v.Uint())\<close> wraps.\<close>

fun int_of_prim :: "prim \<Rightarrow> int option" where
  "int_of_prim (PVByte w) = Some (sint w)"
| "int_of_prim (PVShort w) = Some (sint w)"
| "int_of_prim (PVInt w) = Some (sint w)"
| "int_of_prim (PVLong w) = Some (sint w)"
| "int_of_prim (PVUByte w) = Some (uint w)"
| "int_of_prim (PVUShort w) = Some (uint w)"
| "int_of_prim (PVUInt w) = Some (uint w)"
| "int_of_prim (PVULong w) = Some (sint w)"
| "int_of_prim (PVBoolean b) = Some (if b then 1 else 0)"
| "int_of_prim _ = None"

fun IntValue :: "(how \<times> gval) option \<Rightarrow> int option" where
  "IntValue (Some (HDirect, GPrim named p)) = int_of_prim p"
| "IntValue (Some (HDirect, GSize w)) = Some (sint w)"
| "IntValue _ = None"

definition BoolValue :: "(how \<times> gval) option \<Rightarrow> bool option" where
  "BoolValue f = map_option (\<lambda>i. i \<noteq> 0) (IntValue f)"

end
