(* ===== verification/PV_Encode.thy ===== *)
theory PV_Encode
  imports PV_Describe
begin

text \<open>
  \<open>PVEncode\<close> of every \<open>PVField\<close> and \<open>Encode\<close>, the function the messages are written with:
  arrays, structures with their tags, variant unions and structure differences
  (pvdata/values.go, pvdata/value_conversion.go).
\<close>

section \<open>The recording of changed fields\<close>

text \<open>
  \<open>PVArray.PVEncode\<close> switches the recording off while it runs; the deferred function switches it
  on again, also when the array fails.
\<close>

definition without_ecbs :: "enc \<Rightarrow> enc" where
  "without_ecbs m s =
     (if eucbs s then (case m (s\<lparr>eucbs := False\<rparr>) of (r, t) \<Rightarrow> (r, t\<lparr>eucbs := True\<rparr>)) else m s)"

lemma without_ecbs_cong [fundef_cong]:
  assumes "s = s'" and "\<And>u. m u = m' u"
  shows "without_ecbs m s = without_ecbs m' s'"
  using assms by (simp add: without_ecbs_def)

text \<open>
  \<open>PVStructureDiff.PVEncode\<close>: the value goes to a buffer of its own with a fresh bit set in the
  coder, then the bit set and the buffer are written. The recording stays on afterwards.
\<close>

definition diff_enc :: "enc \<Rightarrow> enc" where
  "diff_enc m s =
     (case m (s\<lparr>ebuf := [], ecbs := [False], eucbs := True\<rparr>) of
        (Inl e, t) \<Rightarrow> (Inl e, t\<lparr>ebuf := ebuf s\<rparr>)
      | (Inr u, t) \<Rightarrow> seqA (PVBitSet_PVEncode (ecbs t)) (write_bytes (ebuf t)) (t\<lparr>ebuf := ebuf s\<rparr>))"

lemma diff_enc_cong [fundef_cong]:
  assumes "s = s'" and "\<And>u. m u = m' u"
  shows "diff_enc m s = diff_enc m' s'"
  using assms by (simp add: diff_enc_def)

text \<open>\<open>s.changedBitSet.Present = append(s.changedBitSet.Present, true)\<close> when recording.\<close>

definition record_changed :: enc where
  "record_changed s = (Inr (), if eucbs s then s\<lparr>ecbs := ecbs s @ [True]\<rparr> else s)"

section \<open>Encoding\<close>

text \<open>\<open>Time.PVEncode\<close>: seconds and nanoseconds of the time, and the tag.\<close>

definition Time_PVEncode :: "64 word \<Rightarrow> 32 word \<Rightarrow> 32 word \<Rightarrow> enc" where
  "Time_PVEncode sec nsec tag = seqA (PVLong_PVEncode sec) (seqA (PVInt_PVEncode nsec) (PVInt_PVEncode tag))"

text \<open>The length of a \<open>PVArray\<close> that is not fixed; a \<open>short\<close> array truncates it.\<close>

definition array_len_enc :: "bool \<Rightarrow> bool \<Rightarrow> nat \<Rightarrow> enc" where
  "array_len_enc fixed short n =
     whenA (\<not> fixed) (if short then PVUShort_PVEncode (of_nat n) else PVSize_PVEncode (len_word n))"

definition field_options :: "string \<Rightarrow> opt list" where
  "field_options tag = tagsToOptions (snd (parse_tag tag))"

text \<open>The package's own types, other than those that hold an interface.\<close>

fun enc_direct :: "gval \<Rightarrow> enc" where
  "enc_direct (GPrim named p) = enc_prim p"
| "enc_direct (GSize w) = PVSize_PVEncode w"
| "enc_direct (GStatus st) = PVStatus_PVEncode st"
| "enc_direct (GBitSet bits) = PVBitSet_PVEncode bits"
| "enc_direct (GDesc f) = FieldDesc_PVEncode f"
| "enc_direct (GTime sec nsec tag) = Time_PVEncode sec nsec tag"
| "enc_direct (GBounded v bound) = PVBoundedString_PVEncode bound v"
| "enc_direct g = failA CantEncode"

text \<open>
  \<open>enc_pv h g\<close> is \<open>PVEncode\<close> of the field \<open>h\<close> over the variable \<open>g\<close>; \<open>enc_elem\<close> is the body of the
  loop of \<open>PVArray\<close>, with the presence byte in front of a structure, \<open>enc_field\<close> the one of
  \<open>PVStructure\<close>, which answers whether \<open>breakonerror\<close> ends the loop, and \<open>enc_value\<close> is
  \<open>Encode(s, v)\<close> for the value of an interface.
\<close>

function enc_pv :: "how \<Rightarrow> gval \<Rightarrow> enc"
  and enc_elem :: "gval \<Rightarrow> enc"
  and enc_field :: "string \<times> string \<times> gval \<Rightarrow> (estate, bool) act"
  and enc_value :: "gval option \<Rightarrow> enc" where
  "enc_pv HDirect g s = (case g of
      GAny None \<Rightarrow> FieldDesc_PVEncode (code_desc NULL_TYPE_CODE) s
    | GAny (Some v) \<Rightarrow>
        bindA (liftA (desc_loc (GIface (Some v)))) (\<lambda>f. seqA (FieldDesc_PVEncode f) (enc_value (Some v))) s
    | GDiff bits v \<Rightarrow> diff_enc (enc_value v) s
    | _ \<Rightarrow> enc_direct g s)"
| "enc_pv (HBounded b) g s = (case g of
      GPrim named (PVString v) \<Rightarrow> PVBoundedString_PVEncode (word_of_int b) v s
    | _ \<Rightarrow> (Inl (Panic TypeAssertion), s))"
| "enc_pv HNil g s = (case g of GAny d \<Rightarrow> (Inr (), s) | _ \<Rightarrow> (Inl (Panic NilDereference), s))"
| "enc_pv (HArray fixed short) g s = (case g of
      GSlice z es sp \<Rightarrow> without_ecbs (seqA (array_len_enc fixed short (length es)) (eachA enc_elem es)) s
    | GArray z es \<Rightarrow> without_ecbs (seqA (array_len_enc fixed short (length es)) (eachA enc_elem es)) s
    | _ \<Rightarrow> (Inl (Panic ZeroReflectValue), s))"
| "enc_pv (HStruct v i) g s = (case g of
      GStruct j fs \<Rightarrow> eachUntilA enc_field fs s
    | _ \<Rightarrow> (Inl (Panic ZeroReflectValue), s))"
| "enc_elem g s =
     (case field_of g of
        None \<Rightarrow> (Inl (no_field_err g), s)
      | Some ht \<Rightarrow>
          seqA (whenA (case fst ht of HStruct True i \<Rightarrow> True | _ \<Rightarrow> False) (PVByte_PVEncode 1))
            (enc_pv (fst ht) (snd ht)) s)"
| "enc_field f s =
     (if field_omitted f then (Inr False, s)
      else case snd (valueToPVField (field_options (fst (snd f))) (snd (snd f))) of
        None \<Rightarrow> (Inl (no_field_err (snd (snd f))), s)
      | Some ht \<Rightarrow>
          seqA record_changed (seqA (enc_pv (fst ht) (snd ht))
            (liftA (if has_tag (snd (parse_tag (fst (snd f)))) ''breakonerror''
                    then (if fst ht = HDirect then break_on_error (snd ht) else Inl (Panic TypeAssertion))
                    else Inr False))) s)"
| "enc_value v s =
     (case iface_field v of
        Inl e \<Rightarrow> (Inl e, s)
      | Inr None \<Rightarrow> (Inl CantEncode, s)
      | Inr (Some ht) \<Rightarrow> enc_pv (fst ht) (snd ht) s)"
  by pat_completeness auto

termination
proof (relation "measure (case_sum (case_sum (\<lambda>(h, g, s). 2 * size g) (\<lambda>(g, s). 2 * size g + 1))
    (case_sum (\<lambda>(f, s). 2 * size (snd (snd f)) + 1) (\<lambda>(v, s). 2 * size_option size v + 1)))")
qed (auto dest!: field_of_size size_fields size_elems valueToPVField_size' iface_field_size')

declare enc_pv.simps [simp del] enc_elem.simps [simp del] enc_field.simps [simp del] enc_value.simps [simp del]

text \<open>The four recursive \<open>PVEncode\<close> methods under their own names, with the equations they obey.\<close>

definition PVArray_PVEncode :: "bool \<Rightarrow> bool \<Rightarrow> gval \<Rightarrow> enc" where
  "PVArray_PVEncode fixed short a = enc_pv (HArray fixed short) a"

definition PVStructure_PVEncode :: "gval \<Rightarrow> enc" where
  "PVStructure_PVEncode st = enc_pv (HStruct True []) st"

definition PVStructureDiff_PVEncode :: "bool list \<Rightarrow> gval option \<Rightarrow> enc" where
  "PVStructureDiff_PVEncode bits v = enc_pv HDirect (GDiff bits v)"

definition PVAny_PVEncode :: "gval option \<Rightarrow> enc" where
  "PVAny_PVEncode d = enc_pv HDirect (GAny d)"

lemma PVArray_PVEncode_eq:
  "PVArray_PVEncode fixed short (GSlice z es sp) =
     without_ecbs (seqA (array_len_enc fixed short (length es)) (eachA enc_elem es))"
  "PVArray_PVEncode fixed short (GArray z es) =
     without_ecbs (seqA (array_len_enc fixed short (length es)) (eachA enc_elem es))"
  by (rule ext, simp add: PVArray_PVEncode_def enc_pv.simps)+

lemma PVStructure_PVEncode_eq: "PVStructure_PVEncode (GStruct j fs) = eachUntilA enc_field fs"
  by (rule ext) (simp add: PVStructure_PVEncode_def enc_pv.simps)

lemma enc_pv_struct: "enc_pv (HStruct v i) st = PVStructure_PVEncode st"
  by (rule ext) (simp add: PVStructure_PVEncode_def enc_pv.simps)

lemma PVStructureDiff_PVEncode_eq: "PVStructureDiff_PVEncode bits v = diff_enc (enc_value v)"
  by (rule ext) (simp add: PVStructureDiff_PVEncode_def enc_pv.simps)

lemma PVAny_PVEncode_eq:
  "PVAny_PVEncode None = FieldDesc_PVEncode (code_desc NULL_TYPE_CODE)"
  "PVAny_PVEncode (Some v) =
     bindA (liftA (desc_loc (GIface (Some v)))) (\<lambda>f. seqA (FieldDesc_PVEncode f) (enc_value (Some v)))"
  by (rule ext, simp add: PVAny_PVEncode_def enc_pv.simps)+

section \<open>Bytes do not depend on what was recorded before\<close>

text \<open>
  \<open>uniform m\<close>: started in two coders with the same byte order, \<open>m\<close> has the same outcome and
  appends the same bytes to what each of them has written.
\<close>

definition uniform :: "(estate, 'a) act \<Rightarrow> bool" where
  "uniform m \<longleftrightarrow> (\<forall>s s'. eorder s = eorder s' \<longrightarrow> (\<exists>r bs t t'. m s = (r, t) \<and> m s' = (r, t') \<and>
     ebuf t = ebuf s @ bs \<and> ebuf t' = ebuf s' @ bs \<and> eorder t = eorder s \<and> eorder t' = eorder s))"

named_theorems uniform_rules

lemma uniformI:
  assumes "\<And>s s'. eorder s = eorder s' \<Longrightarrow> \<exists>r bs t t'. m s = (r, t) \<and> m s' = (r, t') \<and>
     ebuf t = ebuf s @ bs \<and> ebuf t' = ebuf s' @ bs \<and> eorder t = eorder s \<and> eorder t' = eorder s"
  shows "uniform m"
  using assms by (auto simp: uniform_def)

lemma uniformE:
  assumes "uniform m" and "eorder s = eorder s'"
  obtains r bs t t' where "m s = (r, t)" "m s' = (r, t')" "ebuf t = ebuf s @ bs" "ebuf t' = ebuf s' @ bs"
    "eorder t = eorder s" "eorder t' = eorder s"
  using assms unfolding uniform_def by blast

lemma uniform_const [uniform_rules]: "uniform (\<lambda>s. (r, s))" "uniform (retA x)" "uniform (failA e)" "uniform (liftA r)"
  by (auto simp: uniform_def act_simps)

lemma uniform_emit: "(\<And>s. m s = (r, emit (w (eorder s)) s)) \<Longrightarrow> uniform m"
  by (auto simp: uniform_def)

lemma uniform_bind [uniform_rules]:
  assumes "uniform m" and "\<And>x. uniform (f x)"
  shows "uniform (bindA m f)"
proof (rule uniformI)
  fix s s' :: estate assume "eorder s = eorder s'"
  then obtain r bs t t' where m: "m s = (r, t)" "m s' = (r, t')" "ebuf t = ebuf s @ bs" "ebuf t' = ebuf s' @ bs"
    "eorder t = eorder s" "eorder t' = eorder s" by (rule uniformE [OF assms(1)])
  show "\<exists>q cs u u'. bindA m f s = (q, u) \<and> bindA m f s' = (q, u') \<and> ebuf u = ebuf s @ cs \<and>
      ebuf u' = ebuf s' @ cs \<and> eorder u = eorder s \<and> eorder u' = eorder s"
  proof (cases r)
    case (Inl e)
    with m show ?thesis by (simp add: bindA_def)
  next
    case (Inr x)
    from m(5,6) have "eorder t = eorder t'" by simp
    then obtain q cs u u' where "f x t = (q, u)" "f x t' = (q, u')" "ebuf u = ebuf t @ cs" "ebuf u' = ebuf t' @ cs"
      "eorder u = eorder t" "eorder u' = eorder t" by (rule uniformE [OF assms(2)])
    with Inr m show ?thesis by (simp add: bindA_def)
  qed
qed

lemma uniform_seq [uniform_rules]: "uniform m \<Longrightarrow> uniform n \<Longrightarrow> uniform (seqA m n)"
  using uniform_bind [of m "\<lambda>_. n"] by (simp add: seqA_def [abs_def])

lemma uniform_when [uniform_rules]: "uniform m \<Longrightarrow> uniform (whenA b m)"
  by (cases b) (simp_all add: whenA_def uniform_def)

lemma uniform_each [uniform_rules]: "(\<And>x. x \<in> set xs \<Longrightarrow> uniform (f x)) \<Longrightarrow> uniform (eachA f xs)"
proof (induction xs)
  case (Cons x xs)
  have "eachA f (x # xs) = seqA (f x) (eachA f xs)" by (rule ext) simp
  with Cons show ?case by (simp add: uniform_seq)
qed (simp add: uniform_def)

lemma uniform_each_until [uniform_rules]:
  "(\<And>x. x \<in> set xs \<Longrightarrow> uniform (f x)) \<Longrightarrow> uniform (eachUntilA f xs)"
proof (induction xs)
  case (Cons x xs)
  have "eachUntilA f (x # xs) = bindA (f x) (\<lambda>stop. if stop then retA () else eachUntilA f xs)"
    by (rule ext) (simp add: bindA_def ifA_def split: prod.splits sum.splits)
  with Cons show ?case by (auto intro!: uniform_rules)
qed (simp add: uniform_def)

lemma uniform_without_ecbs [uniform_rules]:
  assumes "uniform m"
  shows "uniform (without_ecbs m)"
proof (rule uniformI)
  let ?pre = "\<lambda>s :: estate. if eucbs s then s\<lparr>eucbs := False\<rparr> else s"
  have run: "without_ecbs m s = (fst (m (?pre s)), if eucbs s then (snd (m (?pre s)))\<lparr>eucbs := True\<rparr> else snd (m (?pre s)))" for s
    by (simp add: without_ecbs_def split: prod.splits)
  fix s s' :: estate assume "eorder s = eorder s'"
  then have "eorder (?pre s) = eorder (?pre s')" by simp
  then obtain r bs t t' where "m (?pre s) = (r, t)" "m (?pre s') = (r, t')" "ebuf t = ebuf (?pre s) @ bs"
    "ebuf t' = ebuf (?pre s') @ bs" "eorder t = eorder (?pre s)" "eorder t' = eorder (?pre s)"
    by (rule uniformE [OF assms])
  then show "\<exists>r bs t t'. without_ecbs m s = (r, t) \<and> without_ecbs m s' = (r, t') \<and> ebuf t = ebuf s @ bs \<and>
      ebuf t' = ebuf s' @ bs \<and> eorder t = eorder s \<and> eorder t' = eorder s"
    unfolding run by (cases "eucbs s"; cases "eucbs s'") simp_all
qed

lemma uniform_diff_enc [uniform_rules]:
  assumes "uniform m"
  shows "uniform (diff_enc m)"
proof (rule uniformI)
  fix s s' :: estate assume e: "eorder s = eorder s'"
  let ?f = "\<lambda>s. s\<lparr>ebuf := [], ecbs := [False], eucbs := True\<rparr>"
  obtain r t where m: "m (?f s) = (r, t)" by (cases "m (?f s)")
  have f: "?f s' = ?f s" using e by (cases s, cases s') simp
  have t: "eorder t = eorder s"
    using uniformE [OF assms refl, of "?f s"] m by (metis (no_types, lifting) estate.select_convs(2) estate.surjective estate.update_convs(1,3,4) prod.inject)
  show "\<exists>r bs t t'. diff_enc m s = (r, t) \<and> diff_enc m s' = (r, t') \<and> ebuf t = ebuf s @ bs \<and>
      ebuf t' = ebuf s' @ bs \<and> eorder t = eorder s \<and> eorder t' = eorder s"
    using m t e unfolding diff_enc_def f
    by (cases r) (simp_all add: seqA_def bindA_def PVBitSet_enc write_bytes_def)
qed

lemma uniform_record_changed [uniform_rules]: "uniform record_changed"
  by (auto simp: uniform_def record_changed_def)

lemma uniform_leaves [uniform_rules]:
  "uniform (enc_prim p)" "uniform (PVSize_PVEncode w)" "uniform (PVString_PVEncode v)" "uniform (PVStatus_PVEncode st)"
  "uniform (PVBitSet_PVEncode bits)" "uniform (FieldDesc_PVEncode fd)"
proof -
  show "uniform (enc_prim p)" by (rule uniform_emit, rule prim_enc)
  show "uniform (PVSize_PVEncode w)" by (rule uniform_emit, rule PVSize_enc)
  show "uniform (PVString_PVEncode v)" by (rule uniform_emit, rule PVString_enc)
  show "uniform (PVStatus_PVEncode st)" by (rule uniform_emit, rule PVStatus_enc)
  show "uniform (PVBitSet_PVEncode bits)" by (rule uniform_emit, rule PVBitSet_enc)
  show "uniform (FieldDesc_PVEncode fd)" by (rule uniform_emit, rule FieldDesc_enc)
qed

lemma uniform_numbers [uniform_rules]:
  "uniform (PVByte_PVEncode b)" "uniform (PVUShort_PVEncode h)" "uniform (PVInt_PVEncode i)" "uniform (PVLong_PVEncode l)"
  using uniform_leaves(1) [of "PVByte b"] uniform_leaves(1) [of "PVUShort h"]
    uniform_leaves(1) [of "PVInt i"] uniform_leaves(1) [of "PVLong l"] by simp_all

lemma uniform_bounded [uniform_rules]: "uniform (PVBoundedString_PVEncode b v)"
  unfolding PVBoundedString_PVEncode_def by (auto intro!: uniform_rules)

lemma uniform_array_len [uniform_rules]: "uniform (array_len_enc fixed short n)"
  unfolding array_len_enc_def by (auto intro!: uniform_rules)

lemma uniform_direct [uniform_rules]: "uniform (enc_direct g)"
  by (cases g) (auto simp: Time_PVEncode_def intro!: uniform_rules)

lemma uniform_enc:
  "uniform (enc_pv h g)" "uniform (enc_elem g)" "uniform (enc_field f)" "uniform (enc_value v)"
proof (induction h g and g and f and v rule: coder_induct)
  case (pv h g)
  show ?case
  proof (cases h)
    case HDirect
    show ?thesis
    proof (cases g)
      case (GAny d)
      show ?thesis
      proof (cases d)
        case None
        then show ?thesis unfolding HDirect GAny
          by (simp add: enc_pv.simps [abs_def] uniform_leaves)
      next
        case (Some v)
        have "uniform (enc_value d)" by (rule pv(3) [OF GAny])
        then show ?thesis unfolding HDirect GAny Some
          by (simp add: enc_pv.simps [abs_def]) (intro uniform_rules)
      qed
    next
      case (GDiff bits v)
      have "uniform (enc_value v)" by (rule pv(4) [OF GDiff])
      then show ?thesis unfolding HDirect GDiff
        by (simp add: enc_pv.simps [abs_def] uniform_diff_enc)
    qed (use uniform_direct [of g] in \<open>simp_all add: HDirect enc_pv.simps [abs_def] del: enc_direct.simps\<close>)
  next
    case (HBounded b)
    have "uniform (enc_pv (HBounded b) (GPrim n p))" for n p
      by (cases p) (auto simp: enc_pv.simps [abs_def] intro!: uniform_rules)
    then show ?thesis unfolding HBounded
      by (cases g) (auto simp: enc_pv.simps [abs_def] intro!: uniform_rules)
  next
    case HNil
    then show ?thesis by (cases g) (auto simp: enc_pv.simps [abs_def] intro!: uniform_rules)
  next
    case (HArray fixed short)
    then show ?thesis
      using pv(1) by (cases g) (auto simp: enc_pv.simps [abs_def] intro!: uniform_rules)
  next
    case (HStruct v i)
    then show ?thesis
      using pv(2) by (cases g) (auto simp: enc_pv.simps [abs_def] intro!: uniform_rules)
  qed
next
  case (elem g)
  then show ?case
    by (cases "field_of g") (auto simp: enc_elem.simps [abs_def] intro!: uniform_rules)
next
  case (field f)
  then show ?case
    by (cases "field_omitted f"; cases "snd (valueToPVField (field_options (fst (snd f))) (snd (snd f)))")
      (auto simp: enc_field.simps [abs_def] intro!: uniform_rules)
next
  case (val v)
  show ?case
  proof (cases "iface_field v")
    case (Inr ht)
    with val show ?thesis
      by (cases ht) (auto simp: enc_value.simps [abs_def] intro!: uniform_rules)
  qed (simp add: enc_value.simps [abs_def] uniform_rules)
qed

section \<open>Properties\<close>

text \<open>C6: What a message looks like on the wire depends on the message and the byte order only.
  The coder of a connection carries the record of changed fields from one message to the next (a
  structure difference leaves the recording on), and none of it reaches the bytes or the outcome
  of the next message.\<close>

theorem encode_history_independent:
  "fst (enc_value v s) = fst (enc_value v (encoder (eorder s))) \<and>
   ebuf (snd (enc_value v s)) = ebuf s @ ebuf (snd (enc_value v (encoder (eorder s))))"
proof -
  obtain r bs t t' where "enc_value v s = (r, t)" "enc_value v (encoder (eorder s)) = (r, t')"
    "ebuf t = ebuf s @ bs" "ebuf t' = ebuf (encoder (eorder s)) @ bs"
    by (rule uniformE [OF uniform_enc(4), of s "encoder (eorder s)" v]) simp_all
  then show ?thesis by simp
qed

end
