(* ===== verification/PV_Decode.thy ===== *)
theory PV_Decode
  imports PV_Encode
begin

text \<open>
  \<open>PVDecode\<close> of every \<open>PVField\<close> and \<open>Decode\<close>: a decoder stores into the variable it is given,
  and the model returns the variable's new content. Partial structures are selected by the
  changed-bit set that \<open>PVStructureDiff\<close> installs in the coder.
\<close>

section \<open>The bit set in the coder\<close>

definition without_dcbs :: "'a dec \<Rightarrow> 'a dec" where
  "without_dcbs m s =
     (if ducbs s then (case m (s\<lparr>ducbs := False\<rparr>) of (r, t) \<Rightarrow> (r, t\<lparr>ducbs := True\<rparr>)) else m s)"

lemma without_dcbs_cong [fundef_cong]:
  assumes "s = s'" and "\<And>u. m u = m' u"
  shows "without_dcbs m s = without_dcbs m' s'"
  using assms by (simp add: without_dcbs_def)

text \<open>\<open>pushChangedBitSet\<close> around a computation; the deferred function restores the old set.\<close>

definition pushChangedBitSet :: "bool list \<Rightarrow> 'a dec \<Rightarrow> 'a dec" where
  "pushChangedBitSet bits m s =
     (case m (s\<lparr>dcbs := bits, ducbs := True, dcbsi := 0\<rparr>) of
        (r, t) \<Rightarrow> (r, t\<lparr>dcbs := dcbs s, ducbs := ducbs s, dcbsi := dcbsi s\<rparr>))"

lemma pushChangedBitSet_cong [fundef_cong]:
  assumes "bits = bits'" and "s = s'" and "\<And>u. m u = m' u"
  shows "pushChangedBitSet bits m s = pushChangedBitSet bits' m' s'"
  using assms by (simp add: pushChangedBitSet_def)

text \<open>
  \<open>fullStruct\<close>: the structure is complete on the wire, because no bit set is in use or its own bit
  is set.
\<close>

definition full_struct :: "dstate \<Rightarrow> bool" where
  "full_struct s \<longleftrightarrow> \<not> ducbs s \<or> PVBitSet_Get (dcbs s) (dcbsi s)"

definition next_field :: "unit dec" where
  "next_field s = (Inr (), if ducbs s then s\<lparr>dcbsi := dcbsi s + 1\<rparr> else s)"

definition field_selected :: "bool \<Rightarrow> how \<Rightarrow> dstate \<Rightarrow> bool" where
  "field_selected full h s \<longleftrightarrow>
     full \<or> (case h of HStruct True i \<Rightarrow> True | _ \<Rightarrow> False) \<or> PVBitSet_Get (dcbs s) (dcbsi s)"

section \<open>Decoding\<close>

text \<open>
  \<open>time.Unix(sec, nsec)\<close> moves whole seconds out of \<open>nsec\<close>; seconds wrap.
\<close>

definition time_unix :: "64 word \<Rightarrow> int \<Rightarrow> 64 word \<times> 32 word" where
  "time_unix sec nsec = (sec + word_of_int (nsec div 1000000000), word_of_int (nsec mod 1000000000))"

definition Time_PVDecode :: "gval dec" where
  "Time_PVDecode = bindA PVLong_PVDecode (\<lambda>sec. bindA PVInt_PVDecode (\<lambda>nsec. bindA PVInt_PVDecode (\<lambda>tag.
     case time_unix sec (sint nsec) of (sec', nsec') \<Rightarrow> retA (GTime sec' nsec' tag))))"

text \<open>\<open>PVBoundedString\<close> has the \<open>PVDecode\<close> of the string in it: the bound is not looked at.\<close>

fun dec_direct :: "gval \<Rightarrow> gval dec" where
  "dec_direct (GPrim named p) = bindA (dec_prim p) (\<lambda>p'. retA (GPrim named p'))"
| "dec_direct (GSize w) = bindA PVSize_PVDecode (\<lambda>w'. retA (GSize w'))"
| "dec_direct (GStatus st) = bindA PVStatus_PVDecode (\<lambda>st'. retA (GStatus st'))"
| "dec_direct (GBitSet bits) = bindA PVBitSet_PVDecode (\<lambda>bits'. retA (GBitSet bits'))"
| "dec_direct (GDesc f) = bindA (FieldDesc_PVDecode f) (\<lambda>f'. retA (GDesc f'))"
| "dec_direct (GTime sec nsec tag) = Time_PVDecode"
| "dec_direct (GBounded v bound) = bindA PVString_PVDecode (\<lambda>v'. retA (GBounded v' bound))"
| "dec_direct g = failA CantDecode"

definition array_len_dec :: "bool \<Rightarrow> 64 word dec" where
  "array_len_dec short =
     (if short then bindA PVUShort_PVDecode (\<lambda>n. retA (ucast n)) else PVSize_PVDecode)"

text \<open>
  The functions mirror those of the encoder: \<open>dec_pv\<close> is \<open>PVDecode\<close>, \<open>dec_elem\<close> and \<open>dec_field\<close>
  are the bodies of the loops, \<open>dec_value\<close> is \<open>Decode(s, v)\<close>.
\<close>

lemma anys_zero_field:
  assumes "zero_field n p = Inr f" and "anys_opt p = 0"
  shows "anys (snd (snd f)) = 0"
proof (cases p)
  case (Some v)
  with assms show ?thesis by (cases v) auto
qed (use assms in auto)

lemma anys_ntTypes: "map_of ntTypes i = Some z \<Longrightarrow> anys z = 0"
  by (auto simp: ntTypes_def nt_enum_def nt_time_def nt_alarm_def nt_display_def nt_control_def alarm_limit_fields_def
      split: if_splits)

lemma createZero_no_anys: "createZero f = Inr p \<Longrightarrow> anys_opt p = 0"
proof (induction f arbitrary: p)
  case (FieldDesc h fs)
  have IH: "createZero (snd sf) = Inr p \<Longrightarrow> anys_opt p = 0" if "sf \<in> set fs" for sf p
    using FieldDesc.IH [OF that, of "snd sf" p] by (cases sf) (simp add: prod_set_defs)
  have fields: "\<forall>g \<in> set gs. anys (snd (snd g)) = 0"
    if "mapE (\<lambda>sf. bindE (createZero (snd sf)) (zero_field (fst sf))) fs = Inr gs" for gs
    by (rule mapE_all [OF that]) (auto simp del: zero_field.simps dest: IH anys_zero_field)
  have "anys (GStruct [] gs) = 0" if "\<forall>g \<in> set gs. anys (snd (snd g)) = 0" for gs
    using that by simp
  with FieldDesc.prems show ?case
    by (auto simp: createZero.simps struct_of_def simp del: anys_fields zero_field.simps dest!: fields dest: anys_ntTypes
        split: if_splits option.splits)
qed

text \<open>
  Decoding into a slice by value panics once the size has been read: the slice in the interface is
  not a variable. \<open>nil_reads\<close> is what the methods of a nil pointer read before they write through it;
  those of the types that are not listed access the pointer first.
\<close>

definition iface_var :: "gval option \<Rightarrow> gerr + (how \<times> gval) option" where
  "iface_var v = (case v of Some (GSlice z es sp) \<Rightarrow> Inl (Panic Unaddressable) | _ \<Rightarrow> iface_field v)"

definition iface_reads :: "gval option \<Rightarrow> unit dec" where
  "iface_reads v = (case v of
      Some (GSlice z es sp) \<Rightarrow> without_dcbs (bindA (array_len_dec False) (\<lambda>n. retA ()))
    | _ \<Rightarrow> retA ())"

definition nil_reads :: "gval \<Rightarrow> unit dec" where
  "nil_reads g = (case g of
      GPrim named p \<Rightarrow> bindA (dec_prim p) (\<lambda>p'. retA ())
    | GSize w \<Rightarrow> bindA PVSize_PVDecode (\<lambda>w'. retA ())
    | GStatus st \<Rightarrow> bindA read_byte (\<lambda>t. retA ())
    | GDesc f \<Rightarrow> bindA read_byte (\<lambda>t. retA ())
    | GAny v \<Rightarrow> bindA (FieldDesc_PVDecode zero_fdesc) (\<lambda>f. bindA (liftA (createZero f)) (\<lambda>p. retA ()))
    | _ \<Rightarrow> retA ())"

lemma iface_var_field: "iface_var v = Inr ht \<Longrightarrow> iface_field v = Inr ht"
  by (auto simp: iface_var_def split: option.splits gval.splits)

lemma slice_resize_elems: "e \<in> set (slice_resize z n es) \<Longrightarrow> e = z \<or> e \<in> set es"
  by (auto simp: slice_resize_def split: if_splits dest: in_set_takeD)

function dec_pv :: "how \<Rightarrow> gval \<Rightarrow> gval dec"
  and dec_elem :: "gval \<Rightarrow> gval dec"
  and dec_field :: "bool \<Rightarrow> string \<times> string \<times> gval \<Rightarrow> ((string \<times> string \<times> gval) \<times> bool) dec"
  and dec_value :: "gval option \<Rightarrow> gval option dec" where
  "dec_pv HDirect g s = (case g of
      GAny v \<Rightarrow>
        bindA (FieldDesc_PVDecode zero_fdesc) (\<lambda>f.
          ifA (TypeCode (fd_head f) = NULL_TYPE_CODE) (retA (GAny None))
            (bindA (liftA (createZero f)) (\<lambda>p. bindA (dec_value p) (\<lambda>p'. retA (GAny p'))))) s
    | GDiff bits v \<Rightarrow>
        bindA PVBitSet_PVDecode (\<lambda>bits'.
          bindA (pushChangedBitSet bits' (dec_value v)) (\<lambda>v'. retA (GDiff bits' v'))) s
    | _ \<Rightarrow> dec_direct g s)"
| "dec_pv (HBounded b) g s = (case g of
      GPrim named (PVString v) \<Rightarrow> bindA PVString_PVDecode (\<lambda>v'. retA (GPrim named (PVString v'))) s
    | _ \<Rightarrow> (Inl (Panic TypeAssertion), s))"
| "dec_pv HNil g s = seqA (nil_reads g) (failA (Panic NilDereference)) s"
| "dec_pv (HArray fixed short) g s = (case g of
      GSlice z es sp \<Rightarrow>
        without_dcbs (ifA fixed (bindA (mapA dec_elem es) (\<lambda>es'. retA (GSlice z es' sp)))
          (bindA (array_len_dec short) (\<lambda>n.
             ifA (sint n < 0) (failA (Panic SetLenRange))
              (bindA (mapA dec_elem (slice_resize z (nat (sint n)) (es @ sp))) (\<lambda>es'.
                 retA (GSlice z es' (drop (nat (sint n)) (es @ sp)))))))) s
    | GArray z es \<Rightarrow>
        without_dcbs (ifA fixed (bindA (mapA dec_elem es) (\<lambda>es'. retA (GArray z es')))
          (bindA (array_len_dec short) (\<lambda>n. failA (Panic SetLenRange)))) s
    | _ \<Rightarrow> (Inl (OtherError ''zero PVArray is not usable''), s))"
| "dec_pv (HStruct v i) g s = (case g of
      GStruct j fs \<Rightarrow> bindA (mapUntilA (dec_field (full_struct s)) fs) (\<lambda>fs'. retA (GStruct j fs')) s
    | _ \<Rightarrow> (Inl (OtherError ''zero PVStructure is not usable''), s))"
| "dec_elem g s =
     (case field_of g of
        None \<Rightarrow> (Inl (no_field_err g), s)
      | Some ht \<Rightarrow> bindA (dec_pv (fst ht) (snd ht)) (\<lambda>t'. retA (plug g t')) s)"
| "dec_field full f s =
     seqA next_field (\<lambda>s.
       case snd (valueToPVField (field_options (fst (snd f))) (snd (snd f))) of
         None \<Rightarrow> (Inl (no_field_err (snd (snd f))), s)
       | Some ht \<Rightarrow>
           bindA (ifA (field_selected full (fst ht) s)
                   (bindA (dec_pv (fst ht) (snd ht)) (\<lambda>t'.
                      retA (plug (fst (valueToPVField (field_options (fst (snd f))) (snd (snd f)))) t')))
                   (retA (fst (valueToPVField (field_options (fst (snd f))) (snd (snd f)))))) (\<lambda>g'.
             bindA (liftA (if has_tag (snd (parse_tag (fst (snd f)))) ''breakonerror'' then break_on_error g' else Inr False))
               (\<lambda>stop. retA ((fst f, fst (snd f), g'), stop))) s) s"
| "dec_value v s =
     (case iface_var v of
        Inl e \<Rightarrow> seqA (iface_reads v) (failA e) s
      | Inr None \<Rightarrow> (Inl CantDecode, s)
      | Inr (Some ht) \<Rightarrow> bindA (dec_pv (fst ht) (snd ht)) (\<lambda>t'. retA (map_option (\<lambda>w. plug_iface w t') v)) s)"
  by pat_completeness auto

termination
proof (relation "inv_image (less_than <*lex*> less_than) (case_sum
    (case_sum (\<lambda>(h, g, s). (anys g, 2 * size g)) (\<lambda>(g, s). (anys g, 2 * size g + 1)))
    (case_sum (\<lambda>(full, f, s). (anys (snd (snd f)), 2 * size (snd (snd f)) + 1))
      (\<lambda>(v, s). (anys_opt v, 2 * size_option size v + 1))))")
qed (auto simp: liftA_def dest!: slice_resize_elems createZero_no_anys iface_var_field
    dest: field_of_size anys_field_of size_fields anys_field size_elems anys_elem valueToPVField_size' anys_valueToPVField
      iface_field_size' anys_iface)

declare dec_pv.simps [simp del] dec_elem.simps [simp del] dec_field.simps [simp del] dec_value.simps [simp del]

text \<open>The four recursive \<open>PVDecode\<close> methods under their own names, with the equations they obey.\<close>

definition PVArray_PVDecode :: "bool \<Rightarrow> bool \<Rightarrow> gval \<Rightarrow> gval dec" where
  "PVArray_PVDecode fixed short a = dec_pv (HArray fixed short) a"

definition PVStructure_PVDecode :: "gval \<Rightarrow> gval dec" where
  "PVStructure_PVDecode st = dec_pv (HStruct True []) st"

definition PVStructureDiff_PVDecode :: "bool list \<Rightarrow> gval option \<Rightarrow> gval dec" where
  "PVStructureDiff_PVDecode bits v = dec_pv HDirect (GDiff bits v)"

definition PVAny_PVDecode :: "gval option \<Rightarrow> gval dec" where
  "PVAny_PVDecode d = dec_pv HDirect (GAny d)"

lemma PVArray_PVDecode_slice:
  "PVArray_PVDecode fixed short (GSlice z es sp) =
     without_dcbs (ifA fixed (bindA (mapA dec_elem es) (\<lambda>es'. retA (GSlice z es' sp)))
       (bindA (array_len_dec short) (\<lambda>n. ifA (sint n < 0) (failA (Panic SetLenRange))
          (bindA (mapA dec_elem (slice_resize z (nat (sint n)) (es @ sp))) (\<lambda>es'.
             retA (GSlice z es' (drop (nat (sint n)) (es @ sp))))))))"
  by (rule ext) (simp add: PVArray_PVDecode_def dec_pv.simps)

lemma PVStructure_PVDecode_eq:
  "PVStructure_PVDecode (GStruct j fs) s =
     bindA (mapUntilA (dec_field (full_struct s)) fs) (\<lambda>fs'. retA (GStruct j fs')) s"
  by (simp add: PVStructure_PVDecode_def dec_pv.simps)

lemma PVStructureDiff_PVDecode_eq:
  "PVStructureDiff_PVDecode bits v = bindA PVBitSet_PVDecode (\<lambda>bits'.
     bindA (pushChangedBitSet bits' (dec_value v)) (\<lambda>v'. retA (GDiff bits' v')))"
  by (rule ext) (simp add: PVStructureDiff_PVDecode_def dec_pv.simps)

lemma PVAny_PVDecode_eq:
  "PVAny_PVDecode d = bindA (FieldDesc_PVDecode zero_fdesc) (\<lambda>f.
     ifA (TypeCode (fd_head f) = NULL_TYPE_CODE) (retA (GAny None))
       (bindA (liftA (createZero f)) (\<lambda>p. bindA (dec_value p) (\<lambda>p'. retA (GAny p')))))"
  by (rule ext) (simp add: PVAny_PVDecode_def dec_pv.simps)

section \<open>What a decoder leaves alone\<close>

text \<open>
  \<open>forward k m\<close>: the reader only moves forward, the byte order stays, and the bit set of the coder
  is the one it was, whether \<open>m\<close> succeeds or fails. It holds also for the errors of the fuel, which
  never occur.
\<close>

definition forward :: "bool \<Rightarrow> 'a dec \<Rightarrow> bool" where
  "forward k m \<longleftrightarrow> (\<forall>s r t. m s = (r, t) \<longrightarrow> (\<exists>bs. dbuf s = bs @ dbuf t) \<and> dorder t = dorder s \<and>
     dcbs t = dcbs s \<and> ducbs t = ducbs s \<and> (k \<longrightarrow> r \<noteq> Inl OutOfFuel))"

named_theorems forward_rules

lemma forwardI:
  assumes "\<And>s r t. m s = (r, t) \<Longrightarrow> (\<exists>bs. dbuf s = bs @ dbuf t) \<and> dorder t = dorder s \<and>
     dcbs t = dcbs s \<and> ducbs t = ducbs s \<and> (k \<longrightarrow> r \<noteq> Inl OutOfFuel)"
  shows "forward k m"
  using assms unfolding forward_def by blast

lemma forwardD:
  assumes "forward k m" and "m s = (r, t)"
  shows "\<exists>bs. dbuf s = bs @ dbuf t" "dorder t = dorder s" "dcbs t = dcbs s" "ducbs t = ducbs s" "k \<longrightarrow> r \<noteq> Inl OutOfFuel"
  using assms unfolding forward_def by blast+

lemma forward_const [forward_rules]:
  "(k \<longrightarrow> r \<noteq> Inl OutOfFuel) \<Longrightarrow> forward k (\<lambda>s. (r, s))" "forward k (retA x)" "(k \<longrightarrow> e \<noteq> OutOfFuel) \<Longrightarrow> forward k (failA e)"
  "(k \<longrightarrow> r \<noteq> Inl OutOfFuel) \<Longrightarrow> forward k (liftA r)"
  by (auto simp: forward_def act_simps)

lemma forward_bind [forward_rules]:
  assumes m: "forward k m" and f: "\<And>x. forward k (f x)"
  shows "forward k (bindA m f)"
proof (rule forwardI)
  fix s r t assume run: "bindA m f s = (r, t)"
  obtain q u where mq: "m s = (q, u)" by (cases "m s")
  note u = forwardD [OF m mq]
  show "(\<exists>bs. dbuf s = bs @ dbuf t) \<and> dorder t = dorder s \<and> dcbs t = dcbs s \<and> ducbs t = ducbs s \<and> (k \<longrightarrow> r \<noteq> Inl OutOfFuel)"
  proof (cases q)
    case (Inl e)
    with run mq u show ?thesis by (auto simp: bindA_def)
  next
    case (Inr x)
    with run mq have "f x u = (r, t)" by (simp add: bindA_def)
    from forwardD [OF f this] u show ?thesis by auto
  qed
qed

lemma forward_seq [forward_rules]: "forward k m \<Longrightarrow> forward k n \<Longrightarrow> forward k (seqA m n)"
  using forward_bind [of k m "\<lambda>_. n"] by (simp add: seqA_def [abs_def])

lemma forward_if [forward_rules]: "(b \<Longrightarrow> forward k m) \<Longrightarrow> (\<not> b \<Longrightarrow> forward k n) \<Longrightarrow> forward k (ifA b m n)"
  by (cases b) (simp_all add: ifA_def [abs_def])

lemma forward_map [forward_rules]: "(\<And>x. x \<in> set xs \<Longrightarrow> forward k (f x)) \<Longrightarrow> forward k (mapA f xs)"
proof (induction xs)
  case (Cons x xs)
  have "mapA f (x # xs) = bindA (f x) (\<lambda>y. bindA (mapA f xs) (\<lambda>ys. retA (y # ys)))" by (rule ext) simp
  with Cons show ?case by (auto intro!: forward_rules)
qed (simp add: forward_def)

lemma forward_map_until [forward_rules]: "(\<And>x. x \<in> set xs \<Longrightarrow> forward k (f x)) \<Longrightarrow> forward k (mapUntilA f xs)"
proof (induction xs)
  case (Cons x xs)
  have "mapUntilA f (x # xs) = bindA (f x) (\<lambda>r. ifA (snd r) (retA (fst r # xs))
      (bindA (mapUntilA f xs) (\<lambda>ys. retA (fst r # ys))))" by (rule ext) simp
  with Cons show ?case by (auto intro!: forward_rules)
qed (simp add: forward_def)

lemma forward_read [forward_rules]:
  "forward k read_byte" "forward k (read_full n)" "forward k (read_uint n)"
proof -
  show "forward k read_byte" by (auto simp: forward_def read_byte_def split: list.splits)
  show f: "forward k (read_full n)" for n
    by (auto simp: forward_def read_full_def split: if_splits) (metis append_take_drop_id)
  show "forward k (read_uint n)"
    unfolding read_uint_def
    by (rule forward_bind [OF f]) (auto simp: forward_def split: option.splits)
qed

lemma forward_scalars [forward_rules]:
  "forward k PVSize_PVDecode" "forward k (dec_prim p)" "forward k PVString_PVDecode" "forward k PVStatus_PVDecode"
proof -
  note defs = PVSize_PVDecode_def PVString_PVDecode_def PVStatus_PVDecode_def scalar_dec_defs
    ReadUint16_def ReadUint32_def ReadUint64_def
  show s: "forward k PVSize_PVDecode" unfolding defs by (auto intro!: forward_rules)
  show t: "forward k PVString_PVDecode"
    unfolding PVString_PVDecode_def by (auto intro!: forward_rules s)
  show "forward k (dec_prim p)" by (cases p) (auto simp: defs(4-) intro!: forward_rules t)
  show "forward k PVStatus_PVDecode" unfolding PVStatus_PVDecode_def by (auto intro!: forward_rules t)
qed

lemma forward_numbers [forward_rules]:
  "forward k PVUByte_PVDecode" "forward k PVUShort_PVDecode" "forward k PVInt_PVDecode" "forward k PVLong_PVDecode" "forward k PVULong_PVDecode"
  unfolding scalar_dec_defs ReadUint16_def ReadUint32_def ReadUint64_def by (auto intro!: forward_rules)

lemma forward_unpack [forward_rules]:
  "forward k (dec_bit_words nb i maxBit present)" "forward k (dec_bit_bytes nb i maxBit present)"
proof -
  have words: "dec_bit_words nb i maxBit present =
      (if int i + 7 < nb then bindA PVULong_PVDecode (\<lambda>w. case unpack_bits 64 (i * 8) w maxBit present of
         (maxBit', present') \<Rightarrow> dec_bit_words nb (i + 8) maxBit' present')
       else retA (i, maxBit, present))" for i maxBit present
    by (rule ext, subst dec_bit_words.simps) (simp add: retA_def)
  have bytes: "dec_bit_bytes nb i maxBit present =
      (if int i < nb then bindA PVUByte_PVDecode (\<lambda>w. case unpack_bits 8 (i * 8) w maxBit present of
         (maxBit', present') \<Rightarrow> dec_bit_bytes nb (i + 1) maxBit' present')
       else retA (maxBit, present))" for i maxBit present
    by (rule ext, subst dec_bit_bytes.simps) (simp add: retA_def)
  show "forward k (dec_bit_words nb i maxBit present)"
  proof (induction "nat (nb - int i)" arbitrary: i maxBit present rule: less_induct)
    case less
    then show ?case by (subst words) (auto intro!: forward_rules split: prod.splits)
  qed
  show "forward k (dec_bit_bytes nb i maxBit present)"
  proof (induction "nat (nb - int i)" arbitrary: i maxBit present rule: less_induct)
    case less
    then show ?case by (subst bytes) (auto intro!: forward_rules split: prod.splits)
  qed
qed

lemma forward_bitset [forward_rules]: "forward k PVBitSet_PVDecode"
  unfolding PVBitSet_PVDecode_def by (auto intro!: forward_rules split: prod.splits)

lemma forward_desc_head [forward_rules]: "forward k (FieldDesc_decode_head h)"
  unfolding FieldDesc_decode_head_def Let_def by (auto intro!: forward_rules)

lemma forward_desc_fields:
  "(\<And>g. forward k (rec g)) \<Longrightarrow> forward k (FieldDesc_decode_fields rec h fs)"
  unfolding FieldDesc_decode_fields_def by (auto intro!: forward_rules)

lemma forward_desc_fuel: "forward False (FieldDesc_decode fuel f)"
proof (induction fuel arbitrary: f)
  case (Suc fuel)
  obtain h0 fs where f: "f = FieldDesc h0 fs" by (cases f)
  show ?case
    unfolding f FieldDesc_decode.simps(2) [abs_def]
    by (auto intro!: forward_rules forward_desc_fields Suc split: prod.splits)
qed (simp add: forward_def)

lemma forward_desc [forward_rules]: "forward k (FieldDesc_PVDecode f)"
proof (rule forwardI)
  fix s r t assume run: "FieldDesc_PVDecode f s = (r, t)"
  then have "FieldDesc_decode (Suc (length (dbuf s))) f s = (r, t)" by (simp add: FieldDesc_PVDecode_def)
  from forwardD [OF forward_desc_fuel this] FieldDesc_decode_fuel_enough [of s "Suc (length (dbuf s))" f t] this
  show "(\<exists>bs. dbuf s = bs @ dbuf t) \<and> dorder t = dorder s \<and> dcbs t = dcbs s \<and> ducbs t = ducbs s \<and>
      (k \<longrightarrow> r \<noteq> Inl OutOfFuel)" by auto
qed

lemma forward_without_dcbs [forward_rules]:
  assumes "forward k m"
  shows "forward k (without_dcbs m)"
proof (rule forwardI)
  fix s r t assume run: "without_dcbs m s = (r, t)"
  show "(\<exists>bs. dbuf s = bs @ dbuf t) \<and> dorder t = dorder s \<and> dcbs t = dcbs s \<and> ducbs t = ducbs s \<and>
      (k \<longrightarrow> r \<noteq> Inl OutOfFuel)"
  proof (cases "ducbs s")
    case True
    obtain q u where m: "m (s\<lparr>ducbs := False\<rparr>) = (q, u)" by (cases "m (s\<lparr>ducbs := False\<rparr>)")
    from run True m have "r = q" "t = u\<lparr>ducbs := True\<rparr>" by (auto simp: without_dcbs_def)
    with forwardD [OF assms m] True show ?thesis by simp
  next
    case False
    with run have "m s = (r, t)" by (simp add: without_dcbs_def)
    with forwardD [OF assms this] show ?thesis by simp
  qed
qed

lemma forward_pushChangedBitSet [forward_rules]:
  assumes "forward k m"
  shows "forward k (pushChangedBitSet bits m)"
proof (rule forwardI)
  fix s r t assume run: "pushChangedBitSet bits m s = (r, t)"
  let ?s = "s\<lparr>dcbs := bits, ducbs := True, dcbsi := 0\<rparr>"
  obtain q u where m: "m ?s = (q, u)" by (cases "m ?s")
  with run have "r = q" "t = u\<lparr>dcbs := dcbs s, ducbs := ducbs s, dcbsi := dcbsi s\<rparr>"
    by (auto simp: pushChangedBitSet_def)
  with forwardD [OF assms m]
  show "(\<exists>bs. dbuf s = bs @ dbuf t) \<and> dorder t = dorder s \<and> dcbs t = dcbs s \<and> ducbs t = ducbs s \<and>
      (k \<longrightarrow> r \<noteq> Inl OutOfFuel)" by simp
qed

lemma forward_next_field [forward_rules]: "forward k next_field"
  by (auto simp: forward_def next_field_def)

lemma forward_diag: "(\<And>s. forward k (f s)) \<Longrightarrow> forward k (\<lambda>s. f s s)"
  unfolding forward_def by blast

lemma forward_direct [forward_rules]: "forward k (dec_direct g)"
  by (cases g) (auto simp: Time_PVDecode_def intro!: forward_rules split: prod.splits)

lemma mapE_Inl: "mapE f xs = Inl e \<Longrightarrow> \<exists>x \<in> set xs. f x = Inl e"
  by (induction xs) (auto simp: bindE_def split: sum.splits)

lemma zero_field_no_fuel: "zero_field n p \<noteq> Inl OutOfFuel"
  by (cases n; cases p) (auto simp: Let_def split: gval.splits)

lemma createZero_no_fuel: "createZero f \<noteq> Inl OutOfFuel"
proof (induction f)
  case (FieldDesc h fs)
  have IH: "createZero (snd sf) \<noteq> Inl OutOfFuel" if "sf \<in> set fs" for sf
    using FieldDesc.IH [OF that, of "snd sf"] by (cases sf) (simp add: prod_set_defs)
  have "mapE (\<lambda>sf. bindE (createZero (snd sf)) (zero_field (fst sf))) fs \<noteq> Inl OutOfFuel"
    using IH zero_field_no_fuel by (auto dest!: mapE_Inl simp: bindE_def split: sum.splits simp del: zero_field.simps)
  then show ?case
    by (auto simp: createZero.simps bindE_def struct_of_def split: option.splits sum.splits)
qed

lemma iface_var_no_fuel: "iface_var v \<noteq> Inl OutOfFuel"
proof (cases v)
  case (Some g)
  then show ?thesis by (cases g) (auto simp: iface_var_def)
qed (simp add: iface_var_def)

lemma forward_createZero [forward_rules]: "forward k (liftA (createZero f))"
  by (rule forward_const(4)) (simp add: createZero_no_fuel)

lemma break_no_fuel: "break_on_error g \<noteq> Inl OutOfFuel"
  by (cases g) simp_all

lemma no_field_err_no_fuel [simp]: "no_field_err g \<noteq> OutOfFuel"
  by (simp add: no_field_err_def)

lemma forward_array_len [forward_rules]: "forward k (array_len_dec short)"
  unfolding array_len_dec_def by (auto intro!: forward_rules)

lemma forward_reads [forward_rules]: "forward k (nil_reads g)" "forward k (iface_reads v)"
proof -
  show "forward k (nil_reads g)" by (cases g) (auto simp: nil_reads_def intro!: forward_rules)
  show "forward k (iface_reads v)" unfolding iface_reads_def by (auto intro!: forward_rules split: option.split gval.split)
qed

lemma forward_dec:
  "forward k (dec_pv h g)" "forward k (dec_elem g)" "\<forall>full. forward k (dec_field full f)" "forward k (dec_value v)"
proof (induction h g and g and f and v rule: coder_induct)
  case (pv h g)
  show ?case
  proof (cases h)
    case HDirect
    show ?thesis
    proof (cases g)
      case (GAny d)
      have "dec_pv h g = bindA (FieldDesc_PVDecode zero_fdesc) (\<lambda>f.
          ifA (TypeCode (fd_head f) = NULL_TYPE_CODE) (retA (GAny None))
            (bindA (liftA (createZero f)) (\<lambda>p. bindA (dec_value p) (\<lambda>p'. retA (GAny p')))))"
        by (rule ext) (simp add: HDirect GAny dec_pv.simps)
      moreover have data: "forward k (bindA (liftA (createZero f)) (\<lambda>p. bindA (dec_value p) (\<lambda>p'. retA (GAny p'))))" for f
      proof (cases "createZero f")
        case (Inl e)
        then have "e \<noteq> OutOfFuel" using createZero_no_fuel [of f] by auto
        with Inl show ?thesis by (simp add: forward_def bindA_def liftA_def)
      next
        case (Inr p)
        have "forward k (dec_value p)" by (rule pv(5) [OF GAny createZero_no_anys [OF Inr]])
        then have "forward k (bindA (dec_value p) (\<lambda>p'. retA (GAny p')))" by (auto intro!: forward_rules)
        moreover have "bindA (liftA (createZero f)) (\<lambda>p. bindA (dec_value p) (\<lambda>p'. retA (GAny p')))
            = bindA (dec_value p) (\<lambda>p'. retA (GAny p'))"
          by (rule ext) (simp add: Inr bindA_Inr [of "liftA (Inr p)"] liftA_def)
        ultimately show ?thesis by simp
      qed
      ultimately show ?thesis
        using forward_bind [OF forward_desc forward_if [OF forward_const(2) data]] by simp
    next
      case (GDiff bits v)
      have "dec_pv h g = bindA PVBitSet_PVDecode (\<lambda>bits'.
          bindA (pushChangedBitSet bits' (dec_value v)) (\<lambda>v'. retA (GDiff bits' v')))"
        by (rule ext) (simp add: HDirect GDiff dec_pv.simps)
      then show ?thesis using pv(4) [OF GDiff] by (auto intro!: forward_rules)
    qed (use forward_direct [of k g] in \<open>simp_all add: HDirect dec_pv.simps [abs_def] del: dec_direct.simps\<close>)
  next
    case (HBounded b)
    have "forward k (dec_pv (HBounded b) (GPrim n p))" for n p
      by (cases p) (auto simp: dec_pv.simps [abs_def] intro!: forward_rules)
    then show ?thesis unfolding HBounded
      by (cases g) (auto simp: dec_pv.simps [abs_def] intro!: forward_rules)
  next
    case HNil
    then show ?thesis by (auto simp: dec_pv.simps [abs_def] intro!: forward_rules)
  next
    case (HArray fixed short)
    have "forward k (mapA dec_elem es)" if "set es \<subseteq> elems_of g" for es
      using that pv(1) by (auto intro!: forward_rules)
    moreover have "set (slice_resize z n es) \<subseteq> insert z (set es)" for z n and es :: "gval list"
      by (auto dest: slice_resize_elems)
    ultimately show ?thesis unfolding HArray
      by (cases g) (fastforce simp: dec_pv.simps [abs_def] intro!: forward_rules pv(1) dest: slice_resize_elems)+
  next
    case (HStruct v i)
    have run: "forward k (bindA (mapUntilA (dec_field (full_struct s)) fs) (\<lambda>fs'. retA (GStruct j fs')))"
      if "g = GStruct j fs" for s j fs
      using pv(2) that by (auto intro!: forward_rules)
    have "forward k (\<lambda>s. bindA (mapUntilA (dec_field (full_struct s)) fs) (\<lambda>fs'. retA (GStruct j fs')) s)"
      if "g = GStruct j fs" for j fs
      by (rule forward_diag) (rule run [OF that])
    then show ?thesis unfolding HStruct
      by (cases g) (simp_all add: dec_pv.simps [abs_def] forward_rules)
  qed
next
  case (elem g)
  then show ?case
    by (cases "field_of g") (auto simp: dec_elem.simps [abs_def] intro!: forward_rules)
next
  case (field f)
  let ?r = "valueToPVField (field_options (fst (snd f))) (snd (snd f))"
  show ?case
  proof (cases "snd ?r")
    case None
    then show ?thesis by (auto simp: dec_field.simps [abs_def] intro!: forward_rules)
  next
    case (Some ht)
    then have ht: "forward k (dec_pv (fst ht) (snd ht))" using field by (cases ht) auto
    have stop: "forward k (liftA (if c then break_on_error g' else Inr False))" for c g'
      using break_no_fuel by (auto intro!: forward_const(4))
    have "forward k (\<lambda>s. bindA (ifA (field_selected full (fst ht) s)
                   (bindA (dec_pv (fst ht) (snd ht)) (\<lambda>t'. retA (plug (fst ?r) t'))) (retA (fst ?r))) (\<lambda>g'.
             bindA (liftA (if has_tag (snd (parse_tag (fst (snd f)))) ''breakonerror'' then break_on_error g' else Inr False))
               (\<lambda>stop. retA ((fst f, fst (snd f), g'), stop))) s)" for full
      by (rule forward_diag) (intro forward_rules ht stop)
    then show ?thesis using Some by (auto simp: dec_field.simps [abs_def] intro!: forward_rules)
  qed
next
  case (val v)
  show ?case
  proof (cases "iface_var v")
    case (Inl e)
    then show ?thesis using iface_var_no_fuel [of v] by (auto simp: dec_value.simps [abs_def] intro!: forward_rules)
  next
    case (Inr ht)
    with val iface_var_field [OF Inr] show ?thesis
      by (cases ht) (auto simp: dec_value.simps [abs_def] intro!: forward_rules)
  qed
qed

section \<open>Properties\<close>

text \<open>C5: Whatever the input and whatever the variable, decoding ends, takes a prefix of the input,
  and leaves the byte order and the changed-bit set of the coder as they were, also when it fails
  or when partial structures are nested in it.\<close>

theorem decode_total_frame:
  "\<exists>r t taken. dec_value v s = (r, t) \<and> r \<noteq> Inl OutOfFuel \<and> dbuf s = taken @ dbuf t \<and>
     dorder t = dorder s \<and> dcbs t = dcbs s \<and> ducbs t = ducbs s"
proof -
  obtain r t where run: "dec_value v s = (r, t)" by (cases "dec_value v s")
  from forwardD [OF forward_dec(4) [where k = True] run] run show ?thesis by auto
qed

end
