(* ===== verification/PV_Roundtrip.thy ===== *)
theory PV_Roundtrip
  imports PV_Decode
begin

text \<open>
  Encoding and decoding of whole values: which values survive the trip, with and without the
  changed-bit set, and the proof that they do.
\<close>

section \<open>Blank variables\<close>

text \<open>
  \<open>blank g\<close> is a fresh variable of the type of \<open>g\<close>, as \<open>var x T\<close> declares it: scalars are zero,
  slices nil, interfaces empty. A time of zero is the first second of the year 1.
\<close>

fun blank :: "gval \<Rightarrow> gval" where
  "blank (GPrim named p) = GPrim named (prim_zero p)"
| "blank (GSize w) = GSize 0"
| "blank (GStatus st) = GStatus zero_status"
| "blank (GBitSet bits) = GBitSet []"
| "blank (GDesc f) = GDesc zero_fdesc"
| "blank (GTime sec nsec tag) = GTime (word_of_int (-62135596800)) 0 0"
| "blank (GBounded s b) = GBounded [] b"
| "blank (GAny v) = GAny None"
| "blank (GDiff bits v) = GDiff [] None"
| "blank (GPVStructure i st) = GPVStructure i (blank st)"
| "blank (GPVArray fixed short a) = GPVArray fixed short (blank a)"
| "blank (GSlice z es sp) = GSlice z [] []"
| "blank (GArray z es) = GArray z (replicate (length es) z)"
| "blank (GStruct i fs) = GStruct i (map (\<lambda>f. (fst f, fst (snd f), blank (snd (snd f)))) fs)"
| "blank (GPtr t) = GPtr (blank t)"
| "blank (GNil t) = GNil t"
| "blank (GIface v) = GIface None"
| "blank GHidden = GHidden"
| "blank GOther = GOther"

section \<open>Values that make the trip\<close>

fun sum_opt :: "nat option list \<Rightarrow> nat option" where
  "sum_opt [] = Some 0"
| "sum_opt (None # xs) = None"
| "sum_opt (Some n # xs) = map_option ((+) n) (sum_opt xs)"

fun trips_direct :: "gval \<Rightarrow> bool" where
  "trips_direct (GPrim named p) \<longleftrightarrow> prim_ok p"
| "trips_direct (GSize w) \<longleftrightarrow> size_norm w = w"
| "trips_direct (GStatus st) \<longleftrightarrow> status_ok st"
| "trips_direct (GBitSet bits) \<longleftrightarrow> bitset_ok bits \<and> bitset_trim bits = bits"
| "trips_direct (GDesc f) \<longleftrightarrow> wf_fdesc f"
| "trips_direct (GTime sec nsec tag) \<longleftrightarrow> 0 \<le> sint nsec \<and> sint nsec < 1000000000"
| "trips_direct (GBounded s b) \<longleftrightarrow> int (length s) \<le> sint b \<and> string_ok s"
| "trips_direct _ \<longleftrightarrow> False"

fun is_iface :: "gval \<Rightarrow> bool" where
  "is_iface (GIface v) = True"
| "is_iface _ = False"

definition is_always :: "opt \<Rightarrow> bool" where
  "is_always o' \<longleftrightarrow> (case o' of AlwaysOption n \<Rightarrow> True | _ \<Rightarrow> False)"

definition pointee :: "gval option \<Rightarrow> gval list" where
  "pointee v = (case v of Some (GPtr t) \<Rightarrow> [t] | _ \<Rightarrow> [])"

text \<open>
  \<open>trips_pv h g = Some n\<close>: the field \<open>h\<close> over \<open>g\<close> is read back from what is written, and \<open>n\<close>
  changed bits are used up by it. Left out are the arrays of structures (a presence byte is
  written but not read), the interfaces (nothing to decode into), fields with the \<open>always\<close> tag,
  omitted fields, and the structures that \<open>breakonerror\<close> cuts short.
\<close>

text \<open>
  What of a description reaches the wire: the size of a string's or a variable array's description
  is not written.
\<close>

fun wire_desc :: "fdesc \<Rightarrow> fdesc" where
  "wire_desc (FieldDesc h fs) =
     FieldDesc (if has_size (TypeCode h) then h else h\<lparr>fd_Size := 0\<rparr>) (map (\<lambda>sf. (fst sf, wire_desc (snd sf))) fs)"

lemma wire_desc_head [simp]: "TypeCode (fd_head (wire_desc f)) = TypeCode (fd_head f)"
  by (cases f) simp

lemma FieldDesc_PVEncode_wire_desc: "FieldDesc_PVEncode (wire_desc f) = FieldDesc_PVEncode f"
proof
  show "FieldDesc_PVEncode (wire_desc f) s = FieldDesc_PVEncode f s" for s
  proof (induction f arbitrary: s)
    case (FieldDesc h fs)
    have "FieldDesc_PVEncode (wire_desc (snd sf)) s = FieldDesc_PVEncode (snd sf) s" if "sf \<in> set fs" for sf s
      using FieldDesc [OF that, of "snd sf"] by (cases sf) (simp add: prod_set_defs)
    then have fields: "eachA (\<lambda>sf. seqA (PVString_PVEncode (fst sf)) (FieldDesc_PVEncode (snd sf)))
        (map (\<lambda>sf. (fst sf, wire_desc (snd sf))) fs) s =
      eachA (\<lambda>sf. seqA (PVString_PVEncode (fst sf)) (FieldDesc_PVEncode (snd sf))) fs s" for s
      by (induction fs arbitrary: s) (auto simp: seqA_def bindA_def split: prod.splits sum.splits)
    have no: "whenA False m = retA ()" for m :: enc by (rule ext) (simp add: whenA_def retA_def)
    show ?case
      by (cases "has_size (TypeCode h)") (simp_all add: FieldDesc_encode_ids_def fields [abs_def] no)
  qed
qed

function trips_pv :: "how \<Rightarrow> gval \<Rightarrow> nat option"
  and trips_elem :: "gval \<Rightarrow> bool"
  and trips_field :: "string \<times> string \<times> gval \<Rightarrow> nat option"
  and trips_value :: "gval option \<Rightarrow> nat option" where
  "trips_pv HDirect g = (case g of
      GAny None \<Rightarrow> Some 0
    | GAny (Some v) \<Rightarrow> (case desc_loc (GIface (Some v)) of
        Inl e \<Rightarrow> None
      | Inr f \<Rightarrow> if wf_fdesc (wire_desc f) \<and> TypeCode (fd_head f) \<noteq> NULL_TYPE_CODE \<and>
                   createZero (wire_desc f) = Inr (Some (blank v))
                then trips_value (Some v) else None)
    | _ \<Rightarrow> if trips_direct g then Some 0 else None)"
| "trips_pv (HBounded b) g = (case g of
      GPrim False (PVString v) \<Rightarrow>
        if int (length v) \<le> sint (word_of_int b :: 64 word) \<and> string_ok v then Some 0 else None
    | _ \<Rightarrow> None)"
| "trips_pv HNil g = None"
| "trips_pv (HArray fixed short) g = (case g of
      GSlice z es sp \<Rightarrow>
        if \<not> fixed \<and> sp = [] \<and> (if short then length es < 2 ^ 16 else len_ok (length es)) \<and>
           list_all (\<lambda>e. blank e = z) es \<and> list_all trips_elem es then Some 0 else None
    | GArray z es \<Rightarrow>
        if fixed \<and> list_all (\<lambda>e. blank e = z) es \<and> list_all trips_elem es then Some 0 else None
    | _ \<Rightarrow> None)"
| "trips_pv (HStruct v i) g = (case g of GStruct j fs \<Rightarrow> sum_opt (map trips_field fs) | _ \<Rightarrow> None)"
| "trips_elem g = (case field_of g of
      None \<Rightarrow> False
    | Some ht \<Rightarrow> \<not> is_iface g \<and> (case fst ht of HStruct True i \<Rightarrow> False | _ \<Rightarrow> True) \<and> trips_pv (fst ht) (snd ht) \<noteq> None)"
| "trips_field f =
     (if field_omitted f \<or> is_iface (snd (snd f)) \<or> list_ex is_always (field_options (fst (snd f))) then None
      else case snd (valueToPVField (field_options (fst (snd f))) (snd (snd f))) of
        None \<Rightarrow> None
      | Some ht \<Rightarrow>
          if has_tag (snd (parse_tag (fst (snd f)))) ''breakonerror'' \<and> break_on_error (snd (snd f)) \<noteq> Inr False then None
          else map_option Suc (trips_pv (fst ht) (snd ht)))"
| "trips_value v = (case iface_var v of
      Inr (Some ht) \<Rightarrow> if list_ex is_iface (pointee v) then None else trips_pv (fst ht) (snd ht)
    | _ \<Rightarrow> None)"
  by pat_completeness auto

termination
proof (relation "inv_image (less_than <*lex*> less_than) (case_sum
    (case_sum (\<lambda>(h, g). (anys g, 2 * size g)) (\<lambda>g. (anys g, 2 * size g + 1)))
    (case_sum (\<lambda>f. (anys (snd (snd f)), 2 * size (snd (snd f)) + 1))
      (\<lambda>v. (anys_opt v, 2 * size_option size v + 1))))")
qed (auto dest: size_fields anys_field size_elems anys_elem
    dest!: field_of_smaller valueToPVField_smaller iface_var_field iface_field_smaller)

declare trips_pv.simps [simp del] trips_elem.simps [simp del] trips_field.simps [simp del] trips_value.simps [simp del]

section \<open>Blank variables convert as full ones do\<close>

lemma is_pvtype_blank [simp]: "is_pvtype (blank g) = is_pvtype g"
  by (cases g) simp_all

lemma target_field_blank:
  "target_field g = Some (h, t) \<Longrightarrow> target_field (blank g) = Some (h, blank t) \<and> plug_target (blank g) t = g"
  by (cases g) auto

lemma field_of_GNil: "field_of (GNil t) = Some (h, u) \<Longrightarrow> h = HNil"
  by (cases t) (auto split: if_splits)

lemma field_of_blank:
  assumes "field_of g = Some (h, t)" and "h \<noteq> HNil" and "\<not> is_iface g"
  shows "field_of (blank g) = Some (h, blank t) \<and> plug (blank g) t = g"
proof (cases g)
  case (GNil t)
  with assms show ?thesis by (auto simp del: field_of.simps dest: field_of_GNil)
next
  case (GPtr t)
  with assms show ?thesis by (auto dest: target_field_blank)
qed (use assms in auto)

lemma valueToPVField_bound:
  assumes "\<nexists>s. g = GPrim False (PVString s)"
  shows "valueToPVField (BoundOption b # os) g = valueToPVField os g"
proof (cases g)
  case (GPrim n p)
  with assms show ?thesis by (cases n; cases p) simp_all
qed simp_all

lemma blank_string: "blank g = GPrim False (PVString s) \<Longrightarrow> \<exists>s. g = GPrim False (PVString s)"
proof (cases g)
  case (GPrim n p)
  moreover assume "blank g = GPrim False (PVString s)"
  ultimately show ?thesis by (cases p) simp_all
qed simp_all

lemma valueToPVField_blank:
  assumes "snd (valueToPVField os g) = Some (h, t)" and "h \<noteq> HNil" and "\<not> is_iface g"
    and "\<not> list_ex is_always os"
  shows "valueToPVField os (blank g) = (blank g, Some (h, blank t)) \<and> plug (blank g) t = g"
  using assms
proof (induction os)
  case Nil
  then show ?case using field_of_blank [of g h t] by simp
next
  case (Cons o' os)
  have "valueToPVField os (blank g) = (blank g, Some (h, blank t)) \<and> plug (blank g) t = g"
    if "snd (valueToPVField os g) = Some (h, t)"
    using that Cons by simp
  with Cons.prems show ?case
  proof (cases o')
    case (BoundOption b)
    show ?thesis
    proof (cases "\<exists>s. g = GPrim False (PVString s)")
      case True
      with BoundOption Cons.prems show ?thesis by auto
    next
      case False
      then have "valueToPVField (BoundOption b # os) (blank g) = valueToPVField os (blank g)"
        using blank_string by (intro valueToPVField_bound) blast
      moreover have "valueToPVField (BoundOption b # os) g = valueToPVField os g"
        using False by (intro valueToPVField_bound) blast
      ultimately show ?thesis using BoundOption Cons by simp
    qed
  qed (cases g; auto simp: is_always_def)+
qed

section \<open>Writing and reading back\<close>

text \<open>
  \<open>writes bo m r bs n\<close>: in a coder of byte order \<open>bo\<close>, \<open>m\<close> succeeds with \<open>r\<close>, appends \<open>bs\<close> and
  records \<open>n\<close> changed fields. \<open>reads u bo m x bs n\<close>: in front of \<open>bs\<close>, with the next \<open>n\<close> bits set
  when a bit set is in use (\<open>u\<close>), \<open>m\<close> takes \<open>bs\<close> and \<open>n\<close> bits, and answers \<open>x\<close>.
\<close>

definition bits_set :: "dstate \<Rightarrow> nat \<Rightarrow> bool" where
  "bits_set d n \<longleftrightarrow> (ducbs d \<longrightarrow> (\<forall>i < n. PVBitSet_Get (dcbs d) (dcbsi d + 1 + i)))"

definition writes :: "byte_order \<Rightarrow> (estate, 'r) act \<Rightarrow> 'r \<Rightarrow> byte list \<Rightarrow> nat \<Rightarrow> bool" where
  "writes bo m r bs n \<longleftrightarrow> (\<forall>s. eorder s = bo \<longrightarrow>
     m s = (Inr r, s\<lparr>ebuf := ebuf s @ bs, ecbs := ecbs s @ replicate (if eucbs s then n else 0) True\<rparr>))"

definition reads :: "bool \<Rightarrow> byte_order \<Rightarrow> 'a dec \<Rightarrow> 'a \<Rightarrow> byte list \<Rightarrow> nat \<Rightarrow> bool" where
  "reads u bo m x bs n \<longleftrightarrow> (\<forall>d rest. dorder d = Some bo \<longrightarrow> ducbs d = u \<longrightarrow> dbuf d = bs @ rest \<longrightarrow> bits_set d n \<longrightarrow>
     m d = (Inr x, d\<lparr>dbuf := rest, dcbsi := dcbsi d + (if u then n else 0)\<rparr>))"

definition trip :: "bool \<Rightarrow> byte_order \<Rightarrow> (estate, 'r) act \<Rightarrow> 'r \<Rightarrow> 'a dec \<Rightarrow> 'a \<Rightarrow> nat \<Rightarrow> bool" where
  "trip u bo m r dm x n \<longleftrightarrow> (\<exists>bs. writes bo m r bs n \<and> reads u bo dm x bs n)"

lemma tripI: "writes bo m r bs n \<Longrightarrow> reads u bo dm x bs n \<Longrightarrow> trip u bo m r dm x n"
  by (auto simp: trip_def)

lemma writesD:
  "writes bo m r bs n \<Longrightarrow> eorder s = bo \<Longrightarrow>
   m s = (Inr r, s\<lparr>ebuf := ebuf s @ bs, ecbs := ecbs s @ replicate (if eucbs s then n else 0) True\<rparr>)"
  by (simp add: writes_def)

lemma readsD:
  "reads u bo m x bs n \<Longrightarrow> dorder d = Some bo \<Longrightarrow> ducbs d = u \<Longrightarrow> dbuf d = bs @ rest \<Longrightarrow> bits_set d n \<Longrightarrow>
   m d = (Inr x, d\<lparr>dbuf := rest, dcbsi := dcbsi d + (if u then n else 0)\<rparr>)"
  by (simp add: reads_def)

lemma writes_const: "writes bo (retA x) x [] 0" "writes bo (liftA (Inr x)) x [] 0"
  by (simp_all add: writes_def act_simps)

lemma reads_const: "reads u bo (retA x) x [] 0" "reads u bo (liftA (Inr x)) x [] 0"
  by (auto simp: reads_def act_simps)

lemma writes_bind:
  assumes "writes bo m x bs n" and "writes bo (f x) r bs' n'"
  shows "writes bo (bindA m f) r (bs @ bs') (n + n')"
  unfolding writes_def
proof (intro allI impI)
  fix s :: estate assume e: "eorder s = bo"
  show "bindA m f s = (Inr r, s\<lparr>ebuf := ebuf s @ bs @ bs', ecbs := ecbs s @ replicate (if eucbs s then n + n' else 0) True\<rparr>)"
    using writesD [OF assms(1) e] e by (simp add: bindA_def writesD [OF assms(2)] replicate_add)
qed

lemma writes_seq:
  "writes bo m () bs n \<Longrightarrow> writes bo m' r bs' n' \<Longrightarrow> writes bo (seqA m m') r (bs @ bs') (n + n')"
  using writes_bind [of bo m "()" bs n "\<lambda>_. m'"] by (simp add: seqA_def [abs_def])

lemma reads_bind:
  assumes "reads u bo m x bs n" and "reads u bo (f x) y bs' n'"
  shows "reads u bo (bindA m f) y (bs @ bs') (n + n')"
  unfolding reads_def
proof (intro allI impI)
  fix d :: dstate and rest
  assume d: "dorder d = Some bo" "ducbs d = u" "dbuf d = (bs @ bs') @ rest" "bits_set d (n + n')"
  let ?d = "d\<lparr>dbuf := bs' @ rest, dcbsi := dcbsi d + (if u then n else 0)\<rparr>"
  have "bits_set d n" using d(4) by (simp add: bits_set_def)
  then have m: "m d = (Inr x, ?d)" using readsD [OF assms(1) d(1,2), of "bs' @ rest"] d(3) by simp
  have "PVBitSet_Get (dcbs d) (dcbsi d + n + 1 + i)" if "ducbs d" "i < n'" for i
    using d(4) that by (auto simp: bits_set_def dest: spec [of _ "n + i"] simp: add.assoc)
  then have "bits_set ?d n'" using d(2) by (auto simp: bits_set_def)
  then have "f x ?d = (Inr y, ?d\<lparr>dbuf := rest, dcbsi := dcbsi ?d + (if u then n' else 0)\<rparr>)"
    using d by (intro readsD [OF assms(2)]) simp_all
  then show "bindA m f d = (Inr y, d\<lparr>dbuf := rest, dcbsi := dcbsi d + (if u then n + n' else 0)\<rparr>)"
    by (simp add: bindA_Inr [where m = m, OF m])
qed

lemma reads_map: "reads u bo m x bs n \<Longrightarrow> g x = y \<Longrightarrow> reads u bo (bindA m (\<lambda>x. retA (g x))) y bs n"
  using reads_bind [of u bo m x bs n "\<lambda>x. retA (g x)" y "[]" 0] reads_const [of u bo y] by simp

lemma trip_each:
  assumes "\<And>x. x \<in> set xs \<Longrightarrow> trip u bo (f x) () (df (z x)) x (k x)"
  shows "trip u bo (eachA f xs) () (mapA df (map z xs)) xs (sum_list (map k xs))"
  using assms
proof (induction xs)
  case Nil
  have "writes bo (eachA f []) () [] 0" "reads u bo (mapA df (map z [])) [] [] 0"
    by (auto simp: writes_def reads_def)
  then have "trip u bo (eachA f []) () (mapA df (map z [])) [] 0" by (rule tripI)
  then show ?case by (simp only: list.map sum_list.Nil)
next
  case (Cons x xs)
  then obtain bs cs where x: "writes bo (f x) () bs (k x)" "reads u bo (df (z x)) x bs (k x)"
    and xs: "writes bo (eachA f xs) () cs (sum_list (map k xs))" "reads u bo (mapA df (map z xs)) xs cs (sum_list (map k xs))"
    by (force simp: trip_def)
  have "eachA f (x # xs) = seqA (f x) (eachA f xs)"
    "mapA df (map z (x # xs)) = bindA (df (z x)) (\<lambda>y. bindA (mapA df (map z xs)) (\<lambda>ys. retA (y # ys)))"
    by (rule ext, simp)+
  then show ?case
    using writes_seq [OF x(1) xs(1)] reads_bind [OF x(2) reads_map [OF xs(2)]]
    by (auto simp: trip_def)
qed

lemma trip_each_until:
  assumes "\<And>x. x \<in> set xs \<Longrightarrow> trip u bo (f x) False (df (z x)) (x, False) (k x)"
  shows "trip u bo (eachUntilA f xs) () (mapUntilA df (map z xs)) xs (sum_list (map k xs))"
  using assms
proof (induction xs)
  case Nil
  have "writes bo (eachUntilA f []) () [] 0" "reads u bo (mapUntilA df (map z [])) [] [] 0"
    by (auto simp: writes_def reads_def)
  then have "trip u bo (eachUntilA f []) () (mapUntilA df (map z [])) [] 0" by (rule tripI)
  then show ?case by (simp only: list.map sum_list.Nil)
next
  case (Cons x xs)
  then obtain bs cs where x: "writes bo (f x) False bs (k x)" "reads u bo (df (z x)) (x, False) bs (k x)"
    and xs: "writes bo (eachUntilA f xs) () cs (sum_list (map k xs))"
      "reads u bo (mapUntilA df (map z xs)) xs cs (sum_list (map k xs))"
    by (force simp: trip_def)
  let ?rest = "\<lambda>r. ifA (snd r) (retA (fst r # map z xs)) (bindA (mapUntilA df (map z xs)) (\<lambda>ys. retA (fst r # ys)))"
  have eqs: "eachUntilA f (x # xs) = bindA (f x) (\<lambda>stop. ifA stop (retA ()) (eachUntilA f xs))"
    "mapUntilA df (map z (x # xs)) = bindA (df (z x)) ?rest"
    by (rule ext, simp)+
  have "ifA False (retA ()) (eachUntilA f xs) = eachUntilA f xs" by (rule ext) (simp add: ifA_def)
  then have w: "writes bo (eachUntilA f (x # xs)) () (bs @ cs) (k x + sum_list (map k xs))"
    unfolding eqs using xs(1) by (intro writes_bind [OF x(1)]) simp
  have "?rest (x, False) = bindA (mapUntilA df (map z xs)) (\<lambda>ys. retA (x # ys))" by (rule ext) (simp add: ifA_def)
  then have "reads u bo (mapUntilA df (map z (x # xs))) (x # xs) (bs @ cs) (k x + sum_list (map k xs))"
    unfolding eqs using reads_map [OF xs(2)] by (intro reads_bind [OF x(2)]) simp
  with w have "trip u bo (eachUntilA f (x # xs)) () (mapUntilA df (map z (x # xs))) (x # xs) (k x + sum_list (map k xs))"
    by (rule tripI)
  then show ?case by (simp only: list.map sum_list.Cons)
qed

lemma writes_without_ecbs: "writes bo m () bs n \<Longrightarrow> writes bo (without_ecbs m) () bs 0"
  unfolding writes_def without_ecbs_def by (auto split: prod.splits)

lemma reads_without_dcbs: "reads False bo m x bs n \<Longrightarrow> reads u bo (without_dcbs m) x bs 0"
  unfolding reads_def without_dcbs_def by (auto simp: bits_set_def split: prod.splits)

section \<open>The round trip\<close>

lemma codec_trip:
  assumes "\<And>s. m s = (Inr (), emit (w (eorder s)) s)"
    and "\<And>d rest. dorder d = Some bo \<Longrightarrow> dbuf d = w bo @ rest \<Longrightarrow> dm d = (Inr x, d\<lparr>dbuf := rest\<rparr>)"
  shows "trip u bo m () dm x 0"
  by (rule tripI [of _ _ _ "w bo"]) (auto simp: writes_def reads_def assms emit_def)

lemma trip_map: "trip u bo m r dm x n \<Longrightarrow> g x = y \<Longrightarrow> trip u bo m r (bindA dm (\<lambda>x. retA (g x))) y n"
  unfolding trip_def by (elim exE conjE) (intro exI conjI, assumption, rule reads_map)

lemma trip_seq:
  assumes "trip u bo m () dm x n" and "trip u bo m' r (f x) y n'"
  shows "trip u bo (seqA m m') r (bindA dm f) y (n + n')"
proof -
  obtain bs bs' where "writes bo m () bs n" "reads u bo dm x bs n" "writes bo m' r bs' n'" "reads u bo (f x) y bs' n'"
    using assms by (auto simp: trip_def)
  then show ?thesis by (intro tripI [OF writes_seq reads_bind])
qed

lemma trip_prim:
  assumes "prim_ok p"
  shows "trip u bo (enc_prim p) () (dec_prim (prim_zero p)) p 0"
  using assms by (intro codec_trip [where w = "\<lambda>bo. prim_wire bo p"] prim_enc prim_dec) (cases p; simp)

lemma trip_size: "trip u bo (PVSize_PVEncode w) () PVSize_PVDecode (size_norm w) 0"
  by (rule codec_trip [where w = "\<lambda>bo. size_wire bo w"]) (simp_all add: PVSize_enc PVSize_dec)

lemma trip_desc: "wf_fdesc f \<Longrightarrow> trip u bo (FieldDesc_PVEncode f) () (FieldDesc_PVDecode zero_fdesc) f 0"
  by (rule codec_trip [where w = "\<lambda>bo. fdesc_wire bo f"]) (simp_all add: FieldDesc_enc FieldDesc_dec del: wf_fdesc.simps)

lemma trip_string: "string_ok v \<Longrightarrow> trip u bo (PVString_PVEncode v) () PVString_PVDecode v 0"
  by (rule codec_trip [where w = "\<lambda>bo. string_wire bo v"]) (simp_all add: PVString_enc PVString_dec)

lemma trip_time:
  assumes "0 \<le> sint nsec" "sint nsec < 1000000000"
  shows "trip u bo (Time_PVEncode sec nsec tag) () Time_PVDecode (GTime sec nsec tag) 0"
proof -
  have long: "trip u bo (PVLong_PVEncode sec) () PVLong_PVDecode sec 0"
    by (rule codec_trip [where w = "\<lambda>bo. put_uint bo 8 sec"]) (auto simp: scalar_enc_defs scalar_dec_defs act_simps ReadUint_put)
  have int: "trip u bo (PVInt_PVEncode i) () PVInt_PVDecode i 0" for i
    by (rule codec_trip [where w = "\<lambda>bo. put_uint bo 4 i"]) (auto simp: scalar_enc_defs scalar_dec_defs act_simps ReadUint_put)
  let ?tag = "\<lambda>sec nsec. bindA PVInt_PVDecode (\<lambda>tag.
     case time_unix sec (sint nsec) of (sec', nsec') \<Rightarrow> retA (GTime sec' nsec' tag))"
  have "time_unix sec (sint nsec) = (sec, nsec)"
    using assms by (simp add: time_unix_def)
  then have "trip u bo (PVInt_PVEncode tag) () (?tag sec nsec) (GTime sec nsec tag) 0"
    by (simp add: trip_map [OF int])
  from trip_seq [OF int, where f = "?tag sec", OF this]
  have "trip u bo (seqA (PVInt_PVEncode nsec) (PVInt_PVEncode tag)) () (bindA PVInt_PVDecode (?tag sec)) (GTime sec nsec tag) 0"
    by simp
  from trip_seq [OF long, where f = "\<lambda>sec. bindA PVInt_PVDecode (?tag sec)", OF this]
  show ?thesis by (simp add: Time_PVEncode_def Time_PVDecode_def)
qed

lemma trip_direct:
  assumes "trips_direct g"
  shows "trip u bo (enc_direct g) () (dec_direct (blank g)) g 0"
proof (cases g)
  case (GPrim named p)
  then show ?thesis using assms by (simp add: trip_map [OF trip_prim])
next
  case (GSize w)
  then show ?thesis using assms by (simp add: trip_map [OF trip_size])
next
  case (GStatus st)
  have "trip u bo (PVStatus_PVEncode st) () PVStatus_PVDecode st 0"
    using assms GStatus by (intro codec_trip [where w = "\<lambda>bo. status_wire bo st"]) (simp_all add: PVStatus_enc PVStatus_dec)
  then show ?thesis using GStatus by (simp add: trip_map)
next
  case (GBitSet bits)
  then have bits: "bitset_ok bits" "bitset_trim bits = bits" using assms by simp_all
  have "trip u bo (PVBitSet_PVEncode bits) () PVBitSet_PVDecode bits 0"
    using PVBitSet_dec [OF bits(1)] bits(2)
    by (intro codec_trip [where w = "\<lambda>bo. bitset_wire bo bits"]) (simp_all add: PVBitSet_enc)
  then show ?thesis using GBitSet by (simp add: trip_map)
next
  case (GDesc f)
  then show ?thesis using assms by (simp add: trip_map [OF trip_desc])
next
  case (GTime sec nsec tag)
  then show ?thesis using assms trip_time by simp
next
  case (GBounded s b)
  then show ?thesis
    using assms by (simp add: PVBoundedString_PVEncode_def trip_map [OF trip_string])
qed (use assms in simp_all)

lemma map_blank: "list_all (\<lambda>e. blank e = z) es \<Longrightarrow> map blank es = replicate (length es) z"
  by (induction es) auto

definition blank_field :: "string \<times> string \<times> gval \<Rightarrow> string \<times> string \<times> gval" where
  "blank_field f = (fst f, fst (snd f), blank (snd (snd f)))"

lemma valueToPVField_status [simp]: "valueToPVField os (GStatus st) = (GStatus st, Some (HDirect, GStatus st))"
proof (induction os)
  case (Cons o' os)
  then show ?case by (cases o') simp_all
qed simp

lemma break_status: "break_on_error g = Inr b \<Longrightarrow> \<exists>st. g = GStatus st"
  by (cases g) simp_all

lemma sum_opt_Some:
  "sum_opt (map f xs) = Some n \<Longrightarrow> (\<forall>x \<in> set xs. f x \<noteq> None) \<and> n = sum_list (map (\<lambda>x. the (f x)) xs)"
proof (induction xs arbitrary: n)
  case (Cons x xs)
  then show ?case by (cases "f x") auto
qed simp

lemma trip_len:
  assumes "if short then n < 2 ^ 16 else len_ok n"
  shows "trip u bo (array_len_enc False short n) () (array_len_dec short) (of_nat n) 0"
proof (cases short)
  case True
  have "ucast (of_nat n :: 16 word) = (of_nat n :: 64 word)"
    using assms True by (intro word_uint_eqI) (simp add: unsigned_ucast_eq unsigned_of_nat take_bit_nat_eq_self
        take_bit_int_eq_self uint_nat)
  moreover have "trip u bo (PVUShort_PVEncode (of_nat n)) () PVUShort_PVDecode (of_nat n) 0"
    by (rule codec_trip [where w = "\<lambda>bo. put_uint bo 2 (of_nat n :: 16 word)"])
      (auto simp: scalar_enc_defs scalar_dec_defs act_simps ReadUint_put)
  ultimately show ?thesis
    using True by (simp add: array_len_enc_def array_len_dec_def whenA_def [abs_def] trip_map)
next
  case False
  with assms show ?thesis
    using trip_size [of u bo "len_word n"]
    by (simp add: array_len_enc_def array_len_dec_def whenA_def [abs_def] len_word_def [symmetric])
qed

lemma dec_struct_blank:
  "dec_pv (HStruct v i) (blank (GStruct j fs)) d =
     bindA (mapUntilA (dec_field (full_struct d)) (map blank_field fs)) (\<lambda>fs'. retA (GStruct j fs')) d"
  by (simp add: dec_pv.simps blank_field_def [abs_def])

lemma dec_slice_blank:
  "dec_pv (HArray False short) (blank (GSlice z es [])) =
     without_dcbs (bindA (array_len_dec short) (\<lambda>n. ifA (sint n < 0) (failA (Panic SetLenRange))
       (bindA (mapA dec_elem (replicate (nat (sint n)) z)) (\<lambda>es'. retA (GSlice z es' [])))))"
proof -
  have "slice_resize z k [] = replicate k z" for k
    by (simp add: slice_resize_def)
  then show ?thesis by (intro ext) (simp add: dec_pv.simps)
qed

lemma dec_array_blank:
  "dec_pv (HArray True short) (blank (GArray z es)) =
     without_dcbs (bindA (mapA dec_elem (replicate (length es) z)) (\<lambda>es'. retA (GArray z es')))"
  by (intro ext) (simp add: dec_pv.simps)

lemma of_nat_len:
  assumes "if short then n < 2 ^ 16 else len_ok n"
  shows "sint (of_nat n :: 64 word) = int n"
proof -
  have "len_ok n" using assms by (auto simp: len_ok_def split: if_splits)
  then show ?thesis using sint_len_word [of n] by (simp add: len_word_def)
qed

lemma trip_slice:
  assumes "if short then length es < 2 ^ 16 else len_ok (length es)" and "list_all (\<lambda>e. blank e = z) es"
    and "\<And>e u bo. e \<in> set es \<Longrightarrow> trip u bo (enc_elem e) () (dec_elem (blank e)) e (k e)"
  shows "trip u bo (enc_pv (HArray False short) (GSlice z es [])) () (dec_pv (HArray False short) (blank (GSlice z es []))) (GSlice z es []) 0"
proof -
  let ?dec = "\<lambda>n :: 64 word. ifA (sint n < 0) (failA (Panic SetLenRange))
       (bindA (mapA dec_elem (replicate (nat (sint n)) z)) (\<lambda>es'. retA (GSlice z es' [])))"
  have "trip False bo (eachA enc_elem es) () (mapA dec_elem (map blank es)) es (sum_list (map k es))"
    by (rule trip_each) (rule assms(3))
  then have "trip False bo (eachA enc_elem es) () (bindA (mapA dec_elem (replicate (length es) z)) (\<lambda>es'. retA (GSlice z es' [])))
      (GSlice z es []) (sum_list (map k es))"
    by (simp add: map_blank [OF assms(2)] trip_map)
  moreover have "?dec (of_nat (length es)) = bindA (mapA dec_elem (replicate (length es) z)) (\<lambda>es'. retA (GSlice z es' []))"
    by (simp add: of_nat_len [OF assms(1)])
  ultimately have "trip False bo (eachA enc_elem es) () (?dec (of_nat (length es))) (GSlice z es []) (sum_list (map k es))"
    by (simp only:)
  from trip_seq [OF trip_len [OF assms(1)], where f = ?dec, OF this]
  obtain bs n where "writes bo (seqA (array_len_enc False short (length es)) (eachA enc_elem es)) () bs n"
    "reads False bo (bindA (array_len_dec short) ?dec) (GSlice z es []) bs n"
    by (auto simp: trip_def)
  then have "trip u bo (without_ecbs (seqA (array_len_enc False short (length es)) (eachA enc_elem es))) ()
      (without_dcbs (bindA (array_len_dec short) ?dec)) (GSlice z es []) 0"
    by (intro tripI [OF writes_without_ecbs reads_without_dcbs])
  moreover have "enc_pv (HArray False short) (GSlice z es []) =
      without_ecbs (seqA (array_len_enc False short (length es)) (eachA enc_elem es))"
    by (rule ext) (simp add: enc_pv.simps)
  ultimately show ?thesis by (simp only: dec_slice_blank)
qed

lemma trip_array:
  assumes "list_all (\<lambda>e. blank e = z) es"
    and "\<And>e u bo. e \<in> set es \<Longrightarrow> trip u bo (enc_elem e) () (dec_elem (blank e)) e (k e)"
  shows "trip u bo (enc_pv (HArray True short) (GArray z es)) () (dec_pv (HArray True short) (blank (GArray z es))) (GArray z es) 0"
proof -
  have "trip False bo (eachA enc_elem es) () (mapA dec_elem (map blank es)) es (sum_list (map k es))"
    by (rule trip_each) (rule assms(2))
  then have "trip False bo (eachA enc_elem es) () (bindA (mapA dec_elem (replicate (length es) z)) (\<lambda>es'. retA (GArray z es')))
      (GArray z es) (sum_list (map k es))"
    by (simp add: map_blank [OF assms(1)] trip_map)
  then obtain bs n where "writes bo (eachA enc_elem es) () bs n"
    "reads False bo (bindA (mapA dec_elem (replicate (length es) z)) (\<lambda>es'. retA (GArray z es'))) (GArray z es) bs n"
    by (auto simp: trip_def)
  then have "trip u bo (without_ecbs (eachA enc_elem es)) ()
      (without_dcbs (bindA (mapA dec_elem (replicate (length es) z)) (\<lambda>es'. retA (GArray z es')))) (GArray z es) 0"
    by (intro tripI [OF writes_without_ecbs reads_without_dcbs])
  moreover have "enc_pv (HArray True short) (GArray z es) = without_ecbs (eachA enc_elem es)"
    by (rule ext) (simp add: enc_pv.simps array_len_enc_def seqA_def bindA_def whenA_def without_ecbs_def)
  ultimately show ?thesis by (simp only: dec_array_blank)
qed

lemma trip_struct:
  assumes "\<And>f u bo full. f \<in> set fs \<Longrightarrow> (\<not> u \<longrightarrow> full) \<Longrightarrow>
      trip u bo (enc_field f) False (dec_field full (blank_field f)) (f, False) (k f)"
  shows "trip u bo (enc_pv (HStruct v i) (GStruct j fs)) () (dec_pv (HStruct v i) (blank (GStruct j fs)))
      (GStruct j fs) (sum_list (map k fs))"
proof -
  have "\<exists>bs. writes bo (eachUntilA enc_field fs) () bs (sum_list (map k fs)) \<and>
      reads u bo (mapUntilA (dec_field full) (map blank_field fs)) fs bs (sum_list (map k fs))"
    if "\<not> u \<longrightarrow> full" for full
    using trip_each_until [of fs u bo enc_field "dec_field full" blank_field k] assms that by (auto simp: trip_def)
  note both = this
  obtain bs where w: "writes bo (eachUntilA enc_field fs) () bs (sum_list (map k fs))"
    using both [of True] by auto
  have r: "reads u bo (mapUntilA (dec_field full) (map blank_field fs)) fs bs (sum_list (map k fs))"
    if full: "\<not> u \<longrightarrow> full" for full
  proof -
    from both [OF full] obtain cs where "writes bo (eachUntilA enc_field fs) () cs (sum_list (map k fs))"
      and cs: "reads u bo (mapUntilA (dec_field full) (map blank_field fs)) fs cs (sum_list (map k fs))" by blast
    with w have "ebuf (encoder bo) @ bs = ebuf (encoder bo) @ cs"
      using writesD [OF w, of "encoder bo"] writesD [of bo _ "()" cs _ "encoder bo"] by (metis (no_types, lifting)
          encoder_sel(2) estate.select_convs(1) estate.surjective estate.update_convs(1,3) prod.inject)
    with cs show ?thesis by simp
  qed
  show ?thesis
  proof (rule tripI)
    show "writes bo (enc_pv (HStruct v i) (GStruct j fs)) () bs (sum_list (map k fs))"
      using w by (simp add: writes_def enc_pv.simps)
    show "reads u bo (dec_pv (HStruct v i) (blank (GStruct j fs))) (GStruct j fs) bs (sum_list (map k fs))"
      unfolding reads_def
    proof (intro allI impI)
      fix d :: dstate and rest
      assume d: "dorder d = Some bo" "ducbs d = u" "dbuf d = bs @ rest" "bits_set d (sum_list (map k fs))"
      have "reads u bo (bindA (mapUntilA (dec_field (full_struct d)) (map blank_field fs)) (\<lambda>fs'. retA (GStruct j fs')))
          (GStruct j fs) bs (sum_list (map k fs))"
        using d(2) by (intro reads_map [OF r]) (simp_all add: full_struct_def)
      from readsD [OF this d] show "dec_pv (HStruct v i) (blank (GStruct j fs)) d =
          (Inr (GStruct j fs), d\<lparr>dbuf := rest, dcbsi := dcbsi d + (if u then sum_list (map k fs) else 0)\<rparr>)"
        unfolding dec_struct_blank .
    qed
  qed
qed

lemma trip_elem:
  assumes conv: "field_of g = Some (h, t)" and "\<not> is_iface g" and "h \<noteq> HNil"
    and nost: "(case h of HStruct True i \<Rightarrow> True | _ \<Rightarrow> False) = False"
    and t: "trip u bo (enc_pv h t) () (dec_pv h (blank t)) t n"
  shows "trip u bo (enc_elem g) () (dec_elem (blank g)) g n"
proof -
  have b: "field_of (blank g) = Some (h, blank t)" "plug (blank g) t = g"
    using field_of_blank [OF conv] assms(2,3) by simp_all
  have "enc_elem g = enc_pv h t"
    using nost by (intro ext) (simp add: enc_elem.simps conv whenA_def seqA_def bindA_def)
  moreover have "dec_elem (blank g) = bindA (dec_pv h (blank t)) (\<lambda>t'. retA (plug (blank g) t'))"
    by (rule ext) (simp add: dec_elem.simps b)
  ultimately show ?thesis using t b(2) by (simp add: trip_map)
qed

lemma trip_field:
  assumes conv: "snd (valueToPVField (field_options (fst (snd f))) (snd (snd f))) = Some (h, t)"
    and "\<not> is_iface (snd (snd f))" "h \<noteq> HNil" "\<not> list_ex is_always (field_options (fst (snd f)))"
    and "\<not> field_omitted f"
    and brk: "has_tag (snd (parse_tag (fst (snd f)))) ''breakonerror'' \<Longrightarrow> break_on_error (snd (snd f)) = Inr False"
    and t: "trip u bo (enc_pv h t) () (dec_pv h (blank t)) t n" and full: "\<not> u \<longrightarrow> full"
  shows "trip u bo (enc_field f) False (dec_field full (blank_field f)) (f, False) (Suc n)"
proof -
  obtain go tag g where f: "f = (go, tag, g)" by (cases f)
  let ?os = "field_options tag" and ?b = "has_tag (snd (parse_tag tag)) ''breakonerror''"
  have b: "valueToPVField ?os (blank g) = (blank g, Some (h, blank t))" "plug (blank g) t = g"
    using valueToPVField_blank [of ?os g h t] assms(1-4) by (simp_all add: f)
  have stop: "(if ?b then if h = HDirect then break_on_error t else Inl (Panic TypeAssertion) else Inr False) = Inr False"
    "(if ?b then break_on_error g else Inr False) = Inr False"
  proof -
    have "h = HDirect \<and> t = g" if ?b
      using break_status [OF brk] conv that by (auto simp: f)
    then show "(if ?b then if h = HDirect then break_on_error t else Inl (Panic TypeAssertion) else Inr False) = Inr False"
      "(if ?b then break_on_error g else Inr False) = Inr False"
      using brk by (auto simp: f)
  qed
  from t obtain bs where w: "writes bo (enc_pv h t) () bs n" and r: "reads u bo (dec_pv h (blank t)) t bs n"
    by (auto simp: trip_def)
  have "enc_field f = seqA record_changed (seqA (enc_pv h t) (liftA (Inr False)))"
    using assms(5) conv stop(1) by (intro ext) (cases ?b; cases "h = HDirect"; simp add: enc_field.simps f)
  moreover have "writes bo record_changed () [] 1"
    by (auto simp: writes_def record_changed_def)
  then have "writes bo (seqA record_changed (seqA (enc_pv h t) (liftA (Inr False)))) False ([] @ bs @ []) (1 + (n + 0))"
    by (intro writes_seq w writes_const)
  ultimately have W: "writes bo (enc_field f) False bs (Suc n)" by simp
  have "reads u bo (dec_field full (blank_field f)) (f, False) bs (Suc n)"
    unfolding reads_def
  proof (intro allI impI)
    fix d :: dstate and rest
    assume d: "dorder d = Some bo" "ducbs d = u" "dbuf d = bs @ rest" "bits_set d (Suc n)"
    let ?d = "if u then d\<lparr>dcbsi := dcbsi d + 1\<rparr> else d"
    have sel: "field_selected full h ?d"
      using full d(2,4) by (auto simp: field_selected_def bits_set_def)
    have "bits_set ?d n"
      using d(2,4) by (auto simp: bits_set_def dest: spec [of _ "Suc _"])
    then have "dec_pv h (blank t) ?d = (Inr t, ?d\<lparr>dbuf := rest, dcbsi := dcbsi ?d + (if u then n else 0)\<rparr>)"
      using d by (intro readsD [OF r]) simp_all
    then show "dec_field full (blank_field f) d = (Inr (f, False), d\<lparr>dbuf := rest, dcbsi := dcbsi d + (if u then Suc n else 0)\<rparr>)"
      using sel d(2) b stop
      by (simp add: f blank_field_def dec_field.simps seqA_def bindA_def next_field_def ifA_def retA_def liftA_def)
  qed
  with W show ?thesis by (rule tripI)
qed

lemma trips:
  "\<forall>n u bo. trips_pv h g = Some n \<longrightarrow> trip u bo (enc_pv h g) () (dec_pv h (blank g)) g n"
  "trips_elem g \<longrightarrow> (\<exists>n. \<forall>u bo. trip u bo (enc_elem g) () (dec_elem (blank g)) g n)"
  "\<forall>n u bo full. trips_field f = Some n \<longrightarrow> (\<not> u \<longrightarrow> full) \<longrightarrow>
     trip u bo (enc_field f) False (dec_field full (blank_field f)) (f, False) n"
  "\<forall>n u bo. trips_value v = Some n \<longrightarrow> trip u bo (enc_value v) () (dec_value (map_option blank v)) v n"
proof (induction h g and g and f and v rule: coder_induct)
  case (pv h g)
  show ?case
  proof (intro allI impI)
    fix n u bo assume ok: "trips_pv h g = Some n"
    show "trip u bo (enc_pv h g) () (dec_pv h (blank g)) g n"
    proof (cases h)
      case HDirect
      show ?thesis
      proof (cases "\<exists>v. g = GAny v")
        case False
        moreover from False ok have g: "trips_direct g" "n = 0"
          by (cases g; auto simp: HDirect trips_pv.simps split: if_splits)+
        moreover from this(1) have "enc_pv HDirect g = enc_direct g" "dec_pv HDirect (blank g) = dec_direct (blank g)"
          using False by (cases g; auto simp: enc_pv.simps dec_pv.simps intro!: ext)+
        ultimately show ?thesis using trip_direct [OF g(1)] by (simp add: HDirect)
      next
        case True
        then obtain d where g: "g = GAny d" ..
        have dec: "dec_pv HDirect (blank g) = bindA (FieldDesc_PVDecode zero_fdesc) (\<lambda>f.
            ifA (TypeCode (fd_head f) = NULL_TYPE_CODE) (retA (GAny None))
              (bindA (liftA (createZero f)) (\<lambda>p. bindA (dec_value p) (\<lambda>p'. retA (GAny p')))))" (is "_ = bindA _ ?rest")
          by (rule ext) (simp add: g dec_pv.simps)
        show ?thesis
        proof (cases d)
          case None
          have "wf_fdesc (code_desc NULL_TYPE_CODE)"
            by (simp add: code_desc_def wf_head_def zero_head_def size_norm_def)
          from trip_map [OF trip_desc [OF this], of "\<lambda>_. GAny None" g u bo]
          have "trip u bo (FieldDesc_PVEncode (code_desc NULL_TYPE_CODE)) ()
              (bindA (FieldDesc_PVDecode zero_fdesc) (\<lambda>_. retA (GAny None))) g 0" by (simp add: g None)
          then obtain bs where w: "writes bo (FieldDesc_PVEncode (code_desc NULL_TYPE_CODE)) () bs 0"
            by (auto simp: trip_def)
          have "trip u bo (FieldDesc_PVEncode (code_desc NULL_TYPE_CODE)) () (FieldDesc_PVDecode zero_fdesc) (code_desc NULL_TYPE_CODE) 0"
            by (rule trip_desc) fact
          then obtain cs where cs: "writes bo (FieldDesc_PVEncode (code_desc NULL_TYPE_CODE)) () cs 0"
            "reads u bo (FieldDesc_PVDecode zero_fdesc) (code_desc NULL_TYPE_CODE) cs 0" by (auto simp: trip_def)
          have "?rest (code_desc NULL_TYPE_CODE) = retA (GAny None)" by (simp add: code_desc_def)
          then have "reads u bo (bindA (FieldDesc_PVDecode zero_fdesc) ?rest) g (cs @ []) (0 + 0)"
            using reads_const(1) [of u bo "GAny None"] by (intro reads_bind [OF cs(2)]) (simp add: g None)
          moreover have "enc_pv HDirect g = FieldDesc_PVEncode (code_desc NULL_TYPE_CODE)"
            by (rule ext) (simp add: g None enc_pv.simps)
          moreover have "n = 0" using ok by (simp add: HDirect g None trips_pv.simps)
          ultimately show ?thesis using cs(1) by (auto simp: HDirect dec intro: tripI)
        next
          case (Some v)
          from ok obtain fd' where fd': "desc_loc (GIface (Some v)) = Inr fd'" "wf_fdesc (wire_desc fd')"
            "TypeCode (fd_head fd') \<noteq> NULL_TYPE_CODE" "createZero (wire_desc fd') = Inr (Some (blank v))" and val: "trips_value (Some v) = Some n"
            by (auto simp: HDirect g Some trips_pv.simps split: sum.splits if_splits)
          define fd where "fd = wire_desc fd'"
          then have fd: "wf_fdesc fd" "TypeCode (fd_head fd) \<noteq> NULL_TYPE_CODE" "createZero fd = Inr (Some (blank v))"
            using fd' by simp_all
          from pv(3) [OF g] val have "trip u bo (enc_value (Some v)) () (dec_value (Some (blank v))) (Some v) n"
            by (simp add: Some)
          then have "trip u bo (enc_value (Some v)) () (bindA (dec_value (Some (blank v))) (\<lambda>p'. retA (GAny p'))) g n"
            by (rule trip_map) (simp add: g Some)
          moreover have "?rest fd = bindA (dec_value (Some (blank v))) (\<lambda>p'. retA (GAny p'))"
            using fd(2,3) by (intro ext) (simp add: bindA_def liftA_def)
          ultimately have "trip u bo (enc_value (Some v)) () (?rest fd) g n" by simp
          from trip_seq [OF trip_desc [OF fd(1)], where f = ?rest, OF this]
          have "trip u bo (seqA (FieldDesc_PVEncode fd) (enc_value (Some v))) () (dec_pv HDirect (blank g)) g n"
            by (simp add: dec)
          moreover have "enc_pv HDirect g = seqA (FieldDesc_PVEncode fd) (enc_value (Some v))"
            by (rule ext) (simp add: g Some enc_pv.simps fd'(1) fd_def FieldDesc_PVEncode_wire_desc bindA_def liftA_def
                del: desc_loc.simps)
          ultimately show ?thesis by (simp add: HDirect)
        qed
      qed
    next
      case (HBounded b)
      from ok obtain v where g: "g = GPrim False (PVString v)" and "int (length v) \<le> sint (word_of_int b :: 64 word)"
        and v: "string_ok v" and n: "n = 0"
        unfolding HBounded by (auto simp: trips_pv.simps split: gval.splits bool.splits prim.splits if_splits)
      then have "enc_pv h g = PVString_PVEncode v"
        "dec_pv h (blank g) = bindA PVString_PVDecode (\<lambda>v'. retA (GPrim False (PVString v')))"
        by (auto simp: HBounded enc_pv.simps dec_pv.simps PVBoundedString_PVEncode_def intro!: ext)
      then show ?thesis using n by (simp add: g trip_map [OF trip_string [OF v]])
    next
      case HNil
      with ok show ?thesis by (simp add: trips_pv.simps)
    next
      case (HArray fixed short)
      have elems: "\<exists>k. \<forall>e \<in> set es. \<forall>u bo. trip u bo (enc_elem e) () (dec_elem (blank e)) e (k e)"
        if "list_all trips_elem es" "set es \<subseteq> elems_of g" for es
        using pv(1) that by (intro bchoice) (auto simp: list_all_iff)
      show ?thesis
      proof (cases g)
        case (GSlice z es sp)
        with ok have es: "\<not> fixed" "sp = []" "if short then length es < 2 ^ 16 else len_ok (length es)"
          "list_all (\<lambda>e. blank e = z) es" "list_all trips_elem es" "n = 0"
          by (auto simp: HArray trips_pv.simps split: if_splits)
        have "set es \<subseteq> elems_of g" by (auto simp: GSlice)
        from elems [OF es(5) this]
        obtain k where "\<And>e u bo. e \<in> set es \<Longrightarrow> trip u bo (enc_elem e) () (dec_elem (blank e)) e (k e)" by blast
        from trip_slice [OF es(3,4) this] show ?thesis using es by (simp add: HArray GSlice del: blank.simps)
      next
        case (GArray z es)
        with ok have es: "fixed" "list_all (\<lambda>e. blank e = z) es" "list_all trips_elem es" "n = 0"
          by (auto simp: HArray trips_pv.simps split: if_splits)
        have "set es \<subseteq> elems_of g" by (auto simp: GArray)
        from elems [OF es(3) this]
        obtain k where "\<And>e u bo. e \<in> set es \<Longrightarrow> trip u bo (enc_elem e) () (dec_elem (blank e)) e (k e)" by blast
        from trip_array [OF es(2) this] show ?thesis using es by (simp add: HArray GArray del: blank.simps)
      qed (use ok in \<open>simp_all add: HArray trips_pv.simps\<close>)
    next
      case (HStruct w i)
      from ok obtain j fs where g: "g = GStruct j fs" and sum: "sum_opt (map trips_field fs) = Some n"
        by (auto simp: HStruct trips_pv.simps split: gval.splits)
      have "trip u bo (enc_field f) False (dec_field full (blank_field f)) (f, False) (the (trips_field f))"
        if "f \<in> set fs" "\<not> u \<longrightarrow> full" for f u bo full
        using pv(2) [of f] that sum_opt_Some [OF sum] by (auto simp: g)
      from trip_struct [of fs, OF this] show ?thesis
        using sum_opt_Some [OF sum] by (simp add: HStruct g del: blank.simps)
    qed
  qed
next
  case (elem g)
  show ?case
  proof
    assume "trips_elem g"
    then obtain h t where "field_of g = Some (h, t)" "\<not> is_iface g"
      "(case h of HStruct True i \<Rightarrow> True | _ \<Rightarrow> False) = False" and ok: "trips_pv h t \<noteq> None"
      by (auto simp: trips_elem.simps split: option.splits how.splits bool.splits)
    moreover from ok have "h \<noteq> HNil" by (auto simp: trips_pv.simps)
    moreover from ok obtain n where "trips_pv h t = Some n" by blast
    ultimately show "\<exists>n. \<forall>u bo. trip u bo (enc_elem g) () (dec_elem (blank g)) g n"
      using elem [of h t] trip_elem by blast
  qed
next
  case (field f)
  show ?case
  proof (intro allI impI)
    fix n u bo full assume ok: "trips_field f = Some n" and full: "\<not> u \<longrightarrow> full"
    let ?brk = "has_tag (snd (parse_tag (fst (snd f)))) ''breakonerror''"
    have c: "\<not> field_omitted f" "\<not> is_iface (snd (snd f))" "\<not> list_ex is_always (field_options (fst (snd f)))"
      using ok by (auto simp: trips_field.simps split: if_splits)
    from ok c obtain h t where conv: "snd (valueToPVField (field_options (fst (snd f))) (snd (snd f))) = Some (h, t)"
      by (cases "snd (valueToPVField (field_options (fst (snd f))) (snd (snd f)))") (auto simp: trips_field.simps)
    have brk: "break_on_error (snd (snd f)) = Inr False" if ?brk
      using ok c conv that by (simp add: trips_field.simps split: if_splits)
    obtain m where m: "trips_pv h t = Some m" and n: "n = Suc m"
      using ok c conv by (auto simp: trips_field.simps split: if_splits)
    note c conv brk m n
    moreover from m have "h \<noteq> HNil" by (auto simp: trips_pv.simps)
    moreover have "trip u bo (enc_pv h t) () (dec_pv h (blank t)) t m" using field [OF conv] m by blast
    ultimately show "trip u bo (enc_field f) False (dec_field full (blank_field f)) (f, False) n"
      unfolding n using full by (intro trip_field)
  qed
next
  case (val v)
  show ?case
  proof (intro allI impI)
    fix n u bo assume ok: "trips_value v = Some n"
    then obtain h t where var: "iface_var v = Inr (Some (h, t))" and ni: "\<not> list_ex is_iface (pointee v)"
      and pv: "trips_pv h t = Some n"
      by (auto simp: trips_value.simps split: sum.splits option.splits if_splits)
    from pv have h: "h \<noteq> HNil" by (auto simp: trips_pv.simps)
    from var obtain w where v: "v = Some w" by (cases v) (auto simp: iface_var_def)
    have b: "iface_var (Some (blank w)) = Inr (Some (h, blank t)) \<and> plug_iface (blank w) t = w"
    proof (cases w)
      case (GPtr x)
      then show ?thesis using field_of_blank [of x h t] var ni h by (simp add: v iface_var_def pointee_def)
    qed (use var h in \<open>auto simp: v iface_var_def split: if_splits\<close>)
    have "trip u bo (enc_pv h t) () (dec_pv h (blank t)) t n"
      using val [OF iface_var_field [OF var]] pv by blast
    then have "trip u bo (enc_pv h t) () (bindA (dec_pv h (blank t)) (\<lambda>t'. retA (Some (plug_iface (blank w) t')))) v n"
      by (rule trip_map) (simp add: b v)
    moreover have "enc_value v = enc_pv h t"
      using iface_var_field [OF var] by (intro ext) (simp add: enc_value.simps)
    moreover have "dec_value (map_option blank v) = bindA (dec_pv h (blank t)) (\<lambda>t'. retA (Some (plug_iface (blank w) t')))"
      using b by (intro ext) (simp add: dec_value.simps v)
    ultimately show "trip u bo (enc_value v) () (dec_value (map_option blank v)) v n" by simp
  qed
qed

section \<open>Partial structures\<close>

text \<open>
  A structure some of whose fields are on the wire: a tree of fields, each with its Go name and
  tag. A \<open>Leaf\<close> has the value the receiver holds and the new one; a \<open>Branch\<close> is a field that is
  itself a struct.
\<close>

datatype sfield = Leaf string string gval gval | Branch string string string "sfield list"

text \<open>
  The numbers of the bits: a structure's own bit, then those of its fields, depth first.
\<close>

fun bits_used :: "sfield \<Rightarrow> nat" where
  "bits_used (Leaf n tag old new) = 1"
| "bits_used (Branch n tag j fs) = 1 + sum_list (map bits_used fs)"

fun field_old :: "sfield \<Rightarrow> string \<times> string \<times> gval" where
  "field_old (Leaf n tag old new) = (n, tag, old)"
| "field_old (Branch n tag j fs) = (n, tag, GStruct j (map field_old fs))"

text \<open>
  What the bits select: a leaf is sent if its own bit is set or that of the structure it is directly
  in (\<open>full\<close>); a bit further out does not matter. Field \<open>f\<close> has the bit \<open>k\<close>.
\<close>

fun field_new :: "bool list \<Rightarrow> bool \<Rightarrow> nat \<Rightarrow> sfield \<Rightarrow> string \<times> string \<times> gval"
  and fields_new :: "bool list \<Rightarrow> bool \<Rightarrow> nat \<Rightarrow> sfield list \<Rightarrow> (string \<times> string \<times> gval) list" where
  "field_new bits full k (Leaf n tag old new) = (n, tag, if full \<or> PVBitSet_Get bits k then new else old)"
| "field_new bits full k (Branch n tag j fs) = (n, tag, GStruct j (fields_new bits (PVBitSet_Get bits k) (k + 1) fs))"
| "fields_new bits full k [] = []"
| "fields_new bits full k (f # fs) = field_new bits full k f # fields_new bits full (k + bits_used f) fs"

text \<open>The bytes of a field are those that the encoder writes for it.\<close>

definition leaf_wire :: "byte_order \<Rightarrow> string \<times> string \<times> gval \<Rightarrow> byte list" where
  "leaf_wire bo f = ebuf (snd (enc_field f (encoder bo)))"

fun field_wire :: "byte_order \<Rightarrow> bool list \<Rightarrow> bool \<Rightarrow> nat \<Rightarrow> sfield \<Rightarrow> byte list"
  and fields_wire :: "byte_order \<Rightarrow> bool list \<Rightarrow> bool \<Rightarrow> nat \<Rightarrow> sfield list \<Rightarrow> byte list" where
  "field_wire bo bits full k (Leaf n tag old new) = (if full \<or> PVBitSet_Get bits k then leaf_wire bo (n, tag, new) else [])"
| "field_wire bo bits full k (Branch n tag j fs) = fields_wire bo bits (PVBitSet_Get bits k) (k + 1) fs"
| "fields_wire bo bits full k [] = []"
| "fields_wire bo bits full k (f # fs) = field_wire bo bits full k f @ fields_wire bo bits full (k + bits_used f) fs"

text \<open>
  The fields the theorem is about: leaves of every kind that makes the trip and is not a structure,
  old scalars with any value and the others blank; structs without the tags \<open>always\<close> and
  \<open>breakonerror\<close>.
\<close>

definition is_struct :: "how \<Rightarrow> bool" where
  "is_struct h \<longleftrightarrow> (case h of HStruct v i \<Rightarrow> True | _ \<Rightarrow> False)"

definition same_scalar :: "gval \<Rightarrow> gval \<Rightarrow> bool" where
  "same_scalar g h \<longleftrightarrow> (case (g, h) of (GPrim named p, GPrim named' q) \<Rightarrow> named = named' \<and> prim_zero p = prim_zero q | _ \<Rightarrow> False)"

fun sfield_ok :: "sfield \<Rightarrow> bool" where
  "sfield_ok (Leaf n tag old new) \<longleftrightarrow> trips_field (n, tag, new) = Some 1 \<and>
     (case snd (valueToPVField (field_options tag) new) of Some ht \<Rightarrow> \<not> is_struct (fst ht) | None \<Rightarrow> False) \<and>
     (old = blank new \<or> same_scalar old new)"
| "sfield_ok (Branch n tag j fs) \<longleftrightarrow> \<not> list_ex is_always (field_options tag) \<and> \<not> has_tag (snd (parse_tag tag)) ''breakonerror'' \<and>
     list_all sfield_ok fs"

lemma valueToPVField_scalar:
  assumes "\<not> list_ex is_always os"
  obtains h where "\<And>p. prim_zero p = prim_zero q \<Longrightarrow> valueToPVField os (GPrim named p) = (GPrim named p, Some (h, GPrim named p))"
    and "h = HDirect \<or> (\<exists>b s. h = HBounded b \<and> q = PVString s)"
proof -
  have "\<exists>h. (\<forall>p. prim_zero p = prim_zero q \<longrightarrow> valueToPVField os (GPrim named p) = (GPrim named p, Some (h, GPrim named p))) \<and>
     (h = HDirect \<or> (\<exists>b s. h = HBounded b \<and> q = PVString s))"
    using assms
  proof (induction os)
    case (Cons o' os)
    then obtain h where h: "\<forall>p. prim_zero p = prim_zero q \<longrightarrow> valueToPVField os (GPrim named p) = (GPrim named p, Some (h, GPrim named p))"
      "h = HDirect \<or> (\<exists>b s. h = HBounded b \<and> q = PVString s)" by auto
    show ?case
    proof (cases "\<exists>b. o' = BoundOption b")
      case True
      then obtain b where b: "o' = BoundOption b" ..
      show ?thesis
      proof (cases "\<not> named \<and> (\<exists>s. q = PVString s)")
        case True
        have "\<exists>s'. p = PVString s'" if "prim_zero p = prim_zero q" for p using True that by (cases p) auto
        then show ?thesis using True b by (intro exI [of _ "HBounded b"]) fastforce
      next
        case False
        have "\<nexists>s. GPrim named p = GPrim False (PVString s)" if "prim_zero p = prim_zero q" for p
          using False that by (cases q; auto)
        then show ?thesis using h b valueToPVField_bound [of "GPrim named _" b os] by (intro exI [of _ h]) simp
      qed
    qed (use h Cons.prems in \<open>cases o'; auto simp: is_always_def\<close>)
  qed (intro exI [of _ HDirect], simp)
  then show thesis using that by blast
qed

lemma dec_prim_same: "prim_zero p = prim_zero q \<Longrightarrow> dec_prim p = dec_prim q"
  by (cases p; cases q) simp_all

lemma dec_scalar_same:
  assumes "prim_zero p = prim_zero q" and "h = HDirect \<or> (\<exists>b s. h = HBounded b \<and> q = PVString s)"
  shows "dec_pv h (GPrim named p) d = dec_pv h (GPrim named q) d"
proof (cases "h = HDirect")
  case True
  then show ?thesis using dec_prim_same [OF assms(1)] by (simp add: dec_pv.simps)
next
  case False
  then show ?thesis using assms by (cases p; cases q) (auto simp: dec_pv.simps)
qed

text \<open>What a leaf needs: its conversion, and that it is read from its bytes.\<close>

lemma leaf_reads:
  assumes "sfield_ok (Leaf n tag old new)"
  obtains h t where "valueToPVField (field_options tag) old = (old, Some (h, t))" and "\<not> is_struct h"
    and "has_tag (snd (parse_tag tag)) ''breakonerror'' \<Longrightarrow> break_on_error old = Inr False \<and> break_on_error new = Inr False"
    and "\<And>d bo rest. dorder d = Some bo \<Longrightarrow> dbuf d = leaf_wire bo (n, tag, new) @ rest \<Longrightarrow>
      \<exists>t'. dec_pv h t d = (Inr t', d\<lparr>dbuf := rest\<rparr>) \<and> plug old t' = new"
proof -
  let ?os = "field_options tag" and ?b = "has_tag (snd (parse_tag tag)) ''breakonerror''"
  from assms obtain h t where conv: "snd (valueToPVField ?os new) = Some (h, t)" and st: "\<not> is_struct h"
    by (auto split: option.splits)
  have ok: "\<not> field_omitted (n, tag, new)" "\<not> is_iface new" "\<not> list_ex is_always ?os" "trips_pv h t = Some 0"
    "?b \<Longrightarrow> break_on_error new = Inr False"
    using assms conv by (auto simp: trips_field.simps split: if_splits)
  have nil: "h \<noteq> HNil" using ok(4) by (auto simp: trips_pv.simps)
  note b = valueToPVField_blank [OF conv nil ok(2,3)]
  have wire: "leaf_wire bo (n, tag, new) = bs" if "writes bo (enc_pv h t) () bs 0" for bo bs
  proof -
    have "enc_pv h t (encoder bo) = (Inr (), (encoder bo)\<lparr>ebuf := bs\<rparr>)"
      using writesD [OF that, of "encoder bo"] by (simp add: encoder_def)
    then show ?thesis using ok(1) conv
      by (simp add: leaf_wire_def enc_field.simps seqA_def bindA_def record_changed_def liftA_def split: sum.splits)
  qed
  have fresh: "dec_pv h (blank t) d = (Inr t, d\<lparr>dbuf := rest\<rparr>)"
    if d: "dorder d = Some bo" "dbuf d = leaf_wire bo (n, tag, new) @ rest" for d bo rest
  proof -
    obtain bs where bs: "writes bo (enc_pv h t) () bs 0" "reads (ducbs d) bo (dec_pv h (blank t)) t bs 0"
      using trips(1) [rule_format, OF ok(4), of "ducbs d" bo] by (auto simp: trip_def)
    from readsD [OF bs(2) d(1)] d(2) wire [OF bs(1)] show ?thesis by (simp add: bits_set_def)
  qed
  show thesis
  proof (cases "old = blank new")
    case True
    have "break_on_error old = Inr False" if ?b
      using break_status [OF ok(5) [OF that]] True by (auto simp: zero_status_def status_failed_def)
    then show ?thesis using b ok(5) fresh st True by (intro that [of h "blank t"]) auto
  next
    case False
    then obtain named p q where pq: "old = GPrim named p" "new = GPrim named q" "prim_zero p = prim_zero q"
      using assms by (auto simp: same_scalar_def split: gval.splits)
    obtain h' where h': "\<And>p. prim_zero p = prim_zero q \<Longrightarrow> valueToPVField ?os (GPrim named p) = (GPrim named p, Some (h', GPrim named p))"
      "h' = HDirect \<or> (\<exists>b s. h' = HBounded b \<and> q = PVString s)"
      using valueToPVField_scalar [OF ok(3), of q named] by blast
    have ht: "h = h'" "t = new" using h'(1) [of q] conv pq by simp_all
    have z: "blank t = GPrim named (prim_zero q)" by (simp add: ht pq)
    have zz: "prim_zero p = prim_zero (prim_zero q)" "h = HDirect \<or> (\<exists>b s. h = HBounded b \<and> prim_zero q = PVString s)"
      using pq(3) h'(2) ht by (cases q; auto)+
    have "\<exists>t'. dec_pv h old d = (Inr t', d\<lparr>dbuf := rest\<rparr>) \<and> plug old t' = new"
      if "dorder d = Some bo" "dbuf d = leaf_wire bo (n, tag, new) @ rest" for d bo rest
      using fresh [OF that] dec_scalar_same [OF zz, of named d] ht z pq by simp
    moreover have "\<not> ?b" using ok(5) pq(2) by auto
    ultimately show ?thesis using h'(1) [OF pq(3)] st ht(1) pq(1) by (intro that [of h old]) auto
  qed
qed

lemma valueToPVField_struct:
  "\<not> list_ex is_always os \<Longrightarrow> \<exists>i. valueToPVField os (GStruct j fs) = (GStruct j fs, Some (HStruct True i, GStruct j fs))"
proof (induction os)
  case (Cons o' os)
  then show ?case by (cases o') (auto simp: is_always_def)
qed simp

lemma dec_sel_fields:
  "sfield_ok f \<Longrightarrow> dorder d = Some bo \<Longrightarrow> ducbs d \<Longrightarrow> dcbs d = bits \<Longrightarrow> dcbsi d + 1 = k \<Longrightarrow>
     dbuf d = field_wire bo bits full k f @ rest \<Longrightarrow>
     dec_field full (field_old f) d = (Inr (field_new bits full k f, False), d\<lparr>dbuf := rest, dcbsi := dcbsi d + bits_used f\<rparr>)"
  "list_all sfield_ok fs \<Longrightarrow> dorder d = Some bo \<Longrightarrow> ducbs d \<Longrightarrow> dcbs d = bits \<Longrightarrow> dcbsi d + 1 = k \<Longrightarrow>
     dbuf d = fields_wire bo bits full k fs @ rest \<Longrightarrow>
     mapUntilA (dec_field full) (map field_old fs) d =
       (Inr (fields_new bits full k fs), d\<lparr>dbuf := rest, dcbsi := dcbsi d + sum_list (map bits_used fs)\<rparr>)"
proof (induction bits full k f and bits full k fs arbitrary: d rest and d rest rule: field_new_fields_new.induct)
  case (1 bits full k n tag old new)
  obtain h t where conv: "valueToPVField (field_options tag) old = (old, Some (h, t))" and st: "\<not> is_struct h"
    and brk: "has_tag (snd (parse_tag tag)) ''breakonerror'' \<Longrightarrow> break_on_error old = Inr False \<and> break_on_error new = Inr False"
    and read: "\<And>d bo rest. dorder d = Some bo \<Longrightarrow> dbuf d = leaf_wire bo (n, tag, new) @ rest \<Longrightarrow>
      \<exists>t'. dec_pv h t d = (Inr t', d\<lparr>dbuf := rest\<rparr>) \<and> plug old t' = new"
    using leaf_reads [OF 1(1)] by blast
  let ?d = "d\<lparr>dcbsi := dcbsi d + 1\<rparr>"
  have sel: "field_selected full h ?d = (full \<or> PVBitSet_Get bits k)"
    using st 1(4,5) by (auto simp: field_selected_def is_struct_def split: how.splits)
  show ?case
  proof (cases "full \<or> PVBitSet_Get bits k")
    case True
    with read [of ?d bo rest] 1(2,6) obtain t' where "dec_pv h t ?d = (Inr t', ?d\<lparr>dbuf := rest\<rparr>)" "plug old t' = new" by auto
    with True sel conv brk 1(3) show ?thesis
      by (simp add: dec_field.simps seqA_def bindA_def next_field_def ifA_def retA_def liftA_def)
  next
    case False
    then have "d\<lparr>dbuf := rest\<rparr> = d" using 1(6) by simp
    with False sel conv brk 1(3) show ?thesis
      by (cases d) (simp add: dec_field.simps seqA_def bindA_def next_field_def ifA_def retA_def liftA_def)
  qed
next
  case (2 bits full k n tag j fs)
  let ?d = "d\<lparr>dcbsi := dcbsi d + 1\<rparr>" and ?st = "GStruct j (map field_old fs)"
  obtain i where conv: "valueToPVField (field_options tag) ?st = (?st, Some (HStruct True i, ?st))"
    using valueToPVField_struct 2(2) by force
  have "mapUntilA (dec_field (PVBitSet_Get bits k)) (map field_old fs) ?d =
      (Inr (fields_new bits (PVBitSet_Get bits k) (k + 1) fs), ?d\<lparr>dbuf := rest, dcbsi := dcbsi ?d + sum_list (map bits_used fs)\<rparr>)"
    using 2(2-) by (intro 2(1)) simp_all
  moreover have "full_struct ?d = PVBitSet_Get bits k" using 2(4-6) by (simp add: full_struct_def)
  ultimately show ?case using conv 2(2,4)
    by (simp add: dec_field.simps dec_pv.simps seqA_def bindA_def next_field_def field_selected_def ifA_def retA_def liftA_def)
next
  case (3 bits full k)
  then show ?case by (cases d) simp
next
  case (4 bits full k f fs)
  let ?d = "d\<lparr>dbuf := fields_wire bo bits full (k + bits_used f) fs @ rest, dcbsi := dcbsi d + bits_used f\<rparr>"
  have "dec_field full (field_old f) d = (Inr (field_new bits full k f, False), ?d)"
    using 4(3-) by (intro 4(1)) simp_all
  moreover have "mapUntilA (dec_field full) (map field_old fs) ?d = (Inr (fields_new bits full (k + bits_used f) fs),
      ?d\<lparr>dbuf := rest, dcbsi := dcbsi ?d + sum_list (map bits_used fs)\<rparr>)"
    using 4(3-) by (intro 4(2)) simp_all
  ultimately show ?case by (simp add: bindA_def retA_def)
qed

text \<open>Only the bits count, not the length of their list.\<close>

lemma select_trim:
  "field_new (bitset_trim bits) full k f = field_new bits full k f \<and> field_wire bo (bitset_trim bits) full k f = field_wire bo bits full k f"
  "fields_new (bitset_trim bits) full k fs = fields_new bits full k fs \<and> fields_wire bo (bitset_trim bits) full k fs = fields_wire bo bits full k fs"
  by (induction bits full k f and bits full k fs rule: field_new_fields_new.induct) (simp_all add: nth_bitset_trim)

text \<open>In a structure with its bit set, the fields of a nested structure without its own keep their values.\<close>

lemma nested_not_selected:
  "(\<And>b. b \<ge> k \<Longrightarrow> \<not> PVBitSet_Get bits b) \<Longrightarrow> \<not> full \<Longrightarrow> field_new bits full k f = field_old f \<and> field_wire bo bits full k f = []"
  "(\<And>b. b \<ge> k \<Longrightarrow> \<not> PVBitSet_Get bits b) \<Longrightarrow> \<not> full \<Longrightarrow> fields_new bits full k fs = map field_old fs \<and> fields_wire bo bits full k fs = []"
proof (induction bits full k f and bits full k fs rule: field_new_fields_new.induct)
  case (2 bits full k n tag j fs)
  have "\<not> PVBitSet_Get bits k" using 2(2) by blast
  with 2 show ?case by simp
next
  case (4 bits full k f fs)
  have "\<not> PVBitSet_Get bits b" if "b \<ge> k + bits_used f" for b using 4(3) that by simp
  with 4 show ?case by simp
qed simp_all

section \<open>Properties\<close>

text \<open>C1: Whole values make the trip: what \<open>Encode\<close> writes for a value, \<open>Decode\<close> reads back into a
  fresh variable of its type, taking exactly the bytes written, in either byte order. The values
  are all those of \<open>trips_value\<close>: scalars, statuses, bit sets, descriptions, times, strings, slices
  and arrays, structs nested to any depth with their tags, and variant unions over them.\<close>

theorem value_roundtrip:
  assumes "trips_value v = Some n"
  shows "\<exists>e. enc_value v (encoder bo) = (Inr (), e) \<and>
     dec_value (map_option blank v) (decoder bo (ebuf e @ rest)) = (Inr v, decoder bo rest)"
proof -
  obtain bs where w: "writes bo (enc_value v) () bs n" and r: "reads False bo (dec_value (map_option blank v)) v bs n"
    using trips(4) [rule_format, OF assms] by (auto simp: trip_def)
  from readsD [OF r, of "decoder bo (bs @ rest)" rest] writesD [OF w, of "encoder bo"]
  show ?thesis by (auto simp: bits_set_def decoder_def)
qed

definition example_value :: gval where
  "example_value = GPtr (GStruct []
     [(''Code'', [], GPrim False (PVUByte 15)),
      (''Names'', '',short'', GSlice (GPrim False (PVString [])) [GPrim False (PVString ''yes'')] []),
      (''Status'', '',breakonerror'', GStatus zero_status),
      (''Data'', [], GAny (Some (GPtr (GPrim True (PVInt 7)))))])"

theorem value_roundtrip_witness:
  "\<exists>e. enc_value (Some example_value) (encoder LittleEndian) = (Inr (), e) \<and>
     dec_value (map_option blank (Some example_value)) (decoder LittleEndian (ebuf e @ [9])) =
       (Inr (Some example_value), decoder LittleEndian [9])"
proof (rule value_roundtrip)
  show "trips_value (Some example_value) = Some 4"
    by (simp add: example_value_def trips_value.simps iface_var_def pointee_def trips_pv.simps trips_field.simps trips_elem.simps
        field_omitted_def field_options_def parse_tag_short parse_tag_breakonerror omitted_def tag_value_def has_tag_def
        string_ok_def len_ok_def status_ok_def zero_status_def status_failed_def is_always_def prim_desc_def code_desc_def zero_head_def wf_head_def
        has_size_def size_norm_def createZero.simps prim_of_code.simps)
qed

text \<open>C2: A structure difference as the server sends it marks every field, nested ones included, and
  its own bit not; the receiver, which follows the bits, ends up with the whole value.\<close>

theorem diff_roundtrip:
  assumes "trips_value (Some v) = Some n" and "n < 2 ^ 62"
  shows "\<exists>e. enc_pv HDirect (GDiff old (Some v)) (encoder bo) = (Inr (), e) \<and>
     dec_pv HDirect (GDiff [] (Some (blank v))) (decoder bo (ebuf e @ rest)) =
       (Inr (GDiff (bitset_trim (False # replicate n True)) (Some v)), decoder bo rest)"
proof -
  let ?bits = "False # replicate n True"
  obtain bs where w: "writes bo (enc_value (Some v)) () bs n" and r: "reads True bo (dec_value (Some (blank v))) (Some v) bs n"
    using trips(4) [rule_format, OF assms(1), of True bo] by (auto simp: trip_def)
  have "enc_value (Some v) (encoder bo\<lparr>ebuf := [], ecbs := [False], eucbs := True\<rparr>) =
      (Inr (), (encoder bo)\<lparr>ebuf := bs, ecbs := ?bits, eucbs := True\<rparr>)"
    using writesD [OF w, of "encoder bo\<lparr>ebuf := [], ecbs := [False], eucbs := True\<rparr>"] by simp
  then have enc: "enc_pv HDirect (GDiff old (Some v)) (encoder bo) =
      (Inr (), (encoder bo)\<lparr>ebuf := bitset_wire bo ?bits @ bs, ecbs := ?bits, eucbs := True\<rparr>)"
    by (simp add: enc_pv.simps diff_enc_def seqA_def bindA_def PVBitSet_enc write_bytes_def emit_def)
  let ?d = "(decoder bo (bs @ rest))\<lparr>dcbs := bitset_trim ?bits, ducbs := True, dcbsi := 0\<rparr>"
  have "bits_set ?d n"
    by (simp add: bits_set_def nth_bitset_trim) (simp add: PVBitSet_Get_def)
  then have "dec_value (Some (blank v)) ?d = (Inr (Some v), ?d\<lparr>dbuf := rest, dcbsi := dcbsi ?d + (if True then n else 0)\<rparr>)"
    by (intro readsD [OF r]) simp_all
  moreover have "PVBitSet_PVDecode (decoder bo (bitset_wire bo ?bits @ bs @ rest)) = (Inr (bitset_trim ?bits), decoder bo (bs @ rest))"
    using assms(2) by (subst PVBitSet_dec [where bo = bo and rest = "bs @ rest"]) (simp_all add: bitset_ok_def len_ok_def)
  ultimately have "dec_pv HDirect (GDiff [] (Some (blank v))) (decoder bo ((bitset_wire bo ?bits @ bs) @ rest)) =
      (Inr (GDiff (bitset_trim ?bits) (Some v)), decoder bo rest)"
    by (simp add: dec_pv.simps bindA_def pushChangedBitSet_def retA_def decoder_def)
  with enc show ?thesis by simp
qed

theorem diff_roundtrip_witness:
  "let v = GPtr (GStruct [] [(''One'', [], GPrim False (PVUByte 11)), (''Two'', [], GPrim False (PVUByte 12))]) in
   \<exists>e. enc_pv HDirect (GDiff [] (Some v)) (encoder BigEndian) = (Inr (), e) \<and>
     dec_pv HDirect (GDiff [] (Some (blank v))) (decoder BigEndian (ebuf e @ [])) =
       (Inr (GDiff (bitset_trim (False # replicate 2 True)) (Some v)), decoder BigEndian [])"
  unfolding Let_def
  by (rule diff_roundtrip)
    (simp_all add: trips_value.simps iface_var_def pointee_def trips_pv.simps trips_field.simps field_omitted_def
      field_options_def omitted_def tag_value_def has_tag_def)

text \<open>C3: The receiver of a structure difference follows the bits, whichever they are, over a structure nested to
  any depth: it stores exactly the leaves whose own bit is set or whose structure's bit is set, in the
  order of the bits, goes into every nested structure, and keeps everything else as it was, taking
  exactly the bytes of the stored leaves. The structure that the difference is of has bit 0; a bit list
  may be too short or have bits beyond the last field.\<close>

theorem diff_decode_selects:
  assumes "list_all sfield_ok fs" and "bitset_ok bits"
  shows "dec_pv HDirect (GDiff old (Some (GPtr (GStruct i (map field_old fs)))))
       (decoder bo (bitset_wire bo bits @ fields_wire bo bits (PVBitSet_Get bits 0) 1 fs @ rest)) =
     (Inr (GDiff (bitset_trim bits) (Some (GPtr (GStruct i (fields_new bits (PVBitSet_Get bits 0) 1 fs))))), decoder bo rest)"
proof -
  let ?body = "fields_wire bo bits (PVBitSet_Get bits 0) 1 fs @ rest"
  let ?d = "(decoder bo ?body)\<lparr>dcbs := bitset_trim bits, ducbs := True, dcbsi := 0\<rparr>"
  have "PVBitSet_PVDecode (decoder bo (bitset_wire bo bits @ ?body)) = (Inr (bitset_trim bits), decoder bo ?body)"
    using assms(2) by (subst PVBitSet_dec [where bo = bo and rest = ?body]) simp_all
  moreover have "mapUntilA (dec_field (PVBitSet_Get bits 0)) (map field_old fs) ?d =
      (Inr (fields_new bits (PVBitSet_Get bits 0) 1 fs), ?d\<lparr>dbuf := rest, dcbsi := dcbsi ?d + sum_list (map bits_used fs)\<rparr>)"
    unfolding select_trim(2) [of bits "PVBitSet_Get bits 0" 1 fs bo, THEN conjunct1, symmetric]
    by (rule dec_sel_fields(2) [where bo = bo]) (use assms(1) select_trim(2) [of bits] in simp_all)
  moreover have "full_struct ?d = PVBitSet_Get bits 0" by (simp add: full_struct_def nth_bitset_trim)
  ultimately show ?thesis
    by (simp add: dec_pv.simps dec_value.simps iface_var_def bindA_def pushChangedBitSet_def retA_def decoder_def)
qed

text \<open>A structure with a name, a scalar, an array and a nested structure with two scalars.\<close>

definition example_fields :: "sfield list" where
  "example_fields = [Leaf ''One'' ''one'' (GPrim False (PVUByte 11)) (GPrim False (PVUByte 1)),
     Leaf ''Two'' '',short'' (GSlice (GPrim False (PVUByte 0)) [] []) (GSlice (GPrim False (PVUByte 0)) [GPrim False (PVUByte 2)] []),
     Branch ''Time'' ''timeStamp'' [] [
       Leaf ''Three'' [] (GPrim True (PVInt 13)) (GPrim True (PVInt 3)),
       Leaf ''Four'' [] (GPrim False (PVString ''old'')) (GPrim False (PVString ''new''))]]"

text \<open>The bits of \<open>Two\<close> and \<open>Four\<close>.\<close>

theorem diff_decode_selects_witness:
  "let bits = [False, False, True, False, False, True] in
   dec_pv HDirect (GDiff [] (Some (GPtr (GStruct [] (map field_old example_fields)))))
       (decoder LittleEndian (bitset_wire LittleEndian bits @ fields_wire LittleEndian bits (PVBitSet_Get bits 0) 1 example_fields @ [9])) =
     (Inr (GDiff (bitset_trim bits) (Some (GPtr (GStruct [] (fields_new bits (PVBitSet_Get bits 0) 1 example_fields))))),
      decoder LittleEndian [9]) \<and>
   fields_new bits (PVBitSet_Get bits 0) 1 example_fields =
     [(''One'', ''one'', GPrim False (PVUByte 11)), (''Two'', '',short'', GSlice (GPrim False (PVUByte 0)) [GPrim False (PVUByte 2)] []),
      (''Time'', ''timeStamp'', GStruct [] [(''Three'', [], GPrim True (PVInt 13)), (''Four'', [], GPrim False (PVString ''new''))])]"
  unfolding Let_def
proof
  have "list_all sfield_ok example_fields"
    by (simp add: example_fields_def is_always_def same_scalar_def is_struct_def trips_field.simps trips_pv.simps trips_elem.simps field_omitted_def
        field_options_def parse_tag_short parse_tag_name omitted_def tag_value_def has_tag_def string_ok_def len_ok_def)
  then show "dec_pv HDirect (GDiff [] (Some (GPtr (GStruct [] (map field_old example_fields)))))
       (decoder LittleEndian (bitset_wire LittleEndian [False, False, True, False, False, True] @
         fields_wire LittleEndian [False, False, True, False, False, True]
           (PVBitSet_Get [False, False, True, False, False, True] 0) 1 example_fields @ [9])) =
     (Inr (GDiff (bitset_trim [False, False, True, False, False, True]) (Some (GPtr (GStruct []
        (fields_new [False, False, True, False, False, True] (PVBitSet_Get [False, False, True, False, False, True] 0) 1 example_fields))))),
      decoder LittleEndian [9])"
    by (rule diff_decode_selects) (simp add: bitset_ok_def len_ok_def)
qed (simp add: example_fields_def PVBitSet_Get_def)

text \<open>A sender that sets the bit of a structure and means all that is in it, nested structures included, is
  misread: for this receiver the fields of a nested structure are not on the wire.\<close>

lemma outer_bit_not_recursive:
  "fields_new [True] True 1 [Branch n tag j gs] = [field_old (Branch n tag j gs)] \<and> fields_wire bo [True] True 1 [Branch n tag j gs] = []"
  using nested_not_selected(2) [of "Suc (Suc 0)" "[True]" False gs bo] by (simp add: PVBitSet_Get_def)

end
