(* ===== verification/PV_Types.thy ===== *)
theory PV_Types
  imports PV_Roundtrip
begin

text \<open>
  What decoding, describing and creating keep of a variable's type, and the places where the
  reflection code loses or rejects a type: arrays of structures, times, scalars put by value into
  an interface, and paths of field names.
\<close>

section \<open>Decoding keeps the type\<close>

lemma blank_target: "target_field g = Some (h, t) \<Longrightarrow> blank t' = blank t \<Longrightarrow> blank (plug_target g t') = blank g"
  by (cases g) auto

lemma blank_plug: "field_of g = Some (h, t) \<Longrightarrow> blank t' = blank t \<Longrightarrow> blank (plug g t') = blank g"
proof (cases g)
  case (GIface v)
  then show "field_of g = Some (h, t) \<Longrightarrow> ?thesis" by (cases v) simp_all
qed (auto dest: blank_target)

lemma blank_set_int [simp]: "blank (set_int n g) = blank g"
proof (cases g)
  case (GPrim named p)
  then show ?thesis by (cases p) simp_all
qed simp_all

lemma blank_valueToPVField:
  "valueToPVField os g = (g', Some (h, t)) \<Longrightarrow> blank t' = blank t \<Longrightarrow> blank (plug g' t') = blank g"
proof (induction os arbitrary: g)
  case Nil
  then show ?case by (auto dest: blank_plug)
next
  case (Cons o' os)
  show ?case
  proof (cases o')
    case (BoundOption b)
    show ?thesis
    proof (cases "\<exists>s. g = GPrim False (PVString s)")
      case True
      with Cons.prems BoundOption show ?thesis by auto
    next
      case False
      with Cons BoundOption show ?thesis by (simp add: valueToPVField_bound del: valueToPVField.simps)
    qed
  next
    case (AlwaysOption n)
    with Cons show ?thesis by fastforce
  next
    case (NameOption n)
    with Cons show ?thesis by (cases g) auto
  next
    case ShortOption
    with Cons show ?thesis by (cases g) auto
  qed
qed

lemma blank_valueToPVField_fst: "blank (fst (valueToPVField os g)) = blank g"
proof (induction os arbitrary: g)
  case (Cons o' os)
  show ?case
  proof (cases o')
    case (BoundOption b)
    show ?thesis
    proof (cases "\<exists>s. g = GPrim False (PVString s)")
      case True
      with BoundOption show ?thesis by auto
    next
      case False
      with Cons BoundOption show ?thesis by (simp add: valueToPVField_bound del: valueToPVField.simps)
    qed
  next
    case (NameOption n)
    with Cons show ?thesis by (cases g) auto
  next
    case ShortOption
    with Cons show ?thesis by (cases g) auto
  qed (use Cons in simp)
qed simp

lemma blank_plug_iface:
  "iface_var (Some w) = Inr (Some (h, t)) \<Longrightarrow> blank t' = blank t \<Longrightarrow> blank (plug_iface w t') = blank w"
  by (cases w) (auto simp: iface_var_def dest: blank_plug split: if_splits)

text \<open>\<open>typed P m\<close>: whatever \<open>m\<close> answers satisfies \<open>P\<close>.\<close>

definition typed :: "('a \<Rightarrow> bool) \<Rightarrow> 'a dec \<Rightarrow> bool" where
  "typed P m \<longleftrightarrow> (\<forall>s x t. m s = (Inr x, t) \<longrightarrow> P x)"

lemma typedI: "(\<And>s x t. m s = (Inr x, t) \<Longrightarrow> P x) \<Longrightarrow> typed P m"
  by (auto simp: typed_def)

lemma typedD: "typed P m \<Longrightarrow> m s = (Inr x, t) \<Longrightarrow> P x"
  by (auto simp: typed_def)

lemma typed_bind: "typed Q m \<Longrightarrow> (\<And>x. Q x \<Longrightarrow> typed P (f x)) \<Longrightarrow> typed P (bindA m f)"
  by (rule typedI) (auto elim!: bindA_InrE dest: typedD)

lemma typed_any: "typed (\<lambda>_. True) m"
  by (simp add: typed_def)

lemma typed_ret: "typed P (retA x) = P x"
  by (simp add: typed_def retA_def)

lemma typed_map: "(\<And>x. P (g x)) \<Longrightarrow> typed P (bindA m (\<lambda>x. retA (g x)))"
  by (rule typed_bind [OF typed_any]) (simp add: typed_ret)

lemma typed_mapA:
  "(\<And>x. x \<in> set xs \<Longrightarrow> typed (P x) (f x)) \<Longrightarrow> typed (list_all2 P xs) (mapA f xs)"
proof (induction xs)
  case (Cons x xs)
  have "mapA f (x # xs) = bindA (f x) (\<lambda>y. bindA (mapA f xs) (\<lambda>ys. retA (y # ys)))" by (rule ext) simp
  moreover have "typed (list_all2 P (x # xs)) (bindA (f x) (\<lambda>y. bindA (mapA f xs) (\<lambda>ys. retA (y # ys))))"
    using Cons by (auto intro!: typed_bind simp: typed_ret)
  ultimately show ?case by simp
qed (simp add: typed_def)

lemma typed_mapUntilA:
  assumes "\<And>x. x \<in> set xs \<Longrightarrow> typed (\<lambda>r. P x (fst r)) (f x)" and "\<And>x. P x x"
  shows "typed (list_all2 P xs) (mapUntilA f xs)"
  using assms(1)
proof (induction xs)
  case (Cons x xs)
  let ?rest = "\<lambda>r. ifA (snd r) (retA (fst r # xs)) (bindA (mapUntilA f xs) (\<lambda>ys. retA (fst r # ys)))"
  have "list_all2 P xs xs" using assms(2) by (simp add: list_all2_refl)
  then have "typed (list_all2 P (x # xs)) (?rest r)" if "P x (fst r)" for r
    using Cons that by (cases "snd r") (auto intro!: typed_bind simp: typed_ret)
  moreover have "mapUntilA f (x # xs) = bindA (f x) ?rest" by (rule ext) simp
  ultimately show ?case using Cons.prems [of x] by (auto intro: typed_bind)
qed (simp add: typed_def)

lemma typed_without_dcbs: "typed P m \<Longrightarrow> typed P (without_dcbs m)"
  unfolding typed_def without_dcbs_def by (auto split: prod.splits if_splits)

lemma typed_push: "typed P m \<Longrightarrow> typed P (pushChangedBitSet bits m)"
  unfolding typed_def pushChangedBitSet_def by (auto split: prod.splits)

lemma typed_prim: "typed (\<lambda>p'. prim_zero p' = prim_zero p) (dec_prim p)"
  by (cases p) (auto intro!: typed_map)

definition same_type :: "gval \<Rightarrow> gval \<Rightarrow> bool" where
  "same_type g g' \<longleftrightarrow> blank g' = blank g"

lemma same_type_refl [simp]: "same_type g g"
  by (simp add: same_type_def)

lemma typed_direct: "typed (same_type g) (dec_direct g)"
proof (cases g)
  case (GPrim named p)
  show ?thesis unfolding GPrim dec_direct.simps
    by (rule typed_bind [OF typed_prim]) (simp add: typed_ret same_type_def)
next
  case (GTime a b c)
  then show ?thesis
    by (auto simp: Time_PVDecode_def same_type_def typed_ret intro!: typed_bind [OF typed_any] split: prod.splits)
qed (auto simp: same_type_def typed_def failA_def intro!: typed_map elim!: bindA_InrE simp: retA_def)

definition same_field :: "string \<times> string \<times> gval \<Rightarrow> string \<times> string \<times> gval \<Rightarrow> bool" where
  "same_field f f' \<longleftrightarrow> fst f' = fst f \<and> fst (snd f') = fst (snd f) \<and> same_type (snd (snd f)) (snd (snd f'))"

lemma same_struct: "list_all2 same_field fs fs' \<Longrightarrow> blank (GStruct i fs') = blank (GStruct i fs)"
  by (induction fs fs' rule: list_all2_induct) (auto simp: same_field_def same_type_def)

lemma typed_const: "typed P (\<lambda>s. (Inl e, s))"
  by (simp add: typed_def)

lemma typed_fails: "typed P (seqA m (failA e))"
  by (auto simp: typed_def seqA_def failA_def elim!: bindA_InrE)

lemma typed_if: "(b \<Longrightarrow> typed P m) \<Longrightarrow> (\<not> b \<Longrightarrow> typed P n) \<Longrightarrow> typed P (ifA b m n)"
  by (cases b) simp_all

lemma typed_diag: "(\<And>s. typed P (f s)) \<Longrightarrow> typed P (\<lambda>s. f s s)"
  unfolding typed_def by blast

lemma typed_dec:
  "typed (same_type g) (dec_pv h g)" "typed (same_type g) (dec_elem g)"
  "\<forall>full. typed (\<lambda>r. same_field f (fst r)) (dec_field full f)"
  "typed (\<lambda>v'. map_option blank v' = map_option blank v) (dec_value v)"
proof (induction h g and g and f and v rule: coder_induct)
  case (pv h g)
  show ?case
  proof (cases h)
    case HDirect
    show ?thesis
    proof (cases "(\<exists>v. g = GAny v) \<or> (\<exists>bits v. g = GDiff bits v)")
      case True
      then show ?thesis
      proof (elim disjE exE)
        fix v assume g: "g = GAny v"
        have "dec_pv h g = bindA (FieldDesc_PVDecode zero_fdesc) (\<lambda>f.
            ifA (TypeCode (fd_head f) = NULL_TYPE_CODE) (retA (GAny None))
              (bindA (liftA (createZero f)) (\<lambda>p. bindA (dec_value p) (\<lambda>p'. retA (GAny p')))))"
          by (rule ext) (simp add: HDirect g dec_pv.simps)
        then show ?thesis
          by (auto intro!: typed_bind [OF typed_any] typed_if simp: typed_ret g same_type_def)
      next
        fix bits v assume g: "g = GDiff bits v"
        have "dec_pv h g = bindA PVBitSet_PVDecode (\<lambda>bits'.
            bindA (pushChangedBitSet bits' (dec_value v)) (\<lambda>v'. retA (GDiff bits' v')))"
          by (rule ext) (simp add: HDirect g dec_pv.simps)
        then show ?thesis
          by (auto intro!: typed_bind [OF typed_any] simp: typed_ret g same_type_def)
      qed
    next
      case False
      then have "dec_pv h g = dec_direct g"
        by (intro ext) (cases g; simp add: HDirect dec_pv.simps)
      then show ?thesis using typed_direct [of g] by simp
    qed
  next
    case (HBounded b)
    have "typed (same_type (GPrim n p)) (dec_pv (HBounded b) (GPrim n p))" for n p
      by (cases p) (auto simp: dec_pv.simps [abs_def] typed_const same_type_def intro!: typed_map)
    then show ?thesis unfolding HBounded
      by (cases g) (simp_all add: dec_pv.simps [abs_def] typed_const)
  next
    case HNil
    then show ?thesis by (simp add: dec_pv.simps [abs_def] typed_fails)
  next
    case (HArray fixed short)
    have fail: "typed P (failA e)" for P :: "gval \<Rightarrow> bool" and e
      by (simp add: typed_def failA_def)
    show ?thesis unfolding HArray
    proof (cases g)
      case (GArray z es)
      have "typed (same_type (GArray z es)) (bindA (mapA dec_elem es) (\<lambda>es'. retA (GArray z es')))"
        by (rule typed_bind [OF typed_mapA [where P = "\<lambda>_ _. True"]])
          (auto simp: typed_any typed_ret same_type_def dest: list_all2_lengthD)
      then show "typed (same_type g) (dec_pv (HArray fixed short) g)"
        by (auto simp: GArray dec_pv.simps [abs_def] fail intro!: typed_without_dcbs typed_if typed_bind [OF typed_any])
    next
      case (GSlice z es sp)
      show "typed (same_type g) (dec_pv (HArray fixed short) g)"
        by (auto simp: GSlice dec_pv.simps [abs_def] fail typed_ret same_type_def
            intro!: typed_without_dcbs typed_if typed_bind [OF typed_any])
    qed (simp_all add: dec_pv.simps [abs_def] typed_const)
  next
    case (HStruct v i)
    have run: "typed (same_type (GStruct j fs)) (bindA (mapUntilA (dec_field full) fs) (\<lambda>fs'. retA (GStruct j fs')))"
      if "g = GStruct j fs" for j fs full
    proof (rule typed_bind)
      show "typed (list_all2 same_field fs) (mapUntilA (dec_field full) fs)"
        using pv(2) that by (intro typed_mapUntilA) (auto simp: same_field_def)
      show "typed (same_type (GStruct j fs)) (retA (GStruct j fs'))" if "list_all2 same_field fs fs'" for fs'
        using same_struct [OF that] by (simp only: typed_ret same_type_def)
    qed
    have "typed (same_type g) (\<lambda>s. bindA (mapUntilA (dec_field (full_struct s)) fs) (\<lambda>fs'. retA (GStruct j fs')) s)"
      if "g = GStruct j fs" for j fs
      unfolding that by (rule typed_diag) (rule run [OF that])
    then show ?thesis unfolding HStruct
      by (cases g) (simp_all add: dec_pv.simps [abs_def] typed_const)
  qed
next
  case (elem g)
  show ?case
  proof (cases "field_of g")
    case None
    then show ?thesis by (simp add: dec_elem.simps [abs_def] typed_const)
  next
    case (Some ht)
    then have "typed (same_type (snd ht)) (dec_pv (fst ht) (snd ht))" using elem by (cases ht) simp
    then have "typed (same_type g) (bindA (dec_pv (fst ht) (snd ht)) (\<lambda>t'. retA (plug g t')))"
      using Some by (cases ht) (auto intro!: typed_bind simp: typed_ret same_type_def dest: blank_plug)
    with Some show ?thesis by (simp add: dec_elem.simps [abs_def])
  qed
next
  case (field f)
  let ?r = "valueToPVField (field_options (fst (snd f))) (snd (snd f))"
  show ?case
  proof (cases "snd ?r")
    case None
    then show ?thesis
      by (auto simp: dec_field.simps [abs_def] seqA_def [abs_def] typed_const intro!: typed_bind [OF typed_any])
  next
    case (Some ht)
    then have ht: "typed (same_type (snd ht)) (dec_pv (fst ht) (snd ht))" using field by (cases ht) simp
    have r: "?r = (fst ?r, Some (fst ht, snd ht))" using Some by (metis prod.collapse)
    have plug: "typed (same_type (snd (snd f))) (bindA (dec_pv (fst ht) (snd ht)) (\<lambda>t'. retA (plug (fst ?r) t')))"
      by (rule typed_bind [OF ht]) (auto simp: typed_ret same_type_def intro: blank_valueToPVField [OF r])
    have "typed (\<lambda>r. same_field f (fst r)) (\<lambda>s. bindA (ifA (field_selected full (fst ht) s)
                   (bindA (dec_pv (fst ht) (snd ht)) (\<lambda>t'. retA (plug (fst ?r) t'))) (retA (fst ?r))) (\<lambda>g'.
             bindA (liftA (if has_tag (snd (parse_tag (fst (snd f)))) ''breakonerror'' then break_on_error g' else Inr False))
               (\<lambda>stop. retA ((fst f, fst (snd f), g'), stop))) s)" for full
    proof (rule typed_diag, rule typed_bind)
      show "typed (same_type (snd (snd f))) (ifA (field_selected full (fst ht) s)
          (bindA (dec_pv (fst ht) (snd ht)) (\<lambda>t'. retA (plug (fst ?r) t'))) (retA (fst ?r)))" for s
        by (rule typed_if) (simp_all add: plug typed_ret same_type_def blank_valueToPVField_fst)
      show "typed (\<lambda>r. same_field f (fst r))
          (bindA (liftA (if has_tag (snd (parse_tag (fst (snd f)))) ''breakonerror'' then break_on_error g' else Inr False))
            (\<lambda>stop. retA ((fst f, fst (snd f), g'), stop)))" if "same_type (snd (snd f)) g'" for g'
        using that by (intro typed_bind [OF typed_any]) (simp add: typed_ret same_field_def)
    qed
    then show ?thesis using Some
      by (auto simp: dec_field.simps [abs_def] seqA_def [abs_def] intro!: typed_bind [OF typed_any])
  qed
next
  case (val v)
  show ?case
  proof (cases "iface_var v")
    case (Inl e)
    then show ?thesis by (simp add: dec_value.simps [abs_def] typed_fails)
  next
    case (Inr r)
    show ?thesis
    proof (cases r)
      case None
      with Inr show ?thesis by (simp add: dec_value.simps [abs_def] typed_const)
    next
      case (Some ht)
      obtain w where v: "v = Some w" using Inr by (cases v) (auto simp: iface_var_def)
      have var: "iface_var (Some w) = Inr (Some (fst ht, snd ht))" using Inr Some v by simp
      have "typed (same_type (snd ht)) (dec_pv (fst ht) (snd ht))"
        using val iface_var_field [OF Inr] Some by (cases ht) simp
      then have "typed (\<lambda>v'. map_option blank v' = map_option blank v)
          (bindA (dec_pv (fst ht) (snd ht)) (\<lambda>t'. retA (map_option (\<lambda>w. plug_iface w t') v)))"
        by (rule typed_bind) (simp add: typed_ret v same_type_def blank_plug_iface [OF var])
      with Inr Some show ?thesis by (simp add: dec_value.simps [abs_def])
    qed
  qed
qed

section \<open>Created variables\<close>

lemma createZero_shape:
  assumes "createZero f = Inr (Some v)"
  shows "(\<exists>p. v = GPtr (GPrim True p)) \<or> (\<exists>n. v = GPtr (GBounded [] n)) \<or> (\<exists>i st. v = GPVStructure i st)"
  using assms by (cases f) (auto simp: createZero.simps struct_of_def split: if_splits option.splits)

definition content :: "gval \<Rightarrow> gval" where
  "content v = (case v of GPtr t \<Rightarrow> t | _ \<Rightarrow> v)"

lemma zero_field_content:
  "zero_field n (Some v) = Inr g \<Longrightarrow> \<exists>go. go_field_name n = Inr go \<and> g = (go, n, content v)"
  by (cases v) (auto simp: content_def)

lemma zero_field_Some: "zero_field n p = Inr g \<Longrightarrow> \<exists>v. p = Some v"
  by (cases p) auto

lemma desc_content:
  assumes "createZero f = Inr (Some v)"
  shows "desc_field (content v) = desc_loc (GIface (Some v))"
  using createZero_shape [OF assms] by (auto simp: content_def)

lemma valid_name_parts:
  assumes "go_field_name n = Inr go" and "valid_field_name go"
  shows "n \<noteq> [] \<and> CHR '','' \<notin> set n"
proof (cases n)
  case (Cons c cs)
  have part: "\<forall>x \<in> set xs. x \<noteq> CHR '',''"
    if "list_all (\<lambda>c. let n = of_char c :: nat in ascii_letter c \<or> 48 \<le> n \<and> n \<le> 57 \<or> c = CHR ''_'' \<or> 128 \<le> n) xs" for xs
    using that
  proof (induction xs)
    case (Cons y ys)
    moreover have "y \<noteq> CHR '',''" using Cons.prems by (cases "y = CHR '',''") (simp_all add: ascii_letter_def)
    ultimately show ?case by simp
  qed simp
  have "\<forall>x \<in> set go. x \<noteq> CHR '',''"
  proof (cases go)
    case (Cons y ys)
    moreover have "y \<noteq> CHR '',''" using assms(2) Cons by (cases "y = CHR '',''") (simp_all add: ascii_letter_def)
    moreover have "\<forall>x \<in> set ys. x \<noteq> CHR '',''" using assms(2) Cons part [of ys] by simp
    ultimately show ?thesis by simp
  qed simp
  moreover have "set cs \<subseteq> set go" using assms(1) Cons by (auto simp: Let_def split: if_splits)
  moreover have "c = CHR '','' \<Longrightarrow> CHR '','' \<in> set go"
    using assms(1) Cons by (auto simp: Let_def to_upper_def split: if_splits)
  ultimately show ?thesis using Cons by auto
qed (use assms in simp)

fun plain_desc :: "fdesc \<Rightarrow> bool" where
  "plain_desc (FieldDesc h fs) \<longleftrightarrow>
     h = zero_head\<lparr>TypeCode := TypeCode h, fd_Size := fd_Size h, StructType := StructType h\<rparr> \<and>
     (if TypeCode h = STRUCT
      then fd_Size h = 0 \<and> map_of ntTypes (StructType h) = None \<and> list_all (\<lambda>sf. plain_desc (snd sf)) fs
      else StructType h = [] \<and> fs = [] \<and> (TypeCode h = BOUNDED_STRING \<or> fd_Size h = 0))"

lemma prim_of_code: "prim_of_code c = Some p \<Longrightarrow> prim_code p = c \<and> c \<noteq> STRUCT \<and> c \<noteq> BOUNDED_STRING"
  by (auto simp: prim_of_code.simps split: if_splits)

lemma prim_desc_zero: "prim_of_code c = Some p \<Longrightarrow> prim_desc p = code_desc (prim_code p)"
  by (auto simp: prim_of_code.simps prim_desc_def code_desc_def zero_head_def len_word_def split: if_splits)

lemma mapE_map: "(\<And>x. x \<in> set xs \<Longrightarrow> f x = Inr (g x)) \<Longrightarrow> mapE f xs = Inr (map g xs)"
  by (induction xs) auto

lemma created_fields:
  assumes "mapE (\<lambda>sf. bindE (createZero (snd sf)) (zero_field (fst sf))) fs = Inr gs"
  shows "list_all2 (\<lambda>sf g. \<exists>go v. go_field_name (fst sf) = Inr go \<and> createZero (snd sf) = Inr (Some v) \<and>
     g = (go, fst sf, content v)) fs gs"
  using assms
proof (induction fs arbitrary: gs)
  case (Cons sf fs)
  then obtain p g gs' where p: "createZero (snd sf) = Inr p" "zero_field (fst sf) p = Inr g" and gs: "gs = g # gs'"
    and rest: "mapE (\<lambda>sf. bindE (createZero (snd sf)) (zero_field (fst sf))) fs = Inr gs'"
    by (auto simp del: zero_field.simps)
  obtain v where v: "p = Some v" using zero_field_Some [OF p(2)] ..
  show ?case
    using Cons.IH [OF rest] p zero_field_content [of "fst sf" v g] by (auto simp: gs v simp del: zero_field.simps)
qed simp

lemma desc_created:
  assumes "list_all2 (\<lambda>sf g. \<exists>go v. go_field_name (fst sf) = Inr go \<and> createZero (snd sf) = Inr (Some v) \<and>
      g = (go, fst sf, content v)) fs gs"
    and "list_all valid_field_name (map fst gs)"
    and "\<And>sf v. sf \<in> set fs \<Longrightarrow> createZero (snd sf) = Inr (Some v) \<Longrightarrow> desc_loc (GIface (Some v)) = Inr (snd sf)"
  shows "mapE (\<lambda>f. wrap_field (field_name f) (bindE (desc_field (snd (snd f))) (\<lambda>d. Inr (field_name f, d))))
     (filter (\<lambda>f. \<not> field_omitted f) gs) = Inr fs"
  using assms
proof (induction fs gs rule: list_all2_induct)
  case (Cons sf fs g gs)
  then obtain go v where g: "go_field_name (fst sf) = Inr go" "createZero (snd sf) = Inr (Some v)" "g = (go, fst sf, content v)"
    by blast
  have name: "fst sf \<noteq> []" "CHR '','' \<notin> set (fst sf)"
    using valid_name_parts [OF g(1)] Cons.prems(1) g(3) by simp_all
  have "\<not> field_omitted g" "field_name g = fst sf"
    using name by (simp_all add: g(3) field_omitted_def field_name_def parse_tag_name omitted_def tag_value_def Let_def)
  moreover have "desc_field (snd (snd g)) = Inr (snd sf)"
    using desc_content [OF g(2)] Cons.prems(2) [of sf v] g(2) by (simp add: g(3) del: desc_loc.simps)
  ultimately show ?case using Cons by (simp add: wrap_field_def del: desc_loc.simps)
qed simp

lemma created_describes:
  assumes "plain_desc f" and "createZero f = Inr (Some v)"
  shows "desc_loc (GIface (Some v)) = Inr f"
  using assms
proof (induction f arbitrary: v)
  case (FieldDesc h fs)
  have h: "h = zero_head\<lparr>TypeCode := TypeCode h, fd_Size := fd_Size h, StructType := StructType h\<rparr>"
    using FieldDesc.prems(1) by simp
  show ?case
  proof (cases "TypeCode h = STRUCT")
    case True
    with FieldDesc.prems obtain gs where gs: "mapE (\<lambda>sf. bindE (createZero (snd sf)) (zero_field (fst sf))) fs = Inr gs"
      and valid: "list_all valid_field_name (map fst gs)" and v: "v = GPVStructure (StructType h) (GStruct [] gs)"
      by (auto simp: createZero.simps struct_of_def prim_of_code.simps split: if_splits option.splits)
    have "desc_loc (GIface (Some w)) = Inr (snd sf)" if "sf \<in> set fs" "createZero (snd sf) = Inr (Some w)" for sf w
    proof (rule FieldDesc.IH [OF that(1) _ _ that(2)])
      show "snd sf \<in> Basic_BNFs.snds sf" by (cases sf) (simp add: prod_set_defs)
      show "plain_desc (snd sf)" using FieldDesc.prems(1) True that(1) by (auto simp: list_all_iff)
    qed
    from desc_created [OF created_fields [OF gs] valid this]
    have "desc_loc (GIface (Some v)) = Inr (struct_desc (StructType h) fs)" by (simp add: v)
    moreover have "struct_desc (StructType h) fs = FieldDesc h fs"
      using FieldDesc.prems(1) True h by (simp add: struct_desc_def zero_head_def)
    ultimately show ?thesis by simp
  next
    case False
    with FieldDesc.prems have leaf: "StructType h = []" "fs = []" "TypeCode h = BOUNDED_STRING \<or> fd_Size h = 0" by auto
    from FieldDesc.prems(2) False consider p where "prim_of_code (TypeCode h) = Some p" "v = GPtr (GPrim True p)"
      | "TypeCode h = BOUNDED_STRING" "v = GPtr (GBounded [] (fd_Size h))"
      by (auto simp: createZero.simps split: if_splits)
    then show ?thesis
    proof cases
      case 1
      then show ?thesis using prim_of_code [of "TypeCode h" p] leaf h by (simp add: prim_desc_zero code_desc_def zero_head_def)
    next
      case 2
      then show ?thesis using leaf h by (simp add: bounded_desc_def zero_head_def)
    qed
  qed
qed

text \<open>C7: Creating a variable for a description and describing it again gives the description
  back, so a decoded value is forwarded under the type it came with. The descriptions are those
  without ids and arrays whose structure types are not normative types.\<close>

theorem createZero_describes:
  assumes "plain_desc f" and "createZero f = Inr (Some v)"
  shows "desc_loc (GIface (Some v)) = Inr f"
  using assms by (rule created_describes)

theorem createZero_describes_witness:
  "desc_loc (GIface (Some (GPtr (GPrim True (PVLong 0))))) = Inr (FieldDesc (zero_head\<lparr>TypeCode := LONG\<rparr>) [])"
  by (rule createZero_describes) (simp_all add: zero_head_def createZero.simps prim_of_code.simps)

section \<open>What the reflection code loses or rejects\<close>

text \<open>A decoded structure holds its fields by value, never through a pointer or an interface.\<close>

fun by_value :: "gval \<Rightarrow> bool" where
  "by_value (GPtr t) = False"
| "by_value (GIface v) = False"
| "by_value g = True"

fun flat :: "gval \<Rightarrow> bool" where
  "flat (GStruct j fs) = list_all (\<lambda>f. by_value (snd (snd f))) fs"
| "flat g = True"

lemma by_value_blank [simp]: "by_value (blank g) = by_value g"
  by (cases g) simp_all

lemma flat_blank [simp]: "flat (blank st) = flat st"
  by (cases st) (simp_all add: list_all_iff)

lemma flat_ntTypes: "map_of ntTypes i = Some z \<Longrightarrow> flat z"
  by (auto simp: ntTypes_def nt_enum_def nt_time_def nt_alarm_def nt_display_def nt_control_def alarm_limit_fields_def
      split: if_splits)

lemma by_value_content: "createZero f = Inr (Some v) \<Longrightarrow> by_value (content v)"
  by (auto simp: content_def dest!: createZero_shape)

lemma flat_created:
  assumes "createZero f = Inr (Some (GPVStructure i st))"
  shows "flat st"
proof (cases f)
  case (FieldDesc h fs)
  have "flat (GStruct [] gs)"
    if "mapE (\<lambda>sf. bindE (createZero (snd sf)) (zero_field (fst sf))) fs = Inr gs" for gs
    using created_fields [OF that]
    by (induction fs gs rule: list_all2_induct) (auto dest: by_value_content)
  with assms FieldDesc show ?thesis
    by (auto simp: createZero.simps struct_of_def dest: flat_ntTypes split: if_splits option.splits)
qed

lemma field_of_by_value: "by_value g \<Longrightarrow> field_of g = Some (h, t) \<Longrightarrow> h \<noteq> HStruct False i"
  by (cases g) (auto split: gval.splits if_splits)

lemma flat_Field: "flat st \<Longrightarrow> PVStructure_Field st n = Some (h, t) \<Longrightarrow> h \<noteq> HStruct False i"
proof (cases st)
  case (GStruct j fs)
  assume flat: "flat st" and "PVStructure_Field st n = Some (h, t)"
  then obtain f where f: "find (\<lambda>f. field_name f = n) fs = Some f" "field_of (snd (snd f)) = Some (h, t)"
    by (auto simp: GStruct split: option.splits)
  then have "f \<in> set fs" by (auto simp: find_Some_iff)
  with flat have "by_value (snd (snd f))" by (simp add: GStruct list_all_iff)
  from field_of_by_value [OF this f(2)] show ?thesis .
qed simp_all

lemma blank_PVStructure: "blank v = GPVStructure i b \<Longrightarrow> \<exists>st. v = GPVStructure i st \<and> blank st = b"
  by (cases v) auto

lemma decoded_any_flat:
  assumes "dec_pv HDirect (GAny d) s = (Inr (GAny (Some (GPVStructure i st))), t)"
  shows "flat st"
proof -
  from assms obtain f u where u: "ifA (TypeCode (fd_head f) = NULL_TYPE_CODE) (retA (GAny None))
      (bindA (liftA (createZero f)) (\<lambda>p. bindA (dec_value p) (\<lambda>p'. retA (GAny p')))) u =
        (Inr (GAny (Some (GPVStructure i st))), t)"
    by (auto simp: dec_pv.simps elim!: bindA_InrE)
  then obtain p w where p: "createZero f = Inr p" "dec_value p w = (Inr (Some (GPVStructure i st)), t)"
    by (cases "TypeCode (fd_head f) = NULL_TYPE_CODE") (auto simp: retA_def liftA_def elim!: bindA_InrE)
  from typedD [OF typed_dec(4) p(2)] obtain v where v: "p = Some v" "blank v = GPVStructure i (blank st)"
    by (cases p) auto
  then obtain st0 where "v = GPVStructure i st0" "blank st0 = blank st" by (blast dest: blank_PVStructure)
  then show ?thesis using p(1) v(1) flat_created [of f i st0] flat_blank [of st0] flat_blank [of st] by simp
qed

lemma flat_SubField: "flat st \<Longrightarrow> PVStructure_SubField st (a # b # ns) = Inr None"
  by (auto split: option.splits how.splits bool.splits dest: flat_Field)

text \<open>A path of two or more names never finds a field in a structure that came over the wire:
  \<open>SubField\<close> looks for a \<open>*PVStructure\<close>, while \<open>Field\<close> returns a \<open>PVStructure\<close>.\<close>

theorem decoded_SubField_none:
  assumes "dec_pv HDirect (GAny d) s = (Inr (GAny (Some (GPVStructure i st))), t)"
  shows "PVStructure_SubField st (a # b # ns) = Inr None"
  using decoded_any_flat [OF assms] by (rule flat_SubField)

theorem decoded_SubField_none_witness:
  "PVStructure_SubField (GStruct [] [(''Record'', ''record'', GPrim True (PVUByte 7))]) [''record'', ''_options'', ''pipeline''] =
     Inr None"
proof (rule decoded_SubField_none)
  let ?f = "struct_desc [] [(''record'', code_desc UBYTE)]"
  have "FieldDesc_PVDecode zero_fdesc (decoder BigEndian (fdesc_wire BigEndian ?f @ [7])) = (Inr ?f, decoder BigEndian [7])"
    by (subst FieldDesc_dec [where f = ?f and bo = BigEndian and rest = "[7]"])
      (simp_all add: struct_desc_def code_desc_def wf_head_def zero_head_def has_size_def string_ok_def len_ok_def size_norm_def)
  moreover have "go_field_name ''record'' = Inr ''Record''" "valid_field_name ''Record''" by code_simp+
  then have "createZero ?f = Inr (Some (GPVStructure [] (GStruct [] [(''Record'', ''record'', GPrim True (PVUByte 0))])))"
    by (simp add: struct_desc_def code_desc_def zero_head_def createZero.simps prim_of_code.simps struct_of_def
        del: go_field_name.simps valid_field_name.simps)
  ultimately show "dec_pv HDirect (GAny None) (decoder BigEndian (fdesc_wire BigEndian ?f @ [7])) =
      (Inr (GAny (Some (GPVStructure [] (GStruct [] [(''Record'', ''record'', GPrim True (PVUByte 7))])))), decoder BigEndian [])"
    by (simp add: dec_pv.simps dec_value.simps dec_field.simps iface_var_def struct_desc_def zero_head_def act_simps
        field_options_def parse_tag_name has_tag_def next_field_def field_selected_def full_struct_def scalar_dec_defs
        read_byte_def decoder_def)
qed

text \<open>A slice of structures is written with a presence byte before every element that the reader
  does not expect: it takes the byte for the first field and leaves the rest in the input.\<close>

theorem struct_array_desync:
  "let z = GStruct [] [(''Code'', [], GPrim False (PVUByte 0))];
       one = \<lambda>b. GSlice z [GStruct [] [(''Code'', [], GPrim False (PVUByte b))]] []
   in (\<exists>e. PVArray_PVEncode False False (one b) (encoder bo) = (Inr (), e) \<and> ebuf e = [1, 1, b]) \<and>
      PVArray_PVDecode False False (GSlice z [] []) (decoder bo ([1, 1, b] @ rest)) =
        (Inr (one 1), decoder bo (b # rest))"
  by (simp add: Let_def PVArray_PVEncode_def PVArray_PVDecode_def enc_pv.simps dec_pv.simps enc_elem.simps dec_elem.simps
      enc_field.simps dec_field.simps without_ecbs_def without_dcbs_def array_len_enc_def array_len_dec_def act_simps
      field_omitted_def omitted_def field_options_def has_tag_def record_changed_def next_field_def field_selected_def
      full_struct_def slice_resize_def PVSize_PVEncode_def PVSize_PVDecode_def scalar_enc_defs scalar_dec_defs len_word_def
      max8_def write_byte_def read_byte_def emit_def encoder_def decoder_def)

text \<open>A scalar put by value into a field of interface type, as \<open>SimpleChannel.Set\<close> puts it, is
  described as what it is, but cannot be encoded.\<close>

theorem iface_scalar_described_not_encoded:
  "desc_field (GIface (Some (GPrim True p))) = Inr (prim_desc p) \<and>
   enc_field (''Value'', ''value'', GIface (Some (GPrim True p))) s = (Inl DontKnowHow, s)"
  by (simp add: enc_field.simps field_omitted_def omitted_def field_options_def no_field_err_def parse_tag_name)

end
