(* ===== verification/PV_Forward.thy ===== *)
theory PV_Forward
  imports PV_Types
begin

text \<open>
  A program that receives a variant and sends it on: what comes out of \<open>PVAny.PVDecode\<close> can be
  encoded, and the next receiver decodes the same value.
\<close>

section \<open>Values made of scalars and structures\<close>

text \<open>
  The values that \<open>createZero\<close> makes for scalars and structures of them, with contents that can be
  encoded.
\<close>

fun is_go_struct :: "gval \<Rightarrow> bool" where
  "is_go_struct (GStruct j fs) = True"
| "is_go_struct _ = False"

fun simple :: "gval \<Rightarrow> bool" where
  "simple (GPrim named p) \<longleftrightarrow> named \<and> prim_ok p"
| "simple (GPVStructure i st) \<longleftrightarrow> is_go_struct st \<and> simple st"
| "simple (GStruct j fs) \<longleftrightarrow> list_all (\<lambda>f. CHR '','' \<notin> set (fst (snd f)) \<and> simple (snd (snd f))) fs"
| "simple _ \<longleftrightarrow> False"

definition simple_field :: "string \<times> string \<times> gval \<Rightarrow> bool" where
  "simple_field f \<longleftrightarrow> CHR '','' \<notin> set (fst (snd f)) \<and> simple (snd (snd f))"

lemma simple_struct: "simple (GStruct j fs) = list_all simple_field fs"
  by (simp add: simple_field_def [abs_def])

lemma untagged:
  assumes "CHR '','' \<notin> set tag"
  shows "field_options tag = []" "\<not> has_tag (snd (parse_tag tag)) t" "\<not> field_omitted (go, tag, g)"
  using parse_tag_name [OF assms] by (simp_all add: field_options_def has_tag_def field_omitted_def omitted_def tag_value_def)

lemma simple_conv:
  assumes "simple g"
  obtains named p where "g = GPrim named p" "field_of g = Some (HDirect, g)" "prim_ok p" "named"
  | i j fs where "field_of g = Some (HStruct True i, GStruct j fs)" "list_all simple_field fs"
      "g = GPVStructure i (GStruct j fs) \<or> g = GStruct j fs \<and> i = j"
  using assms
proof (cases g)
  case (GPVStructure i st)
  with assms show ?thesis by (cases st) (auto simp: simple_struct simp del: simple.simps(3) intro!: that(2))
qed (use that assms in \<open>auto simp: simple_struct simp del: simple.simps(3)\<close>)

text \<open>Decoding gives strings that can be encoded.\<close>

lemma typed_string: "typed string_ok PVString_PVDecode"
  unfolding PVString_PVDecode_def
proof (rule typed_bind [OF typed_any])
  fix size :: "64 word"
  have bytes: "typed (\<lambda>bs. length bs = n) (read_full n)" for n
    by (auto simp: typed_def read_full_def split: if_splits)
  have "sint size < 2 ^ 63" using sint_range_size [of size] by (simp add: word_size)
  then have "nat (sint size) < nat (2 ^ 63)" by (subst nat_mono_iff) simp_all
  then have "nat (sint size) < 2 ^ 63" by simp
  then have "typed string_ok (bindA (read_full (nat (sint size))) (\<lambda>bytes. retA (string_of_bytes bytes)))"
    by (intro typed_bind [OF bytes]) (simp add: typed_ret string_ok_def len_ok_def string_of_bytes_def)
  then show "typed string_ok (if sint size < 0 then failA (Panic MakeSliceLen)
      else bindA (read_full (nat (sint size))) (\<lambda>bytes. retA (string_of_bytes bytes)))"
    by (simp add: typed_def failA_def)
qed

lemma typed_prim_ok: "typed prim_ok (dec_prim p)"
  by (cases p) (auto intro!: typed_map typed_bind [OF typed_string] simp: typed_ret)

lemma simple_fields_decoded:
  assumes "list_all simple_field fs"
    and IH: "\<And>f h t. f \<in> set fs \<Longrightarrow> field_of (snd (snd f)) = Some (h, t) \<Longrightarrow>
      typed (\<lambda>t'. simple (plug (snd (snd f)) t')) (dec_pv h t)"
  shows "typed (\<lambda>st. \<exists>fs'. st = GStruct j fs' \<and> list_all simple_field fs') (dec_pv (HStruct v i) (GStruct j fs))"
proof -
  let ?P = "\<lambda>f f'. simple_field f \<longrightarrow> simple_field f'"
  have field: "typed (\<lambda>r. ?P f (fst r)) (dec_field full f)" if f: "f \<in> set fs" for full f
  proof -
    have ok: "CHR '','' \<notin> set (fst (snd f))" "simple (snd (snd f))" using assms(1) f by (auto simp: list_all_iff simple_field_def)
    obtain h t where conv: "field_of (snd (snd f)) = Some (h, t)" using simple_conv [OF ok(2)] by metis
    have "typed (\<lambda>r. ?P f (fst r)) (\<lambda>s. bindA (ifA (field_selected full h s)
        (bindA (dec_pv h t) (\<lambda>t'. retA (plug (snd (snd f)) t'))) (retA (snd (snd f)))) (\<lambda>g'.
           bindA (liftA (Inr False)) (\<lambda>stop. retA ((fst f, fst (snd f), g'), stop))) s)"
    proof (rule typed_diag, rule typed_bind)
      show "typed simple (ifA (field_selected full h s) (bindA (dec_pv h t) (\<lambda>t'. retA (plug (snd (snd f)) t'))) (retA (snd (snd f))))" for s
        using ok by (intro typed_if typed_bind [OF IH [OF f conv]]) (simp_all add: typed_ret)
      show "typed (\<lambda>r. ?P f (fst r)) (bindA (liftA (Inr False)) (\<lambda>stop. retA ((fst f, fst (snd f), g'), stop)))" if "simple g'" for g'
        using that ok by (intro typed_bind [OF typed_any]) (simp add: typed_ret simple_field_def)
    qed
    then show ?thesis using untagged [OF ok(1)] conv
      by (auto simp: dec_field.simps [abs_def] seqA_def [abs_def] intro!: typed_bind [OF typed_any])
  qed
  have "typed (\<lambda>st. \<exists>fs'. st = GStruct j fs' \<and> list_all simple_field fs')
      (bindA (mapUntilA (dec_field full) fs) (\<lambda>fs'. retA (GStruct j fs')))" for full
  proof (rule typed_bind)
    show "typed (list_all2 ?P fs) (mapUntilA (dec_field full) fs)" using field by (intro typed_mapUntilA) auto
    show "typed (\<lambda>st. \<exists>fs'. st = GStruct j fs' \<and> list_all simple_field fs') (retA (GStruct j fs'))" if "list_all2 ?P fs fs'" for fs'
    proof -
      from that assms(1) have "list_all simple_field fs'" by (induction fs fs' rule: list_all2_induct) auto
      then show ?thesis by (simp add: typed_ret)
    qed
  qed
  then have "typed (\<lambda>st. \<exists>fs'. st = GStruct j fs' \<and> list_all simple_field fs')
      (\<lambda>s. bindA (mapUntilA (dec_field (full_struct s)) fs) (\<lambda>fs'. retA (GStruct j fs')) s)" by (rule typed_diag)
  then show ?thesis by (simp add: dec_pv.simps [abs_def])
qed

lemma simple_decoded:
  assumes "simple g" and "field_of g = Some (h, t)"
  shows "typed (\<lambda>t'. simple (plug g t')) (dec_pv h t)"
  using assms
proof (induction g arbitrary: h t rule: measure_induct_rule [of size])
  case (less g)
  from less.prems(1) show ?case
  proof (cases g rule: simple_conv)
    case (1 named p)
    then show ?thesis using less.prems(2)
      by (auto simp: dec_pv.simps [abs_def] typed_ret intro!: typed_bind [OF typed_prim_ok])
  next
    case (2 i j fs)
    have IH: "typed (\<lambda>t'. simple (plug (snd (snd f)) t')) (dec_pv h' t')" if "f \<in> set fs" "field_of (snd (snd f)) = Some (h', t')" for f h' t'
    proof (rule less.IH [OF _ _ that(2)])
      show "simple (snd (snd f))" using 2(2) that(1) by (auto simp: list_all_iff simple_field_def)
      show "size (snd (snd f)) < size g" using 2(3) size_fields [OF that(1)] by auto
    qed
    have "typed (\<lambda>st. \<exists>fs'. st = GStruct j fs' \<and> list_all simple_field fs') (dec_pv (HStruct True i) (GStruct j fs))"
      by (rule simple_fields_decoded [OF 2(2) IH])
    moreover have "simple (plug g st)" if "\<exists>fs'. st = GStruct j fs' \<and> list_all simple_field fs'" for st
      using that 2(3) by (auto simp: simple_struct simp del: simple.simps(3))
    ultimately show ?thesis using 2(1) less.prems(2) unfolding typed_def by (metis option.inject prod.inject)
  qed
qed

text \<open>They make the trip.\<close>

lemma simple_trips:
  assumes "simple g" and "field_of g = Some (h, t)"
  shows "\<exists>n. trips_pv h t = Some n"
  using assms
proof (induction g arbitrary: h t rule: measure_induct_rule [of size])
  case (less g)
  from less.prems(1) show ?case
  proof (cases g rule: simple_conv)
    case (1 named p)
    then show ?thesis using less.prems(2) by (auto simp: trips_pv.simps)
  next
    case (2 i j fs)
    have "\<exists>n. trips_field f = Some n" if f: "f \<in> set fs" for f
    proof -
      have ok: "CHR '','' \<notin> set (fst (snd f))" "simple (snd (snd f))" using 2(2) f by (auto simp: list_all_iff simple_field_def)
      obtain h t where conv: "field_of (snd (snd f)) = Some (h, t)" using simple_conv [OF ok(2)] by metis
      have "size (snd (snd f)) < size g" using 2(3) size_fields [OF f] by auto
      from less.IH [OF this ok(2) conv] obtain n where "trips_pv h t = Some n" ..
      moreover have "\<not> is_iface (snd (snd f))" using ok(2) by (cases "snd (snd f)") auto
      ultimately show ?thesis using untagged [OF ok(1)] conv by (cases f) (simp add: trips_field.simps)
    qed
    then have "\<exists>n. sum_opt (map trips_field fs) = Some n"
    proof (induction fs)
      case (Cons f fs)
      obtain n where "trips_field f = Some n" using Cons.prems [of f] by auto
      moreover obtain m where "sum_opt (map trips_field fs) = Some m" using Cons by auto
      ultimately show ?case by simp
    qed simp
    then show ?thesis using 2(1) less.prems(2) by (simp add: trips_pv.simps)
  qed
qed

text \<open>
  Their descriptions do not depend on the contents, but for the length of a string, which is not on
  the wire.
\<close>

definition same_desc :: "gerr + fdesc \<Rightarrow> gerr + fdesc \<Rightarrow> bool" where
  "same_desc x y \<longleftrightarrow> (\<exists>f f'. x = Inr f \<and> y = Inr f' \<and> wire_desc f = wire_desc f')"

lemma prim_desc_wire: "same_desc (Inr (prim_desc p)) (Inr (prim_desc (prim_zero p)))"
  by (cases p) (simp_all add: same_desc_def prim_desc_def code_desc_def zero_head_def has_size_def)

lemma simple_fields_desc:
  assumes "list_all simple_field fs"
    and "\<And>f. f \<in> set fs \<Longrightarrow> same_desc (desc_field (snd (snd f))) (desc_field (blank (snd (snd f))))"
  shows "same_desc (desc_pv (HStruct v i) (GStruct j fs)) (desc_pv (HStruct v i) (blank (GStruct j fs)))"
proof -
  let ?d = "\<lambda>f. wrap_field (field_name f) (bindE (desc_field (snd (snd f))) (\<lambda>d. Inr (field_name f, d)))"
  let ?b = "\<lambda>f. (fst f, fst (snd f), blank (snd (snd f)))"
  have "filter (\<lambda>f. \<not> field_omitted f) fs = fs" "filter (\<lambda>f. \<not> field_omitted f) (map ?b fs) = map ?b fs"
    using assms(1) untagged(3) by (auto simp: list_all_iff simple_field_def filter_id_conv)
  moreover have "\<exists>ds ds'. mapE ?d fs = Inr ds \<and> mapE ?d (map ?b fs) = Inr ds' \<and>
      map (\<lambda>sf. (fst sf, wire_desc (snd sf))) ds = map (\<lambda>sf. (fst sf, wire_desc (snd sf))) ds'"
    using assms(2)
  proof (induction fs)
    case (Cons f fs)
    then obtain ds ds' where ds: "mapE ?d fs = Inr ds" "mapE ?d (map ?b fs) = Inr ds'"
      "map (\<lambda>sf. (fst sf, wire_desc (snd sf))) ds = map (\<lambda>sf. (fst sf, wire_desc (snd sf))) ds'" by auto
    obtain d d' where d: "desc_field (snd (snd f)) = Inr d" "desc_field (blank (snd (snd f))) = Inr d'" "wire_desc d = wire_desc d'"
      using Cons.prems [of f] by (auto simp: same_desc_def)
    have name: "field_name (?b f) = field_name f" by (simp add: field_name_def Let_def)
    then show ?case using ds d by (simp add: wrap_field_def)
  qed simp
  ultimately show ?thesis by (auto simp: same_desc_def struct_desc_def)
qed

lemma simple_desc:
  assumes "simple g"
  shows "same_desc (desc_field g) (desc_field (blank g))"
  using assms
proof (induction g rule: measure_induct_rule [of size])
  case (less g)
  from less.prems show ?case
  proof (cases g rule: simple_conv)
    case (1 named p)
    then show ?thesis using prim_desc_wire [of p] by simp
  next
    case (2 i j fs)
    have "same_desc (desc_field (snd (snd f))) (desc_field (blank (snd (snd f))))" if "f \<in> set fs" for f
    proof (rule less.IH)
      show "simple (snd (snd f))" using 2(2) that by (auto simp: list_all_iff simple_field_def)
      show "size (snd (snd f)) < size g" using 2(3) size_fields [OF that] by auto
    qed
    from simple_fields_desc [OF 2(2) this, of True i j] 2(3) show ?thesis by auto
  qed
qed

section \<open>Created values\<close>

text \<open>Descriptions of scalars, but bounded strings, and of structures of them.\<close>

fun unbounded :: "fdesc \<Rightarrow> bool" where
  "unbounded (FieldDesc h fs) \<longleftrightarrow> TypeCode h \<noteq> BOUNDED_STRING \<and> list_all (\<lambda>sf. unbounded (snd sf)) fs"

lemma wire_desc_plain: "plain_desc f \<Longrightarrow> unbounded f \<Longrightarrow> wire_desc f = f"
proof (induction f)
  case (FieldDesc h fs)
  have "fd_Size h = 0" using FieldDesc.prems by (auto split: if_splits)
  then have h: "(if has_size (TypeCode h) then h else h\<lparr>fd_Size := 0\<rparr>) = h" by (cases h) simp
  have "map (\<lambda>sf. (fst sf, wire_desc (snd sf))) fs = fs"
  proof (rule map_idI)
    fix sf assume sf: "sf \<in> set fs"
    then have "plain_desc (snd sf)" "unbounded (snd sf)" using FieldDesc.prems by (auto simp: list_all_iff split: if_splits)
    moreover have "snd sf \<in> Basic_BNFs.snds sf" by (cases sf) (simp add: prod_set_defs)
    ultimately have "wire_desc (snd sf) = snd sf" using FieldDesc.IH sf by blast
    then show "(fst sf, wire_desc (snd sf)) = sf" by simp
  qed
  with h show ?case by simp
qed

lemma created_simple:
  assumes "plain_desc f" and "unbounded f" and "createZero f = Inr (Some v)"
  shows "simple (content v) \<and> blank v = v"
  using assms
proof (induction f arbitrary: v)
  case (FieldDesc h fs)
  show ?case
  proof (cases "TypeCode h = STRUCT")
    case True
    with FieldDesc.prems obtain gs where gs: "mapE (\<lambda>sf. bindE (createZero (snd sf)) (zero_field (fst sf))) fs = Inr gs"
      and valid: "list_all valid_field_name (map fst gs)" and v: "v = GPVStructure (StructType h) (GStruct [] gs)"
      by (auto simp: createZero.simps struct_of_def prim_of_code.simps split: if_splits option.splits)
    have IH: "simple (content w) \<and> blank w = w" if "sf \<in> set fs" "createZero (snd sf) = Inr (Some w)" for sf w
    proof (rule FieldDesc.IH [OF that(1) _ _ _ that(2)])
      show "snd sf \<in> Basic_BNFs.snds sf" by (cases sf) (simp add: prod_set_defs)
      show "plain_desc (snd sf)" "unbounded (snd sf)" using FieldDesc.prems(1,2) True that(1) by (auto simp: list_all_iff)
    qed
    have content: "blank (content w) = content w" if "blank w = w" for w using that by (cases w) (auto simp: content_def)
    from created_fields [OF gs] valid IH
    have "list_all simple_field gs \<and> map (\<lambda>f. (fst f, fst (snd f), blank (snd (snd f)))) gs = gs"
    proof (induction fs gs rule: list_all2_induct)
      case (Cons sf fs g gs)
      then obtain go w where g: "go_field_name (fst sf) = Inr go" "createZero (snd sf) = Inr (Some w)" "g = (go, fst sf, content w)"
        by blast
      have "CHR '','' \<notin> set (fst sf)" using valid_name_parts [OF g(1)] Cons.prems(1) g(3) by simp
      moreover have "simple (content w)" "blank (content w) = content w" using Cons.prems(2) [of sf w] g(2) content by auto
      moreover have "list_all simple_field gs \<and> map (\<lambda>f. (fst f, fst (snd f), blank (snd (snd f)))) gs = gs"
        using Cons.prems by (intro Cons.IH) auto
      moreover have "simple_field g" using calculation g(3) by (simp add: simple_field_def)
      ultimately show ?case using g(3) by simp
    qed simp
    then show ?thesis by (simp add: v content_def simple_struct del: simple.simps(3))
  next
    case False
    from FieldDesc.prems False obtain p where "prim_of_code (TypeCode h) = Some p" "v = GPtr (GPrim True p)"
      by (auto simp: createZero.simps split: if_splits)
    then show ?thesis by (auto simp: content_def prim_of_code.simps string_ok_def len_ok_def split: if_splits)
  qed
qed

text \<open>What is decoded into them.\<close>

definition carrier :: "gval \<Rightarrow> bool" where
  "carrier v \<longleftrightarrow> simple (content v) \<and> ((\<exists>p. v = GPtr (GPrim True p)) \<or> (\<exists>i st. v = GPVStructure i st))"

lemma created_carrier:
  assumes "plain_desc f" and "unbounded f" and "createZero f = Inr (Some v)"
  shows "carrier v"
  using created_simple [OF assms] createZero_shape [OF assms(3)] by (auto simp: carrier_def content_def)

lemma carrier_var:
  assumes "carrier v"
  obtains h t where "iface_var (Some v) = Inr (Some (h, t))" and "field_of (content v) = Some (h, t)"
    and "\<And>t'. plug_iface v t' = (case v of GPtr u \<Rightarrow> GPtr (plug u t') | _ \<Rightarrow> plug v t')" and "\<not> list_ex is_iface (pointee (Some v))"
  using assms by (auto simp: carrier_def content_def iface_var_def pointee_def)

lemma carrier_decoded:
  assumes "carrier v0" and "dec_value (Some v0) s = (Inr p, t)"
  obtains v where "p = Some v" and "carrier v" and "blank v = blank v0"
proof -
  obtain h u where u: "iface_var (Some v0) = Inr (Some (h, u))" "field_of (content v0) = Some (h, u)"
    "\<And>t'. plug_iface v0 t' = (case v0 of GPtr u \<Rightarrow> GPtr (plug u t') | _ \<Rightarrow> plug v0 t')" using carrier_var [OF assms(1)] by blast
  from assms(2) u(1) obtain t' d where t': "dec_pv h u s = (Inr t', d)" and p: "p = Some (plug_iface v0 t')"
    by (auto simp: dec_value.simps retA_def elim!: bindA_InrE)
  have simple: "simple (plug (content v0) t')"
    using typedD [OF simple_decoded [OF _ u(2)] t'] assms(1) by (simp add: carrier_def)
  have blank: "blank (plug_iface v0 t') = blank v0" using typedD [OF typed_dec(4) assms(2)] p by simp
  moreover have "carrier (plug_iface v0 t')"
  proof -
    from assms(1) consider q where "v0 = GPtr (GPrim True q)" | i st where "v0 = GPVStructure i st" by (auto simp: carrier_def)
    then show ?thesis
    proof cases
      case 1
      with blank u(3) have "blank t' = GPrim True (prim_zero q)" by simp
      then obtain q' where "t' = GPrim True q'" by (cases t') auto
      with 1 simple u(3) show ?thesis by (simp add: carrier_def content_def)
    qed (use simple u(3) in \<open>auto simp: carrier_def content_def\<close>)
  qed
  ultimately show thesis using that p by blast
qed

lemma carrier_trips:
  assumes "carrier v"
  obtains n where "trips_value (Some v) = Some n"
proof -
  obtain h t where h: "iface_var (Some v) = Inr (Some (h, t))" "field_of (content v) = Some (h, t)" "\<not> list_ex is_iface (pointee (Some v))"
    using carrier_var [OF assms] by blast
  from simple_trips [OF _ h(2)] assms obtain n where "trips_pv h t = Some n" by (auto simp: carrier_def)
  with h that show thesis by (simp add: trips_value.simps)
qed

lemma carrier_desc: "carrier v \<Longrightarrow> desc_loc (GIface (Some v)) = desc_field (content v)"
  by (auto simp: carrier_def content_def)

text \<open>A decoded variant is one that makes the trip.\<close>

lemma decoded_any_trips:
  assumes f: "FieldDesc_PVDecode zero_fdesc s = (Inr f, u)" "plain_desc f" "unbounded f" "wf_fdesc f"
    and dec: "dec_pv HDirect (GAny d) s = (Inr (GAny (Some v)), t)"
  obtains n where "trips_pv HDirect (GAny (Some v)) = Some n"
proof -
  obtain v0 w where v0: "createZero f = Inr (Some v0)" and val: "dec_value (Some v0) w = (Inr (Some v), t)"
    and code: "TypeCode (fd_head f) \<noteq> NULL_TYPE_CODE"
  proof -
    from dec f(1) have run: "ifA (TypeCode (fd_head f) = NULL_TYPE_CODE) (retA (GAny None))
        (bindA (liftA (createZero f)) (\<lambda>p. bindA (dec_value p) (\<lambda>p'. retA (GAny p')))) u = (Inr (GAny (Some v)), t)"
      by (simp add: dec_pv.simps bindA_Inr [where m = "FieldDesc_PVDecode zero_fdesc"])
    then have code: "TypeCode (fd_head f) \<noteq> NULL_TYPE_CODE" by (auto simp: retA_def)
    with run obtain p w where p: "createZero f = Inr p" "dec_value p w = (Inr (Some v), t)"
      by (auto simp: retA_def liftA_def elim!: bindA_InrE)
    then obtain v0 where "p = Some v0" by (cases p) (auto simp: dec_value.simps iface_var_def seqA_def bindA_def iface_reads_def retA_def failA_def)
    with p code that show thesis by blast
  qed
  have c0: "carrier v0" "blank v0 = v0" using created_carrier [OF f(2,3) v0] created_simple [OF f(2,3) v0] by simp_all
  have v: "carrier v" "blank v = v0" using carrier_decoded [OF c0(1) val] c0(2) by auto
  obtain n where n: "trips_value (Some v) = Some n" using carrier_trips [OF v(1)] .
  have "same_desc (desc_field (content v)) (desc_field (content v0))"
  proof -
    have "blank (content v) = content v0" using v by (auto simp: carrier_def content_def)
    then show ?thesis using simple_desc [of "content v"] v(1) by (simp add: carrier_def)
  qed
  then obtain f' where f': "desc_loc (GIface (Some v)) = Inr f'" "wire_desc f' = f"
    using created_describes [OF f(2) v0] carrier_desc [OF c0(1)] carrier_desc [OF v(1)] wire_desc_plain [OF f(2,3)]
    by (auto simp: same_desc_def simp del: desc_loc.simps)
  have "TypeCode (fd_head f') = TypeCode (fd_head f)" using wire_desc_head [of f'] f'(2) by simp
  then have "trips_pv HDirect (GAny (Some v)) = Some n"
    using f' f(4) code v0 v(2) n by (simp add: trips_pv.simps del: desc_loc.simps)
  then show thesis by (rule that)
qed

section \<open>Properties\<close>

text \<open>C4: A variant that was received can be sent on: if its description, as it came over the wire, is one of
  scalars and structures of them, then what \<open>PVAny.PVDecode\<close> made of it can be encoded, in either byte
  order, and the next receiver decodes the same value, taking exactly the bytes written. Bounded
  strings are left out: their bound is not looked at when they are decoded, so they may not be
  encodable.\<close>

theorem variant_forwarded:
  assumes "FieldDesc_PVDecode zero_fdesc s = (Inr f, u)" and "plain_desc f" and "unbounded f" and "wf_fdesc f"
    and "dec_pv HDirect (GAny d) s = (Inr (GAny (Some v)), t)"
  shows "\<exists>e. enc_pv HDirect (GAny (Some v)) (encoder bo) = (Inr (), e) \<and>
    dec_pv HDirect (GAny None) (decoder bo (ebuf e @ rest)) = (Inr (GAny (Some v)), decoder bo rest)"
proof -
  obtain n where n: "trips_pv HDirect (GAny (Some v)) = Some n" using decoded_any_trips [OF assms] .
  obtain bs where w: "writes bo (enc_pv HDirect (GAny (Some v))) () bs n"
    and r: "reads False bo (dec_pv HDirect (blank (GAny (Some v)))) (GAny (Some v)) bs n"
    using trips(1) [rule_format, OF n] by (auto simp: trip_def)
  from readsD [OF r, of "decoder bo (bs @ rest)" rest] writesD [OF w, of "encoder bo"]
  show ?thesis by (auto simp: bits_set_def decoder_def)
qed

theorem variant_forwarded_witness:
  "\<exists>e. enc_pv HDirect (GAny (Some (GPVStructure [] (GStruct [] [(''Record'', ''record'', GPrim True (PVUByte 7))])))) (encoder LittleEndian) =
      (Inr (), e) \<and>
    dec_pv HDirect (GAny None) (decoder LittleEndian (ebuf e @ [1])) =
      (Inr (GAny (Some (GPVStructure [] (GStruct [] [(''Record'', ''record'', GPrim True (PVUByte 7))])))), decoder LittleEndian [1])"
proof (rule variant_forwarded)
  let ?f = "struct_desc [] [(''record'', code_desc UBYTE)]"
  show f: "FieldDesc_PVDecode zero_fdesc (decoder BigEndian (fdesc_wire BigEndian ?f @ [7])) = (Inr ?f, decoder BigEndian [7])"
    by (subst FieldDesc_dec [where f = ?f and bo = BigEndian and rest = "[7]"])
      (simp_all add: struct_desc_def code_desc_def wf_head_def zero_head_def has_size_def string_ok_def len_ok_def size_norm_def)
  show "plain_desc ?f" "unbounded ?f" "wf_fdesc ?f"
    by (simp_all add: struct_desc_def code_desc_def wf_head_def zero_head_def has_size_def string_ok_def len_ok_def size_norm_def ntTypes_def)
  have "go_field_name ''record'' = Inr ''Record''" "valid_field_name ''Record''" by code_simp+
  then have "createZero ?f = Inr (Some (GPVStructure [] (GStruct [] [(''Record'', ''record'', GPrim True (PVUByte 0))])))"
    by (simp add: struct_desc_def code_desc_def zero_head_def createZero.simps prim_of_code.simps struct_of_def
        del: go_field_name.simps valid_field_name.simps)
  with f show "dec_pv HDirect (GAny None) (decoder BigEndian (fdesc_wire BigEndian ?f @ [7])) =
      (Inr (GAny (Some (GPVStructure [] (GStruct [] [(''Record'', ''record'', GPrim True (PVUByte 7))])))), decoder BigEndian [])"
    by (simp add: dec_pv.simps dec_value.simps dec_field.simps iface_var_def struct_desc_def zero_head_def act_simps
        field_options_def parse_tag_name has_tag_def next_field_def field_selected_def full_struct_def scalar_dec_defs
        read_byte_def decoder_def)
qed

end
