(* ===== verification/PV_Monitor.thy ===== *)
theory PV_Monitor
  imports PV_Types "HOL-Library.Sublist"
begin

text \<open>
  Monitors: the flow control of internal/server/monitor/monitor.go between a source of values and
  a subscriber, and its loop over a \<open>types.Nexter\<close>, whose contract is a locale.

  Every operation runs under the monitor's mutex, so the behaviours are the sequences of
  operations; \<open>mon_run\<close> runs one.
\<close>

section \<open>The monitor\<close>

text \<open>
  \<open>sendValue\<close> is the list of the values it has been called with, \<open>cancelled\<close> says that the context
  of the loop is. Values are what an interface holds; \<open>None\<close> is nil. The window is a Go int: an
  acknowledgement adds an int32 to it, so it would take \<open>2 ^ 32\<close> of them to wrap it.
\<close>

record Monitor =
  sendValue :: "gval list"
  cancelled :: bool
  pipeline :: bool
  running :: bool
  windowOpen :: int
  toSend :: "gval option"

definition Monitor_New :: "gval \<Rightarrow> Monitor" where
  "Monitor_New request =
     (let field = PVStructure_SubField request [''record'', ''_options'', ''pipeline''];
          pipe = (case field of Inr f \<Rightarrow> (case BoolValue f of Some b \<Rightarrow> b | None \<Rightarrow> False) | Inl e \<Rightarrow> False)
      in \<lparr>sendValue = [], cancelled = False, pipeline = pipe, running = False, windowOpen = 0, toSend = None\<rparr>)"

definition Monitor_drain :: "Monitor \<Rightarrow> Monitor" where
  "Monitor_drain m =
     (if running m \<and> (\<not> pipeline m \<or> windowOpen m > 0) then
        (case toSend m of
           None \<Rightarrow> m
         | Some v \<Rightarrow>
             (let m' = (if windowOpen m > 0 then m\<lparr>windowOpen := windowOpen m - 1\<rparr> else m)
              in m'\<lparr>sendValue := sendValue m' @ [v], toSend := None\<rparr>))
      else m)"

definition Monitor_Start :: "Monitor \<Rightarrow> Monitor" where
  "Monitor_Start m = Monitor_drain (m\<lparr>running := True\<rparr>)"

definition Monitor_Stop :: "Monitor \<Rightarrow> Monitor" where
  "Monitor_Stop m = Monitor_drain (m\<lparr>running := False\<rparr>)"

definition Monitor_Ack :: "int \<Rightarrow> Monitor \<Rightarrow> Monitor" where
  "Monitor_Ack nfree m = Monitor_drain (m\<lparr>windowOpen := windowOpen m + nfree\<rparr>)"

definition Monitor_Send :: "gval option \<Rightarrow> Monitor \<Rightarrow> Monitor" where
  "Monitor_Send value m = Monitor_drain (m\<lparr>toSend := value\<rparr>)"

definition Monitor_Terminate :: "Monitor \<Rightarrow> Monitor" where
  "Monitor_Terminate m = m\<lparr>cancelled := True\<rparr>"

section \<open>Sequences of operations\<close>

datatype mon_op = OpStart | OpStop | OpAck int | OpSend "gval option" | OpTerminate

fun mon_do :: "mon_op \<Rightarrow> Monitor \<Rightarrow> Monitor" where
  "mon_do OpStart m = Monitor_Start m"
| "mon_do OpStop m = Monitor_Stop m"
| "mon_do (OpAck n) m = Monitor_Ack n m"
| "mon_do (OpSend v) m = Monitor_Send v m"
| "mon_do OpTerminate m = Monitor_Terminate m"

definition mon_run :: "mon_op list \<Rightarrow> Monitor \<Rightarrow> Monitor" where
  "mon_run ops m = fold mon_do ops m"

lemma mon_run_simps [simp]:
  "mon_run [] m = m" "mon_run (ops @ [op]) m = mon_do op (mon_run ops m)"
  by (simp_all add: mon_run_def)

text \<open>What the operations gave: the values, in order, and the sum of the acknowledgements.\<close>

fun given :: "mon_op list \<Rightarrow> gval list" where
  "given [] = []"
| "given (OpSend (Some v) # ops) = v # given ops"
| "given (op # ops) = given ops"

fun acked :: "mon_op list \<Rightarrow> int" where
  "acked [] = 0"
| "acked (OpAck n # ops) = n + acked ops"
| "acked (op # ops) = acked ops"

lemma given_append [simp]: "given (xs @ ys) = given xs @ given ys"
  by (induction xs rule: given.induct) simp_all

lemma acked_append [simp]: "acked (xs @ ys) = acked xs + acked ys"
  by (induction xs rule: acked.induct) simp_all

text \<open>The abstract subscriber: a box with the latest value, emptied whenever sending is allowed.\<close>

definition allowed :: "Monitor \<Rightarrow> bool" where
  "allowed m \<longleftrightarrow> running m \<and> (\<not> pipeline m \<or> windowOpen m > 0)"

lemma drain_cases:
  obtains "Monitor_drain m = m" "allowed m \<longrightarrow> toSend m = None"
  | v w where "allowed m" "toSend m = Some v" "windowOpen m > 0 \<Longrightarrow> w = windowOpen m - 1" "windowOpen m \<le> 0 \<Longrightarrow> w = windowOpen m"
      "Monitor_drain m = m\<lparr>sendValue := sendValue m @ [v], toSend := None, windowOpen := w\<rparr>"
proof (cases "allowed m \<and> toSend m \<noteq> None")
  case True
  then obtain v where v: "allowed m" "toSend m = Some v" by auto
  show ?thesis
  proof (cases "windowOpen m > 0")
    case w: True
    with v show ?thesis by (intro that(2) [of v "windowOpen m - 1"]; cases m) (simp_all add: Monitor_drain_def allowed_def Let_def)
  next
    case False
    with v show ?thesis by (intro that(2) [of v "windowOpen m"]; cases m) (simp_all add: Monitor_drain_def allowed_def Let_def)
  qed
next
  case False
  then show ?thesis by (intro that(1)) (auto simp: Monitor_drain_def allowed_def split: option.splits)
qed

text \<open>
  The invariant of a run: what was sent is a subsequence of what was given; a value that waits is
  the last one given; in a pipelined monitor every value sent has used up one acknowledgement; and
  no value waits while sending is allowed.
\<close>

definition mon_inv :: "bool \<Rightarrow> mon_op list \<Rightarrow> Monitor \<Rightarrow> bool" where
  "mon_inv pipe ops m \<longleftrightarrow> pipeline m = pipe \<and>
     (case toSend m of None \<Rightarrow> subseq (sendValue m) (given ops)
      | Some v \<Rightarrow> (\<exists>vs. given ops = vs @ [v] \<and> subseq (sendValue m) vs)) \<and>
     (pipe \<longrightarrow> windowOpen m = acked ops - int (length (sendValue m))) \<and>
     (allowed m \<longrightarrow> toSend m = None)"

text \<open>The invariant before the drain at the end of an operation.\<close>

definition mon_pre :: "bool \<Rightarrow> mon_op list \<Rightarrow> Monitor \<Rightarrow> bool" where
  "mon_pre pipe ops m \<longleftrightarrow> pipeline m = pipe \<and>
     (case toSend m of None \<Rightarrow> subseq (sendValue m) (given ops)
      | Some v \<Rightarrow> (\<exists>vs. given ops = vs @ [v] \<and> subseq (sendValue m) vs)) \<and>
     (pipe \<longrightarrow> windowOpen m = acked ops - int (length (sendValue m)))"

lemma drain_inv: "mon_pre pipe ops m \<Longrightarrow> mon_inv pipe ops (Monitor_drain m)"
proof (cases m rule: drain_cases)
  case 1
  then show "mon_pre pipe ops m \<Longrightarrow> ?thesis" by (simp add: mon_inv_def mon_pre_def)
next
  case (2 v w)
  moreover assume "mon_pre pipe ops m"
  ultimately show ?thesis by (auto simp: mon_inv_def mon_pre_def allowed_def)
qed

lemma subseq_snoc: "subseq xs ys \<Longrightarrow> subseq xs (ys @ [y])"
  by (rule list_emb_prefix)

lemma mon_step_inv:
  assumes "mon_inv pipe ops m"
  shows "mon_inv pipe (ops @ [op]) (mon_do op m)"
proof (cases op)
  case (OpSend v)
  have "subseq (sendValue m) (given ops)"
    using assms by (auto simp: mon_inv_def subseq_snoc split: option.splits)
  then have "mon_pre pipe (ops @ [op]) (m\<lparr>toSend := v\<rparr>)"
    using assms by (cases v) (auto simp: OpSend mon_inv_def mon_pre_def)
  from drain_inv [OF this] show ?thesis by (simp add: OpSend Monitor_Send_def)
next
  case OpTerminate
  with assms show ?thesis by (cases "toSend m") (auto simp: Monitor_Terminate_def mon_inv_def allowed_def)
next
  case OpStart
  with assms have "mon_pre pipe (ops @ [op]) (m\<lparr>running := True\<rparr>)"
    by (cases "toSend m") (simp_all add: mon_inv_def mon_pre_def)
  from drain_inv [OF this] show ?thesis by (simp add: OpStart Monitor_Start_def)
next
  case OpStop
  with assms have "mon_pre pipe (ops @ [op]) (m\<lparr>running := False\<rparr>)"
    by (cases "toSend m") (simp_all add: mon_inv_def mon_pre_def)
  from drain_inv [OF this] show ?thesis by (simp add: OpStop Monitor_Stop_def)
next
  case (OpAck n)
  with assms have "mon_pre pipe (ops @ [op]) (m\<lparr>windowOpen := windowOpen m + n\<rparr>)"
    by (cases "toSend m") (simp_all add: mon_inv_def mon_pre_def)
  from drain_inv [OF this] show ?thesis by (simp add: OpAck Monitor_Ack_def)
qed

definition fresh_monitor :: "bool \<Rightarrow> Monitor" where
  "fresh_monitor pipe =
     \<lparr>sendValue = [], cancelled = False, pipeline = pipe, running = False, windowOpen = 0, toSend = None\<rparr>"

lemma Monitor_New_fresh: "Monitor_New request = fresh_monitor (pipeline (Monitor_New request))"
  by (simp add: Monitor_New_def fresh_monitor_def Let_def)

lemma fresh_monitor_pipeline: "pipeline (fresh_monitor pipe) = pipe"
  by (simp add: fresh_monitor_def)

lemma mon_run_inv: "mon_inv pipe ops (mon_run ops (fresh_monitor pipe))"
proof (induction ops rule: rev_induct)
  case Nil
  then show ?case by (simp add: mon_inv_def fresh_monitor_def)
next
  case (snoc op ops)
  then show ?case by (simp add: mon_step_inv)
qed

text \<open>When nothing waits and the last operation gave a value that was not nil, that value was sent last.\<close>

lemma mon_step_sends:
  "sendValue (mon_do op m) = sendValue m \<or>
   (\<exists>v. sendValue (mon_do op m) = sendValue m @ [v] \<and> running (mon_do op m) \<and> toSend (mon_do op m) = None)"
proof -
  have drain: "sendValue (Monitor_drain n) = sendValue n \<or>
      (\<exists>v. sendValue (Monitor_drain n) = sendValue n @ [v] \<and> running (Monitor_drain n) \<and> toSend (Monitor_drain n) = None)" for n
    by (cases n rule: drain_cases) (auto simp: allowed_def)
  show ?thesis
    by (cases op) (use drain [of "m\<lparr>running := True\<rparr>"] drain [of "m\<lparr>running := False\<rparr>"]
        drain [of "m\<lparr>toSend := _\<rparr>"] drain [of "m\<lparr>windowOpen := windowOpen m + _\<rparr>"] in
        \<open>auto simp: Monitor_Start_def Monitor_Stop_def Monitor_Ack_def Monitor_Send_def Monitor_Terminate_def\<close>)
qed

section \<open>The loop over a source of values\<close>

text \<open>
  \<open>types.Nexter\<close>: \<open>Next\<close> under a context that may be cancelled blocks (\<open>None\<close>), or returns a value or
  an error. One round of \<open>Watch\<close>; \<open>alive\<close> is false once the loop has returned.
\<close>

type_synonym 's nexter = "bool \<Rightarrow> 's \<Rightarrow> ((gerr + gval option) \<times> 's) option"

definition Monitor_Watch_round :: "'s nexter \<Rightarrow> 's \<times> Monitor \<times> bool \<Rightarrow> 's \<times> Monitor \<times> bool" where
  "Monitor_Watch_round nxt x = (case x of (s, m, alive) \<Rightarrow>
     if \<not> alive then (s, m, False)
     else if cancelled m then (s, m, False)
     else case nxt (cancelled m) s of
       None \<Rightarrow> (s, m, True)
     | Some (Inl e, t) \<Rightarrow> (t, m, False)
     | Some (Inr v, t) \<Rightarrow> (t, Monitor_Send v m, True))"

text \<open>
  What the monitor needs of the source: \<open>Next\<close> returns the current value when that has changed since
  the last call, and blocks otherwise; every change is noticed.
\<close>

locale latest_source =
  fixes nxt :: "'s nexter" and put :: "gval option \<Rightarrow> 's \<Rightarrow> 's" and current :: "'s \<Rightarrow> gval" and changed :: "'s \<Rightarrow> bool"
    and invar :: "'s \<Rightarrow> bool"
  assumes nxt_changed: "invar s \<Longrightarrow> changed s \<Longrightarrow>
      \<exists>t. nxt c s = Some (Inr (Some (current s)), t) \<and> current t = current s \<and> \<not> changed t \<and> invar t"
    and nxt_blocks: "invar s \<Longrightarrow> \<not> changed s \<Longrightarrow> nxt False s = None"
    and put_changes: "invar s \<Longrightarrow> changed (put v s) \<and> invar (put v s)"
begin

text \<open>
  What a subscriber may rely on: unless the source has changed, the monitor has the current value
  waiting or has sent it last, and nothing waits that may be sent.
\<close>

definition in_step :: "'s \<times> Monitor \<times> bool \<Rightarrow> bool" where
  "in_step x \<longleftrightarrow> (case x of (s, m, alive) \<Rightarrow> invar s \<and> (alive \<or> cancelled m) \<and> (allowed m \<longrightarrow> toSend m = None) \<and>
     (changed s \<or> toSend m = Some (current s) \<or> toSend m = None \<and> sendValue m \<noteq> [] \<and> last (sendValue m) = current s))"

lemma in_step_drain:
  assumes "b \<or> toSend m = Some v \<or> toSend m = None \<and> sendValue m \<noteq> [] \<and> last (sendValue m) = v"
  shows "(allowed (Monitor_drain m) \<longrightarrow> toSend (Monitor_drain m) = None) \<and> cancelled (Monitor_drain m) = cancelled m \<and>
    (b \<or> toSend (Monitor_drain m) = Some v \<or>
    toSend (Monitor_drain m) = None \<and> sendValue (Monitor_drain m) \<noteq> [] \<and> last (sendValue (Monitor_drain m)) = v)"
  using assms by (cases m rule: drain_cases) auto

lemma in_step_round:
  assumes "in_step (s, m, alive)"
  shows "in_step (Monitor_Watch_round nxt (s, m, alive))"
proof (cases "alive \<and> \<not> cancelled m")
  case True
  have invar: "invar s" using assms by (simp add: in_step_def)
  show ?thesis
  proof (cases "changed s")
    case ch: True
    then obtain t where t: "nxt False s = Some (Inr (Some (current s)), t)" "current t = current s" "invar t"
      using nxt_changed [OF invar ch] by blast
    with True in_step_drain [of False "m\<lparr>toSend := Some (current s)\<rparr>" "current s"]
    show ?thesis by (simp add: Monitor_Watch_round_def in_step_def Monitor_Send_def)
  next
    case False
    with True assms nxt_blocks [OF invar] show ?thesis by (simp add: Monitor_Watch_round_def)
  qed
next
  case False
  with assms show ?thesis by (auto simp: Monitor_Watch_round_def in_step_def)
qed

lemma in_step_put: "in_step (s, m, alive) \<Longrightarrow> in_step (put v s, m, alive)"
  using put_changes by (simp add: in_step_def)

lemma in_step_op:
  assumes "\<forall>v. op \<noteq> OpSend v" and "in_step (s, m, alive)"
  shows "in_step (s, mon_do op m, alive)"
proof -
  have *: "in_step (s, Monitor_drain n, alive)"
    if "toSend n = toSend m" "sendValue n = sendValue m" "cancelled n = cancelled m" for n
    using assms(2) in_step_drain [of "changed s" n "current s"] that by (auto simp: in_step_def)
  show ?thesis
  proof (cases op)
    case OpStart
    then show ?thesis using * [of "m\<lparr>running := True\<rparr>"] by (simp add: Monitor_Start_def)
  next
    case OpStop
    then show ?thesis using * [of "m\<lparr>running := False\<rparr>"] by (simp add: Monitor_Stop_def)
  next
    case (OpAck n)
    then show ?thesis using * [of "m\<lparr>windowOpen := windowOpen m + n\<rparr>"] by (simp add: Monitor_Ack_def)
  next
    case (OpSend v)
    then show ?thesis using assms(1) by simp
  next
    case OpTerminate
    then show ?thesis using assms(2) by (simp add: in_step_def Monitor_Terminate_def allowed_def)
  qed
qed

text \<open>After a round of the loop, a subscriber that may be sent to has the current value.\<close>

lemma round_delivers:
  assumes "in_step (s, m, alive)" and "\<not> cancelled m" and "allowed m"
  shows "\<exists>t n. Monitor_Watch_round nxt (s, m, alive) = (t, n, True) \<and> current t = current s \<and>
    sendValue n \<noteq> [] \<and> last (sendValue n) = current s"
proof -
  have invar: "invar s" and alive: "alive" "toSend m = None" using assms by (simp_all add: in_step_def)
  show ?thesis
  proof (cases "changed s")
    case True
    from nxt_changed [OF invar True] obtain t where "nxt False s = Some (Inr (Some (current s)), t)" "current t = current s"
      by blast
    with assms(2,3) alive show ?thesis
      by (auto simp: Monitor_Watch_round_def Monitor_Send_def Monitor_drain_def allowed_def Let_def)
  next
    case False
    with assms alive nxt_blocks [OF invar False] show ?thesis by (auto simp: Monitor_Watch_round_def in_step_def)
  qed
qed

end

section \<open>The mailbox\<close>

text \<open>
  What a monitor promises, as an automaton with labelled steps: a mailbox for one value, a gate and,
  in a pipelined monitor, credit. The operations of the monitor are its inputs; its output is the
  value it hands to the subscriber, which is possible only while the gate is open and there is
  credit, of which each output takes one.
\<close>

record mbox =
  mb_pending :: "gval option"
  mb_open :: bool
  mb_credit :: "int option"

datatype mbox_act = In mon_op | Out gval

inductive mbox_step :: "mbox \<Rightarrow> mbox_act \<Rightarrow> mbox \<Rightarrow> bool" where
  put: "mbox_step b (In (OpSend v)) (b\<lparr>mb_pending := v\<rparr>)"
| opened: "mbox_step b (In OpStart) (b\<lparr>mb_open := True\<rparr>)"
| closed: "mbox_step b (In OpStop) (b\<lparr>mb_open := False\<rparr>)"
| grant: "mbox_step b (In (OpAck n)) (b\<lparr>mb_credit := map_option (\<lambda>k. k + n) (mb_credit b)\<rparr>)"
| ended: "mbox_step b (In OpTerminate) b"
| free: "mb_open b \<Longrightarrow> mb_pending b = Some v \<Longrightarrow> mb_credit b = None \<Longrightarrow>
     mbox_step b (Out v) (b\<lparr>mb_pending := None\<rparr>)"
| paid: "mb_open b \<Longrightarrow> mb_pending b = Some v \<Longrightarrow> mb_credit b = Some k \<Longrightarrow> k > 0 \<Longrightarrow>
     mbox_step b (Out v) (b\<lparr>mb_pending := None, mb_credit := Some (k - 1)\<rparr>)"

inductive_simps mbox_out_iff: "mbox_step b (Out v) b'"

inductive mbox_trace :: "mbox \<Rightarrow> mbox_act list \<Rightarrow> mbox \<Rightarrow> bool" where
  empty_trace: "mbox_trace b [] b"
| step_trace: "mbox_step b a c \<Longrightarrow> mbox_trace c tr d \<Longrightarrow> mbox_trace b (a # tr) d"

lemma mbox_trace_append: "mbox_trace b tr c \<Longrightarrow> mbox_trace c tr' d \<Longrightarrow> mbox_trace b (tr @ tr') d"
  by (induction rule: mbox_trace.induct) (simp_all add: mbox_trace.step_trace)

definition fresh_mbox :: "bool \<Rightarrow> mbox" where
  "fresh_mbox pipe = \<lparr>mb_pending = None, mb_open = False, mb_credit = (if pipe then Some 0 else None)\<rparr>"

text \<open>
  The observable behaviour of a monitor: each operation, followed by the values it has called
  \<open>sendValue\<close> with while that operation held the mutex.
\<close>

fun mon_trace :: "mon_op list \<Rightarrow> Monitor \<Rightarrow> mbox_act list" where
  "mon_trace [] m = []"
| "mon_trace (op # ops) m =
     In op # List.map Out (drop (length (sendValue m)) (sendValue (mon_do op m))) @ mon_trace ops (mon_do op m)"

definition mbox_of :: "Monitor \<Rightarrow> mbox" where
  "mbox_of m = \<lparr>mb_pending = toSend m, mb_open = running m,
     mb_credit = (if pipeline m then Some (windowOpen m) else None)\<rparr>"

lemma mbox_drain:
  obtains "sendValue (Monitor_drain m) = sendValue m" "mbox_of (Monitor_drain m) = mbox_of m"
  | v where "sendValue (Monitor_drain m) = sendValue m @ [v]" "mbox_step (mbox_of m) (Out v) (mbox_of (Monitor_drain m))"
proof (cases m rule: drain_cases)
  case (2 v w)
  then show ?thesis by (intro that(2) [of v]) (auto simp: mbox_of_def mbox_out_iff allowed_def)
qed (use that(1) in simp)

lemma mbox_drained:
  assumes "mbox_step b (In op) (mbox_of n)"
  shows "mbox_trace b (In op # List.map Out (drop (length (sendValue n)) (sendValue (Monitor_drain n)))) (mbox_of (Monitor_drain n))"
  by (cases n rule: mbox_drain) (use assms in \<open>auto intro!: mbox_trace.intros\<close>)

lemma mbox_simulates:
  "mbox_trace (mbox_of m) (In op # List.map Out (drop (length (sendValue m)) (sendValue (mon_do op m)))) (mbox_of (mon_do op m))"
proof (cases op)
  case OpStart
  have "mbox_step (mbox_of m) (In OpStart) (mbox_of (m\<lparr>running := True\<rparr>))"
    using mbox_step.opened [of "mbox_of m"] by (cases "pipeline m") (simp_all add: mbox_of_def)
  from mbox_drained [OF this] show ?thesis by (simp add: OpStart Monitor_Start_def)
next
  case OpStop
  have "mbox_step (mbox_of m) (In OpStop) (mbox_of (m\<lparr>running := False\<rparr>))"
    using mbox_step.closed [of "mbox_of m"] by (cases "pipeline m") (simp_all add: mbox_of_def)
  from mbox_drained [OF this] show ?thesis by (simp add: OpStop Monitor_Stop_def)
next
  case (OpAck n)
  have "mbox_step (mbox_of m) (In (OpAck n)) (mbox_of (m\<lparr>windowOpen := windowOpen m + n\<rparr>))"
    using mbox_step.grant [of "mbox_of m" n] by (cases "pipeline m") (simp_all add: mbox_of_def)
  from mbox_drained [OF this] show ?thesis by (simp add: OpAck Monitor_Ack_def)
next
  case (OpSend v)
  have "mbox_step (mbox_of m) (In (OpSend v)) (mbox_of (m\<lparr>toSend := v\<rparr>))"
    using mbox_step.put [of "mbox_of m" v] by (cases "pipeline m") (simp_all add: mbox_of_def)
  from mbox_drained [OF this] show ?thesis by (simp add: OpSend Monitor_Send_def)
next
  case OpTerminate
  have "mbox_of (Monitor_Terminate m) = mbox_of m" by (simp add: Monitor_Terminate_def mbox_of_def)
  with mbox_step.ended [of "mbox_of m"] show ?thesis
    by (auto simp: OpTerminate Monitor_Terminate_def intro!: mbox_trace.intros)
qed

lemma mbox_of_fresh: "mbox_of (fresh_monitor pipe) = fresh_mbox pipe"
  by (simp add: mbox_of_def fresh_monitor_def fresh_mbox_def)

lemma mon_trace_mbox: "mbox_trace (mbox_of m) (mon_trace ops m) (mbox_of (mon_run ops m))"
proof (induction ops arbitrary: m)
  case (Cons op ops)
  from mbox_trace_append [OF mbox_simulates [of m op] Cons.IH [of "mon_do op m"]]
  show ?case by (simp add: mon_run_def)
qed (simp add: mon_run_def mbox_trace.empty_trace)

text \<open>What the subscriber is handed, the outputs of a trace.\<close>

definition outputs :: "mbox_act list \<Rightarrow> gval list" where
  "outputs tr = concat (List.map (\<lambda>a. case a of In op \<Rightarrow> [] | Out v \<Rightarrow> [v]) tr)"

definition inputs :: "mbox_act list \<Rightarrow> mon_op list" where
  "inputs tr = concat (List.map (\<lambda>a. case a of In op \<Rightarrow> [op] | Out v \<Rightarrow> []) tr)"

lemma outputs_simps [simp]:
  "outputs [] = []" "outputs (In op # tr) = outputs tr" "outputs (Out v # tr) = v # outputs tr"
  "outputs (tr @ tr') = outputs tr @ outputs tr'" "outputs (List.map Out vs) = vs"
  "inputs [] = []" "inputs (In op # tr) = op # inputs tr" "inputs (Out v # tr) = inputs tr"
  "inputs (tr @ tr') = inputs tr @ inputs tr'" "inputs (List.map Out vs) = []"
  by (induction vs) (simp_all add: outputs_def inputs_def)

lemma mon_trace_inputs: "inputs (mon_trace ops m) = ops"
  by (induction ops arbitrary: m) simp_all

lemma mon_do_extends: "take (length (sendValue m)) (sendValue (mon_do op m)) = sendValue m"
  using mon_step_sends [of op m] by auto

lemma mon_trace_outputs: "sendValue m @ outputs (mon_trace ops m) = sendValue (mon_run ops m)"
proof (induction ops arbitrary: m)
  case (Cons op ops)
  have "sendValue m @ drop (length (sendValue m)) (sendValue (mon_do op m)) = sendValue (mon_do op m)"
    using append_take_drop_id [of "length (sendValue m)" "sendValue (mon_do op m)"] by (simp add: mon_do_extends)
  with Cons.IH [of "mon_do op m"] show ?case by (simp add: mon_run_def flip: append_assoc)
qed (simp add: mon_run_def)

lemma mon_run_window:
  "list_all (\<lambda>op. case op of OpAck n \<Rightarrow> n \<ge> 0 | _ \<Rightarrow> True) ops \<Longrightarrow> windowOpen (mon_run ops (fresh_monitor pipe)) \<ge> 0"
proof (induction ops rule: rev_induct)
  case Nil
  then show ?case by (simp add: fresh_monitor_def)
next
  case (snoc op ops)
  have drain: "windowOpen (Monitor_drain n) \<ge> 0" if "windowOpen n \<ge> 0" for n
    using that by (cases n rule: drain_cases; cases "windowOpen n = 0") auto
  show ?case
    using snoc by (cases op) (auto simp: Monitor_Start_def Monitor_Stop_def Monitor_Ack_def Monitor_Send_def
        Monitor_Terminate_def intro!: drain)
qed

section \<open>Properties\<close>

text \<open>A request for a pipelined monitor, as the program itself could build it, with pointers to structures.\<close>

definition pipelined_request :: gval where
  "pipelined_request = GStruct [] [(''Record'', ''record'', GPtr (GPVStructure [] (GStruct [] [
     (''Options'', ''_options'', GPtr (GPVStructure [] (GStruct [] [(''Pipeline'', ''pipeline'', GPrim True (PVBoolean True))])))])))]"

lemma pipelined: "pipeline (Monitor_New pipelined_request)"
  by code_simp

text \<open>C17: Flow control: in every sequence of operations, what a monitor sends is a subsequence of the
  values it was given, in their order, and a pipelined monitor has sent exactly as many as its
  window is short of the acknowledgements it got.\<close>

theorem monitor_flow:
  "let m = mon_run ops (Monitor_New request) in
   subseq (sendValue m) (given ops) \<and>
   (pipeline (Monitor_New request) \<longrightarrow> int (length (sendValue m)) = acked ops - windowOpen m)"
proof -
  obtain pipe where new: "Monitor_New request = fresh_monitor pipe" using Monitor_New_fresh by blast
  have "mon_inv pipe ops (mon_run ops (fresh_monitor pipe))" by (rule mon_run_inv)
  then show ?thesis unfolding new Let_def
    by (auto simp: mon_inv_def fresh_monitor_pipeline subseq_snoc split: option.splits)
qed

theorem monitor_flow_witness:
  "pipeline (Monitor_New pipelined_request) \<and>
   subseq (sendValue (mon_run [OpStart, OpSend (Some GOther), OpAck 3] (Monitor_New pipelined_request)))
     (given [OpStart, OpSend (Some GOther), OpAck 3]) \<and>
   int (length (sendValue (mon_run [OpStart, OpSend (Some GOther), OpAck 3] (Monitor_New pipelined_request)))) =
     acked [OpStart, OpSend (Some GOther), OpAck 3] -
       windowOpen (mon_run [OpStart, OpSend (Some GOther), OpAck 3] (Monitor_New pipelined_request))"
  using monitor_flow [of "[OpStart, OpSend (Some GOther), OpAck 3]" pipelined_request] pipelined
  unfolding Let_def by blast

text \<open>C18: A pipelined monitor whose acknowledgements are not negative never sends more values than
  were acknowledged, and no monitor sends while it is stopped.\<close>

theorem monitor_safety:
  assumes "list_all (\<lambda>op. case op of OpAck n \<Rightarrow> n \<ge> 0 | _ \<Rightarrow> True) ops"
  shows "(pipeline (Monitor_New request) \<longrightarrow> int (length (sendValue (mon_run ops (Monitor_New request)))) \<le> acked ops) \<and>
    (sendValue (mon_run (ops @ [op]) (Monitor_New request)) = sendValue (mon_run ops (Monitor_New request)) \<or>
     running (mon_run (ops @ [op]) (Monitor_New request)))"
proof -
  obtain pipe where new: "Monitor_New request = fresh_monitor pipe" using Monitor_New_fresh by blast
  have "pipe \<longrightarrow> int (length (sendValue (mon_run ops (fresh_monitor pipe)))) \<le> acked ops"
    using mon_run_inv [of pipe ops] mon_run_window [OF assms, of pipe] by (cases pipe) (simp_all add: mon_inv_def)
  then show ?thesis unfolding new mon_run_simps fresh_monitor_pipeline
    using mon_step_sends [of op "mon_run ops (fresh_monitor pipe)"] by auto
qed

theorem monitor_safety_witness:
  "pipeline (Monitor_New pipelined_request) \<and>
   int (length (sendValue (mon_run [OpStart, OpAck 2] (Monitor_New pipelined_request)))) \<le> acked [OpStart, OpAck 2] \<and>
   (sendValue (mon_run ([OpStart, OpAck 2] @ [OpSend (Some GOther)]) (Monitor_New pipelined_request)) =
      sendValue (mon_run [OpStart, OpAck 2] (Monitor_New pipelined_request)) \<or>
    running (mon_run ([OpStart, OpAck 2] @ [OpSend (Some GOther)]) (Monitor_New pipelined_request)))"
  using monitor_safety [of "[OpStart, OpAck 2]" pipelined_request "OpSend (Some GOther)"] pipelined by simp

text \<open>C19: A monitor refines its mailbox with the same labels: for every request and every sequence of
  operations, the trace of the monitor (each operation and the values it sends then) is a trace of the
  mailbox, from the empty, closed mailbox without credit to the one of the monitor's state; its inputs
  are the operations and its outputs, in order, are all the values sent; and when the operations
  are done no output is possible, so a value never waits that could be delivered.\<close>

theorem monitor_refines_mailbox:
  "let m = Monitor_New request; tr = mon_trace ops m in
   mbox_trace (fresh_mbox (pipeline m)) tr (mbox_of (mon_run ops m)) \<and>
   inputs tr = ops \<and> outputs tr = sendValue (mon_run ops m) \<and>
   (\<nexists>v b. mbox_step (mbox_of (mon_run ops m)) (Out v) b)"
proof -
  obtain pipe where new: "Monitor_New request = fresh_monitor pipe" using Monitor_New_fresh by blast
  have "mon_inv pipe ops (mon_run ops (fresh_monitor pipe))" by (rule mon_run_inv)
  then have "\<nexists>v b. mbox_step (mbox_of (mon_run ops (fresh_monitor pipe))) (Out v) b"
    by (auto simp: mon_inv_def allowed_def mbox_of_def mbox_out_iff)
  moreover have "outputs (mon_trace ops (fresh_monitor pipe)) = sendValue (mon_run ops (fresh_monitor pipe))"
    using mon_trace_outputs [of "fresh_monitor pipe" ops] by (simp add: fresh_monitor_def)
  moreover have "mbox_trace (fresh_mbox pipe) (mon_trace ops (fresh_monitor pipe)) (mbox_of (mon_run ops (fresh_monitor pipe)))"
    using mon_trace_mbox [of "fresh_monitor pipe" ops] by (simp add: mbox_of_fresh)
  ultimately show ?thesis unfolding new Let_def fresh_monitor_pipeline mon_trace_inputs by blast
qed

text \<open>No subscriber of this program gets a pipelined monitor: the request comes over the wire, and in
  a decoded structure the path \<open>record._options.pipeline\<close> is never found.\<close>

theorem pipeline_never_enabled:
  assumes "dec_pv HDirect (GAny d) s = (Inr (GAny (Some (GPVStructure i st))), t)"
  shows "\<not> pipeline (Monitor_New st)"
  using flat_SubField [OF decoded_any_flat [OF assms]] by (simp add: Monitor_New_def Let_def BoolValue_def del: PVStructure_SubField.simps)

theorem pipeline_never_enabled_witness:
  "\<not> pipeline (Monitor_New (GStruct [] []))"
proof (rule pipeline_never_enabled)
  let ?f = "struct_desc [] []"
  have "FieldDesc_PVDecode zero_fdesc (decoder BigEndian (fdesc_wire BigEndian ?f @ [])) = (Inr ?f, decoder BigEndian [])"
    by (subst FieldDesc_dec [where f = ?f and bo = BigEndian and rest = "[]"])
      (simp_all add: struct_desc_def wf_head_def zero_head_def has_size_def string_ok_def len_ok_def size_norm_def)
  moreover have "createZero ?f = Inr (Some (GPVStructure [] (GStruct [] [])))"
    by (simp add: struct_desc_def zero_head_def createZero.simps prim_of_code.simps struct_of_def)
  ultimately show "dec_pv HDirect (GAny None) (decoder BigEndian (fdesc_wire BigEndian ?f @ [])) =
      (Inr (GAny (Some (GPVStructure [] (GStruct [] [])))), decoder BigEndian [])"
    by (simp add: dec_pv.simps dec_value.simps iface_var_def struct_desc_def zero_head_def act_simps)
qed

end
