(* ===== verification/PV_Channel.thy ===== *)
theory PV_Channel
  imports PV_Monitor
begin

text \<open>
  \<open>SimpleChannel\<close> of channels.go: a named variable whose changes are counted, and the watch that a
  monitor follows it with. The watch meets the contract \<open>latest_source\<close> of the monitor's loop.
\<close>

section \<open>The channel\<close>

text \<open>The condition variable carries no data: a change wakes every \<open>Next\<close> that blocks.\<close>

record SimpleChannel =
  sc_name :: string
  sc_value :: "gval option"
  sc_seq :: int

definition NewSimpleChannel :: "string \<Rightarrow> SimpleChannel" where
  "NewSimpleChannel name = \<lparr>sc_name = name, sc_value = None, sc_seq = 0\<rparr>"

definition SimpleChannel_Get :: "SimpleChannel \<Rightarrow> gval option" where
  "SimpleChannel_Get c = sc_value c"

definition SimpleChannel_Set :: "gval option \<Rightarrow> SimpleChannel \<Rightarrow> SimpleChannel" where
  "SimpleChannel_Set value c = c\<lparr>sc_value := value, sc_seq := sc_seq c + 1\<rparr>"

definition SimpleChannel_CreateChannel :: "SimpleChannel \<Rightarrow> string \<Rightarrow> SimpleChannel option" where
  "SimpleChannel_CreateChannel c name = (if sc_name c = name then Some c else None)"

definition SimpleChannel_ChannelList :: "SimpleChannel \<Rightarrow> string list" where
  "SimpleChannel_ChannelList c = [sc_name c]"

text \<open>\<open>\&bareScalar\{Value: value\}\<close>.\<close>

definition bareScalar :: "gval option \<Rightarrow> gval" where
  "bareScalar value = GPtr (GStruct ''epics:nt/NTScalar:1.0'' [(''Value'', ''value'', GIface value)])"

definition SimpleChannel_ChannelGet :: "SimpleChannel \<Rightarrow> gval option" where
  "SimpleChannel_ChannelGet c = Some (bareScalar (sc_value c))"

section \<open>The watch\<close>

text \<open>The state of a watch is the channel and the number of the last change it has returned.\<close>

type_synonym watch = "SimpleChannel \<times> int"

definition SimpleChannel_CreateChannelMonitor :: "SimpleChannel \<Rightarrow> watch" where
  "SimpleChannel_CreateChannelMonitor c = (c, -1)"

definition watch_Next :: "watch nexter" where
  "watch_Next ctx_cancelled w = (case w of (c, seq) \<Rightarrow>
     if seq \<ge> sc_seq c then (if ctx_cancelled then Some (Inl Cancelled, (c, seq)) else None)
     else Some (Inr (Some (bareScalar (sc_value c))), (c, sc_seq c)))"

definition watch_put :: "gval option \<Rightarrow> watch \<Rightarrow> watch" where
  "watch_put v w = (SimpleChannel_Set v (fst w), snd w)"

interpretation watch: latest_source watch_Next watch_put "\<lambda>w. bareScalar (sc_value (fst w))"
    "\<lambda>w. snd w < sc_seq (fst w)" "\<lambda>w. snd w \<le> sc_seq (fst w)"
  by unfold_locales (auto simp: watch_Next_def watch_put_def SimpleChannel_Set_def)

section \<open>A monitored channel\<close>

text \<open>
  How \<open>handleChannelMonitor\<close> begins with a channel that holds a variable: it takes the first value
  from the watch itself, builds the monitor, whose loop runs from then on, and passes it the
  client's first acknowledgement. \<open>None\<close>: \<open>Next\<close> blocks or fails.
\<close>

definition monitored :: "SimpleChannel \<Rightarrow> gval \<Rightarrow> int \<Rightarrow> (gval option \<times> watch \<times> Monitor \<times> bool) option" where
  "monitored c args nfree =
     (case watch_Next False (SimpleChannel_CreateChannelMonitor c) of
        Some (Inr v, w) \<Rightarrow> Some (v, w, Monitor_Ack nfree (Monitor_New args), True)
      | _ \<Rightarrow> None)"

text \<open>
  What happens to a channel with one subscriber from then on, in any order: the program sets a value,
  the monitor's loop makes a round, the handler sends the first value (\<open>EvFirst\<close>), or a message of the
  client makes the server call an operation of the monitor.
\<close>

datatype chan_event = EvSet "gval option" | EvWatch | EvFirst "gval option" | EvStart | EvStop | EvAck int | EvTerminate

fun chan_do :: "chan_event \<Rightarrow> watch \<times> Monitor \<times> bool \<Rightarrow> watch \<times> Monitor \<times> bool" where
  "chan_do (EvSet v) (w, m, alive) = (watch_put v w, m, alive)"
| "chan_do EvWatch x = Monitor_Watch_round watch_Next x"
| "chan_do (EvFirst v) (w, m, alive) = (w, mon_do (OpSend v) m, alive)"
| "chan_do EvStart (w, m, alive) = (w, mon_do OpStart m, alive)"
| "chan_do EvStop (w, m, alive) = (w, mon_do OpStop m, alive)"
| "chan_do (EvAck n) (w, m, alive) = (w, mon_do (OpAck n) m, alive)"
| "chan_do EvTerminate (w, m, alive) = (w, mon_do OpTerminate m, alive)"

definition chan_run :: "chan_event list \<Rightarrow> watch \<times> Monitor \<times> bool \<Rightarrow> watch \<times> Monitor \<times> bool" where
  "chan_run evs x = fold chan_do evs x"

lemma chan_run_simps [simp]:
  "chan_run [] x = x" "chan_run (ev # evs) x = chan_run evs (chan_do ev x)"
  "chan_run (evs @ evs') x = chan_run evs' (chan_run evs x)"
  by (simp_all add: chan_run_def)

text \<open>The handler sends its first value once.\<close>

definition no_first :: "chan_event list \<Rightarrow> bool" where
  "no_first evs = list_all (\<lambda>ev. case ev of EvFirst v \<Rightarrow> False | _ \<Rightarrow> True) evs"

text \<open>The number of the last change that the watch has returned.\<close>

definition returned :: "watch \<times> Monitor \<times> bool \<Rightarrow> int" where
  "returned x = snd (fst x)"

text \<open>What every order of events keeps, whatever is sent to the monitor.\<close>

definition chan_ok :: "watch \<times> Monitor \<times> bool \<Rightarrow> bool" where
  "chan_ok x \<longleftrightarrow> (case x of (w, m, alive) \<Rightarrow>
     snd w \<le> sc_seq (fst w) \<and> (alive \<or> cancelled m) \<and> (allowed m \<longrightarrow> toSend m = None))"

lemma drain_ok: "(allowed (Monitor_drain m) \<longrightarrow> toSend (Monitor_drain m) = None) \<and> cancelled (Monitor_drain m) = cancelled m"
  by (cases m rule: drain_cases) auto

lemma mon_do_ok:
  assumes "allowed m \<longrightarrow> toSend m = None"
  shows "(allowed (mon_do op m) \<longrightarrow> toSend (mon_do op m) = None) \<and> (cancelled m \<longrightarrow> cancelled (mon_do op m))"
  using assms by (cases op) (simp_all add: drain_ok Monitor_Start_def Monitor_Stop_def Monitor_Ack_def Monitor_Send_def
      Monitor_Terminate_def allowed_def)

lemma chan_ok_step: "chan_ok x \<Longrightarrow> chan_ok (chan_do ev x)"
proof -
  assume ok: "chan_ok x"
  obtain w m alive where x: "x = (w, m, alive)" by (cases x)
  have op: "chan_ok (w, mon_do op m, alive)" for op
    using ok mon_do_ok [of m op] by (auto simp: x chan_ok_def)
  show ?thesis
  proof (cases ev)
    case (EvSet v)
    then show ?thesis using ok by (simp add: x chan_ok_def watch_put_def SimpleChannel_Set_def)
  next
    case EvWatch
    then show ?thesis using ok mon_do_ok [of m "OpSend _"]
      by (cases w) (auto simp: x chan_ok_def Monitor_Watch_round_def watch_Next_def)
  qed (simp_all add: x op del: mon_do.simps)
qed

lemma chan_ok_run: "chan_ok x \<Longrightarrow> chan_ok (chan_run evs x)"
  by (induction evs arbitrary: x) (simp_all add: chan_ok_step)

lemma in_step_set: "chan_ok x \<Longrightarrow> watch.in_step (chan_do (EvSet v) x)"
  by (cases x) (simp add: chan_ok_def watch.in_step_def watch_put_def SimpleChannel_Set_def)

lemma in_step_first:
  assumes "chan_ok (w, m, alive)" and "snd w < sc_seq (fst w) \<or> v = Some (bareScalar (sc_value (fst w)))"
  shows "watch.in_step (chan_do (EvFirst v) (w, m, alive))"
proof -
  have "snd w < sc_seq (fst w) \<or> toSend (m\<lparr>toSend := v\<rparr>) = Some (bareScalar (sc_value (fst w))) \<or>
      toSend (m\<lparr>toSend := v\<rparr>) = None \<and> sendValue (m\<lparr>toSend := v\<rparr>) \<noteq> [] \<and>
        last (sendValue (m\<lparr>toSend := v\<rparr>)) = bareScalar (sc_value (fst w))"
    using assms(2) by auto
  from watch.in_step_drain [OF this] assms(1) show ?thesis
    by (simp add: watch.in_step_def chan_ok_def Monitor_Send_def)
qed

lemma in_step_step:
  assumes "watch.in_step x" and "no_first [ev]"
  shows "watch.in_step (chan_do ev x)"
proof -
  obtain w m alive where x: "x = (w, m, alive)" by (cases x)
  show ?thesis using assms
    by (cases ev) (simp_all add: x no_first_def watch.in_step_round watch.in_step_put watch.in_step_op del: mon_do.simps)
qed

lemma in_step_run: "watch.in_step x \<Longrightarrow> no_first evs \<Longrightarrow> watch.in_step (chan_run evs x)"
  by (induction evs arbitrary: x) (simp_all add: in_step_step no_first_def)

lemma in_step_run_set:
  assumes "chan_ok x" and "no_first evs" and "EvSet v \<in> set evs"
  shows "watch.in_step (chan_run evs x)"
proof -
  from split_list [OF assms(3)] obtain xs ys where evs: "evs = xs @ EvSet v # ys" by blast
  show ?thesis using assms(2) in_step_run [OF in_step_set [OF chan_ok_run [OF assms(1)]]]
    by (simp add: evs no_first_def)
qed

text \<open>As long as the watch has returned no later change, the value is the one it returned, or there is a change to return.\<close>

definition since :: "int \<Rightarrow> gval option \<Rightarrow> watch \<times> Monitor \<times> bool \<Rightarrow> bool" where
  "since n v x \<longleftrightarrow> n \<le> returned x \<and> n \<le> sc_seq (fst (fst x)) \<and> (sc_seq (fst (fst x)) = n \<longrightarrow> sc_value (fst (fst x)) = v)"

lemma since_step: "since n v x \<Longrightarrow> since n v (chan_do ev x)"
  by (cases x; cases ev)
    (auto simp: since_def returned_def watch_put_def SimpleChannel_Set_def Monitor_Watch_round_def watch_Next_def
      split: option.splits sum.splits if_splits prod.splits)

lemma since_run: "since n v x \<Longrightarrow> since n v (chan_run evs x)"
  by (induction evs arbitrary: x) (simp_all add: since_step)

lemma monitoredD:
  assumes "monitored c args nfree = Some (v, x)" and "sc_seq c \<ge> 0"
  shows "chan_ok x \<and> since (returned x) (sc_value c) x \<and> returned x = sc_seq c \<and> v = Some (bareScalar (sc_value c))"
proof -
  have "x = ((c, sc_seq c), Monitor_Ack nfree (Monitor_New args), True)" "v = Some (bareScalar (sc_value c))"
    using assms by (simp_all add: monitored_def watch_Next_def SimpleChannel_CreateChannelMonitor_def)
  moreover have "allowed (Monitor_New args) \<longrightarrow> toSend (Monitor_New args) = None"
    by (simp add: Monitor_New_def Let_def)
  ultimately show ?thesis
    using mon_do_ok [of "Monitor_New args" "OpAck nfree"] by (simp add: chan_ok_def since_def returned_def)
qed

lemma SimpleChannel_seq: "sc_seq (fold SimpleChannel_Set vs c) = sc_seq c + int (length vs)"
  by (induction vs arbitrary: c) (simp_all add: SimpleChannel_Set_def)

lemma monitored_in_step:
  assumes "monitored c args nfree = Some (first, x0)" and "sc_seq c \<ge> 0"
    and "no_first (before @ after)"
    and "returned (chan_run before x0) = returned x0 \<or> (\<exists>v. EvSet v \<in> set after)"
  shows "watch.in_step (chan_run (before @ EvFirst first # after) x0)"
proof -
  note x0 = monitoredD [OF assms(1,2)]
  obtain w m alive where x1: "chan_run before x0 = (w, m, alive)" by (cases "chan_run before x0")
  have ok: "chan_ok (w, m, alive)" using chan_ok_run [of x0 before] x0 x1 by simp
  have first: "no_first after" using assms(3) by (simp add: no_first_def)
  show ?thesis
  proof (cases "\<exists>v. EvSet v \<in> set after")
    case True
    then show ?thesis using in_step_run_set [OF chan_ok_step [OF ok] first] by (auto simp: x1 simp del: chan_do.simps)
  next
    case False
    then have "since (snd w) (sc_value c) (w, m, alive)"
      using since_run [of "returned x0" "sc_value c" x0 before] x0 x1 assms(4) by (auto simp: returned_def)
    then have "snd w < sc_seq (fst w) \<or> first = Some (bareScalar (sc_value (fst w)))"
      using x0 by (auto simp: since_def)
    from in_step_run [OF in_step_first [OF ok this] first] show ?thesis by (simp add: x1)
  qed
qed

section \<open>Properties\<close>

text \<open>C20: A subscriber converges on the value of the channel. The channel has had any values; the handler
  takes the first value for the subscriber, and sends it (\<open>EvFirst\<close>) after some other events, in which
  the monitor's loop has not taken a later value from the watch, or before the last time the channel
  is set. Then, whatever else happens in whatever order, as soon as sending is allowed and the
  monitor's loop has made a round, the last value sent is the current one. The condition is needed: see
  \<open>stale_first_value\<close>.\<close>

theorem monitored_channel_converges:
  assumes "monitored (fold SimpleChannel_Set vs (NewSimpleChannel name)) args nfree = Some (first, x0)"
    and "no_first (before @ after)"
    and "returned (chan_run before x0) = returned x0 \<or> (\<exists>v. EvSet v \<in> set after)"
    and "chan_run (before @ EvFirst first # after) x0 = (w, m, alive)"
    and "\<not> cancelled m" and "running m" and "\<not> pipeline m \<or> windowOpen m > 0"
  shows "\<exists>w' m'. chan_do EvWatch (w, m, alive) = (w', m', True) \<and> sc_value (fst w') = sc_value (fst w) \<and>
     sendValue m' \<noteq> [] \<and> last (sendValue m') = bareScalar (SimpleChannel_Get (fst w))"
proof -
  have "sc_seq (fold SimpleChannel_Set vs (NewSimpleChannel name)) \<ge> 0"
    by (simp add: SimpleChannel_seq) (simp add: NewSimpleChannel_def)
  from monitored_in_step [OF assms(1) this assms(2,3)] assms(4) have "watch.in_step (w, m, alive)" by simp
  from watch.round_delivers [OF this assms(5)] assms(6,7)
  show ?thesis by (auto simp: allowed_def SimpleChannel_Get_def bareScalar_def)
qed

definition seven :: "gval option" where
  "seven = Some (GPtr (GPrim True (PVLong 7)))"

theorem monitored_channel_converges_witness:
  "let x0 = the (monitored (fold SimpleChannel_Set [Some GOther] (NewSimpleChannel ''pv'')) (GStruct [] []) 0);
       x = chan_run ([EvStart] @ EvFirst (fst x0) # [EvWatch, EvSet seven]) (snd x0)
   in \<exists>w' m'. chan_do EvWatch (fst x, fst (snd x), snd (snd x)) = (w', m', True) \<and> sc_value (fst w') = sc_value (fst (fst x)) \<and>
     sendValue m' \<noteq> [] \<and> last (sendValue m') = bareScalar (SimpleChannel_Get (fst (fst x)))"
  unfolding Let_def
proof (rule monitored_channel_converges [where before = "[EvStart]" and after = "[EvWatch, EvSet seven]"])
  show "monitored (fold SimpleChannel_Set [Some GOther] (NewSimpleChannel ''pv'')) (GStruct [] []) 0 =
      Some (fst (the (monitored (fold SimpleChannel_Set [Some GOther] (NewSimpleChannel ''pv'')) (GStruct [] []) 0)),
        snd (the (monitored (fold SimpleChannel_Set [Some GOther] (NewSimpleChannel ''pv'')) (GStruct [] []) 0)))"
    by (simp add: monitored_def watch_Next_def SimpleChannel_CreateChannelMonitor_def SimpleChannel_Set_def NewSimpleChannel_def)
qed (simp_all add: no_first_def monitored_def Monitor_Watch_round_def watch_Next_def SimpleChannel_CreateChannelMonitor_def
    NewSimpleChannel_def Monitor_New_def Monitor_Send_def Monitor_Start_def Monitor_Ack_def Monitor_drain_def watch_put_def
    SimpleChannel_Set_def BoolValue_def Let_def)

text \<open>
  Without that condition a subscriber is left behind. If the program sets \<open>v2\<close> and the monitor's loop
  takes it before the handler sends the first value \<open>v1\<close>, then \<open>v1\<close> replaces \<open>v2\<close>: when the client
  starts the monitor it is sent \<open>v1\<close>, and every further round of the loop blocks.
\<close>

theorem stale_first_value:
  fixes v1 v2 name
  defines "c \<equiv> SimpleChannel_Set v1 (NewSimpleChannel name)"
  obtains x0 w m where "monitored c (GStruct [] []) 0 = Some (Some (bareScalar v1), x0)"
    and "chan_run ([EvSet v2, EvWatch, EvFirst (Some (bareScalar v1)), EvStart] @ replicate n EvWatch) x0 = (w, m, True)"
    and "SimpleChannel_Get (fst w) = v2" and "sendValue m = [bareScalar v1]" and "running m"
proof -
  let ?x = "((SimpleChannel_Set v2 c, 2), (Monitor_New (GStruct [] []))\<lparr>running := True, sendValue := [bareScalar v1]\<rparr>, True)"
  have round: "chan_run (replicate n EvWatch) ?x = ?x"
    by (induction n) (simp_all add: Monitor_Watch_round_def watch_Next_def c_def SimpleChannel_Set_def NewSimpleChannel_def Monitor_New_def BoolValue_def Let_def)
  show ?thesis
  proof (rule that)
    show "monitored c (GStruct [] []) 0 = Some (Some (bareScalar v1), (c, 1), Monitor_New (GStruct [] []), True)"
      by (simp add: monitored_def watch_Next_def SimpleChannel_CreateChannelMonitor_def c_def SimpleChannel_Set_def NewSimpleChannel_def
          Monitor_Ack_def Monitor_drain_def Monitor_New_def BoolValue_def Let_def)
    have "chan_run [EvSet v2, EvWatch, EvFirst (Some (bareScalar v1)), EvStart] ((c, 1), Monitor_New (GStruct [] []), True) = ?x"
      by (simp add: Monitor_Watch_round_def watch_Next_def watch_put_def c_def SimpleChannel_Set_def NewSimpleChannel_def
          Monitor_Send_def Monitor_Start_def Monitor_drain_def Monitor_New_def BoolValue_def Let_def)
    with round show "chan_run ([EvSet v2, EvWatch, EvFirst (Some (bareScalar v1)), EvStart] @ replicate n EvWatch)
        ((c, 1), Monitor_New (GStruct [] []), True) = ?x"
      by simp
  qed (simp_all add: SimpleChannel_Get_def SimpleChannel_Set_def)
qed

text \<open>Between two changes \<open>Next\<close> blocks: a watch returns every state of the channel at most once, and
  several changes between two calls are one.\<close>

theorem watch_returns_once:
  assumes "watch_Next False w = Some (Inr v, w')"
  shows "v = SimpleChannel_ChannelGet (fst w) \<and> fst w' = fst w \<and> watch_Next False w' = None \<and>
    watch_Next False (fold watch_put (vs @ [u]) w') = Some (Inr (Some (bareScalar u)),
      (fst (fold watch_put (vs @ [u]) w'), sc_seq (fst w') + int (length vs) + 1))"
proof -
  have fold: "snd (fold watch_put vs x) = snd x \<and> sc_seq (fst (fold watch_put vs x)) = sc_seq (fst x) + int (length vs)" for vs x
    by (induction vs arbitrary: x) (simp_all add: watch_put_def SimpleChannel_Set_def)
  obtain c seq where w: "w = (c, seq)" by (cases w)
  with assms have w': "w' = (c, sc_seq c)" "v = Some (bareScalar (sc_value c))" by (auto simp: watch_Next_def split: if_splits)
  show ?thesis
    using fold [of vs w'] by (cases "fold watch_put vs w'")
      (auto simp: w w' watch_Next_def watch_put_def SimpleChannel_Set_def SimpleChannel_ChannelGet_def)
qed

theorem watch_returns_once_witness:
  "let c = NewSimpleChannel ''pv'' in
   Some (bareScalar None) = SimpleChannel_ChannelGet (fst (c, - 1 :: int)) \<and> fst (c, 0 :: int) = fst (c, - 1 :: int) \<and>
   watch_Next False (c, 0) = None \<and>
   watch_Next False (fold watch_put ([None] @ [Some GOther]) (c, 0)) = Some (Inr (Some (bareScalar (Some GOther))),
      (fst (fold watch_put ([None] @ [Some GOther]) (c, 0)), sc_seq (fst (c, 0 :: int)) + int (length [None :: gval option]) + 1))"
  unfolding Let_def by (rule watch_returns_once) (simp add: watch_Next_def NewSimpleChannel_def)

end
