(* ===== verification/PV_Proto.thy ===== *)
theory PV_Proto
  imports PV_Types
begin

text \<open>
  The messages of the protocol (internal/proto/proto.go): the header with its own codec, the
  structs that are coded by reflection, the three requests with hand-written codecs, and the
  writer of internal/proto/io.go that pads to a boundary of 8 bytes.

  A message struct is a \<open>record\<close>; \<open>M_gval m\<close> is the Go variable that holds it, with its field names
  and tags, and \<open>M_of\<close> reads the record back from a variable of that type.
\<close>

section \<open>The header\<close>

abbreviation MAGIC :: byte where "MAGIC \<equiv> 0xCA"
abbreviation FLAG_MSG_APP :: byte where "FLAG_MSG_APP \<equiv> 0"
abbreviation FLAG_MSG_CTRL :: byte where "FLAG_MSG_CTRL \<equiv> 1"
abbreviation FLAG_FROM_CLIENT :: byte where "FLAG_FROM_CLIENT \<equiv> 0x00"
abbreviation FLAG_FROM_SERVER :: byte where "FLAG_FROM_SERVER \<equiv> 0x40"
abbreviation FLAG_BO_BE :: byte where "FLAG_BO_BE \<equiv> 0x80"

record PVAccessHeader =
  Version :: byte
  Flags :: byte
  MessageCommand :: byte
  PayloadSize :: "32 word"
  ForceByteOrder :: bool

definition zero_header :: "bool \<Rightarrow> PVAccessHeader" where
  "zero_header force = \<lparr>Version = 0, Flags = 0, MessageCommand = 0, PayloadSize = 0, ForceByteOrder = force\<rparr>"

definition PVAccessHeader_PVEncode :: "PVAccessHeader \<Rightarrow> enc" where
  "PVAccessHeader_PVEncode v =
     seqA (write_byte MAGIC)
    (seqA (PVByte_PVEncode (Version v))
    (seqA (PVUByte_PVEncode (Flags v))
    (seqA (PVByte_PVEncode (MessageCommand v)) (PVInt_PVEncode (PayloadSize v)))))"

definition set_byte_order :: "byte_order \<Rightarrow> unit dec" where
  "set_byte_order bo s = (Inr (), s\<lparr>dorder := Some bo\<rparr>)"

definition PVAccessHeader_PVDecode :: "PVAccessHeader \<Rightarrow> PVAccessHeader dec" where
  "PVAccessHeader_PVDecode v =
     bindA read_byte (\<lambda>magic.
     ifA (magic \<noteq> MAGIC) (failA (BadMagic magic))
    (bindA PVByte_PVDecode (\<lambda>version.
     bindA PVUByte_PVDecode (\<lambda>flags.
     bindA PVByte_PVDecode (\<lambda>command.
     seqA (whenA (\<not> ForceByteOrder v)
        (set_byte_order (if flags AND 0x80 = 0x80 then BigEndian else LittleEndian)))
    (bindA PVInt_PVDecode (\<lambda>size.
     retA (v\<lparr>Version := version, Flags := flags, MessageCommand := command, PayloadSize := size\<rparr>))))))))"

section \<open>Commands and flags\<close>

abbreviation APP_BEACON :: byte where "APP_BEACON \<equiv> 0x00"
abbreviation APP_CONNECTION_VALIDATION :: byte where "APP_CONNECTION_VALIDATION \<equiv> 0x01"
abbreviation APP_ECHO :: byte where "APP_ECHO \<equiv> 0x02"
abbreviation APP_SEARCH_REQUEST :: byte where "APP_SEARCH_REQUEST \<equiv> 0x03"
abbreviation APP_SEARCH_RESPONSE :: byte where "APP_SEARCH_RESPONSE \<equiv> 0x04"
abbreviation APP_CHANNEL_CREATE :: byte where "APP_CHANNEL_CREATE \<equiv> 0x07"
abbreviation APP_CHANNEL_DESTROY :: byte where "APP_CHANNEL_DESTROY \<equiv> 0x08"
abbreviation APP_CONNECTION_VALIDATED :: byte where "APP_CONNECTION_VALIDATED \<equiv> 0x09"
abbreviation APP_CHANNEL_GET :: byte where "APP_CHANNEL_GET \<equiv> 0x0A"
abbreviation APP_CHANNEL_MONITOR :: byte where "APP_CHANNEL_MONITOR \<equiv> 0x0D"
abbreviation APP_REQUEST_DESTROY :: byte where "APP_REQUEST_DESTROY \<equiv> 0x0F"
abbreviation APP_CHANNEL_RPC :: byte where "APP_CHANNEL_RPC \<equiv> 0x14"
abbreviation APP_REQUEST_CANCEL :: byte where "APP_REQUEST_CANCEL \<equiv> 0x15"
abbreviation APP_ORIGIN_TAG :: byte where "APP_ORIGIN_TAG \<equiv> 0x16"
abbreviation CTRL_MARK_TOTAL_BYTE_SENT :: byte where "CTRL_MARK_TOTAL_BYTE_SENT \<equiv> 0x00"
abbreviation CTRL_ACK_TOTAL_BYTE_SENT :: byte where "CTRL_ACK_TOTAL_BYTE_SENT \<equiv> 0x01"
abbreviation CTRL_SET_BYTE_ORDER :: byte where "CTRL_SET_BYTE_ORDER \<equiv> 0x02"
abbreviation CTRL_ECHO_REQUEST :: byte where "CTRL_ECHO_REQUEST \<equiv> 0x03"
abbreviation CTRL_ECHO_RESPONSE :: byte where "CTRL_ECHO_RESPONSE \<equiv> 0x04"

abbreviation SEARCH_REPLY_REQUIRED :: byte where "SEARCH_REPLY_REQUIRED \<equiv> 0x80"
abbreviation SEARCH_UNICAST :: byte where "SEARCH_UNICAST \<equiv> 0x01"
abbreviation CHANNEL_GET_INIT :: byte where "CHANNEL_GET_INIT \<equiv> 0x08"
abbreviation CHANNEL_GET_DESTROY :: byte where "CHANNEL_GET_DESTROY \<equiv> 0x10"
abbreviation CHANNEL_RPC_INIT :: byte where "CHANNEL_RPC_INIT \<equiv> 0x08"
abbreviation CHANNEL_RPC_DESTROY :: byte where "CHANNEL_RPC_DESTROY \<equiv> 0x10"
abbreviation CHANNEL_MONITOR_INIT :: byte where "CHANNEL_MONITOR_INIT \<equiv> 0x08"
abbreviation CHANNEL_MONITOR_PIPELINE_SUPPORT :: byte where "CHANNEL_MONITOR_PIPELINE_SUPPORT \<equiv> 0x80"
abbreviation CHANNEL_MONITOR_SUBSCRIPTION :: byte where "CHANNEL_MONITOR_SUBSCRIPTION \<equiv> 0x04"
abbreviation CHANNEL_MONITOR_SUBSCRIPTION_RUN :: byte where "CHANNEL_MONITOR_SUBSCRIPTION_RUN \<equiv> 0x40"
abbreviation CHANNEL_MONITOR_TERMINATE :: byte where "CHANNEL_MONITOR_TERMINATE \<equiv> 0x10"

section \<open>Structs coded by reflection\<close>

abbreviation fInt :: "string \<Rightarrow> 32 word \<Rightarrow> string \<times> string \<times> gval" where
  "fInt name n \<equiv> (name, [], GPrim True (PVInt n))"
abbreviation fByte :: "string \<Rightarrow> byte \<Rightarrow> string \<times> string \<times> gval" where
  "fByte name n \<equiv> (name, [], GPrim True (PVByte n))"
abbreviation fShort :: "string \<Rightarrow> 16 word \<Rightarrow> string \<times> string \<times> gval" where
  "fShort name n \<equiv> (name, [], GPrim True (PVShort n))"
abbreviation fStatus :: "pvstatus \<Rightarrow> string \<times> string \<times> gval" where
  "fStatus st \<equiv> (''Status'', '',breakonerror'', GStatus st)"

text \<open>\<open>[n]byte\<close>, and a slice of strings.\<close>

definition bytes_gval :: "byte list \<Rightarrow> gval" where
  "bytes_gval bs = GArray (GPrim False (PVUByte 0)) (map (\<lambda>b. GPrim False (PVUByte b)) bs)"

definition strings_gval :: "bool \<Rightarrow> string list \<Rightarrow> gval" where
  "strings_gval named ss = GSlice (GPrim named (PVString [])) (map (\<lambda>s. GPrim named (PVString s)) ss) []"

text \<open>
  Reading a record back. The defaults are for variables of another type, which decoding never
  leaves in a struct (see \<open>typed_dec\<close>).
\<close>

definition field_at :: "gval \<Rightarrow> nat \<Rightarrow> gval" where
  "field_at g n = (case g of GStruct i fs \<Rightarrow> if n < length fs then snd (snd (fs ! n)) else GOther | _ \<Rightarrow> GOther)"

definition the_prim :: "gval \<Rightarrow> prim" where
  "the_prim g = (case g of GPrim named p \<Rightarrow> p | _ \<Rightarrow> PVBoolean False)"

definition the_string :: "gval \<Rightarrow> string" where
  "the_string g = (case the_prim g of PVString s \<Rightarrow> s | _ \<Rightarrow> [])"

definition the_byte :: "gval \<Rightarrow> byte" where
  "the_byte g = (case the_prim g of PVByte b \<Rightarrow> b | PVUByte b \<Rightarrow> b | _ \<Rightarrow> 0)"

definition the_short :: "gval \<Rightarrow> 16 word" where
  "the_short g = (case the_prim g of PVShort b \<Rightarrow> b | PVUShort b \<Rightarrow> b | _ \<Rightarrow> 0)"

definition the_int :: "gval \<Rightarrow> 32 word" where
  "the_int g = (case the_prim g of PVInt b \<Rightarrow> b | PVUInt b \<Rightarrow> b | _ \<Rightarrow> 0)"

definition the_any :: "gval \<Rightarrow> gval option" where
  "the_any g = (case g of GAny d \<Rightarrow> d | _ \<Rightarrow> None)"

definition the_status :: "gval \<Rightarrow> pvstatus" where
  "the_status g = (case g of GStatus st \<Rightarrow> st | _ \<Rightarrow> zero_status)"

definition the_elems :: "gval \<Rightarrow> gval list" where
  "the_elems g = (case g of GSlice z es sp \<Rightarrow> es | GArray z es \<Rightarrow> es | _ \<Rightarrow> [])"

lemmas reading_defs = field_at_def the_prim_def the_string_def the_byte_def the_short_def the_int_def the_any_def
  the_status_def the_elems_def

record BeaconMessage =
  bm_GUID :: "byte list"
  bm_Flags :: byte
  BeaconSequenceID :: byte
  ChangeCount :: "16 word"
  bm_ServerAddress :: "byte list"
  bm_ServerPort :: "16 word"
  bm_Protocol :: string
  ServerStatus :: "gval option"

definition BeaconMessage_gval :: "BeaconMessage \<Rightarrow> gval" where
  "BeaconMessage_gval m = GStruct [] [
     (''GUID'', [], bytes_gval (bm_GUID m)),
     (''Flags'', [], GPrim False (PVUByte (bm_Flags m))),
     (''BeaconSequenceID'', [], GPrim False (PVUByte (BeaconSequenceID m))),
     (''ChangeCount'', [], GPrim False (PVShort (ChangeCount m))),
     (''ServerAddress'', [], bytes_gval (bm_ServerAddress m)),
     (''ServerPort'', [], GPrim False (PVUShort (bm_ServerPort m))),
     (''Protocol'', [], GPrim False (PVString (bm_Protocol m))),
     (''ServerStatus'', [], GAny (ServerStatus m))]"

record ConnectionValidationRequest =
  ServerReceiveBufferSize :: "32 word"
  ServerIntrospectionRegistryMaxSize :: "16 word"
  AuthNZ :: "string list"

definition ConnectionValidationRequest_gval :: "ConnectionValidationRequest \<Rightarrow> gval" where
  "ConnectionValidationRequest_gval m = GStruct [] [
     fInt ''ServerReceiveBufferSize'' (ServerReceiveBufferSize m),
     fShort ''ServerIntrospectionRegistryMaxSize'' (ServerIntrospectionRegistryMaxSize m),
     (''AuthNZ'', [], strings_gval False (AuthNZ m))]"

definition ConnectionValidationRequest_of :: "gval \<Rightarrow> ConnectionValidationRequest" where
  "ConnectionValidationRequest_of g = \<lparr>
     ServerReceiveBufferSize = the_int (field_at g 0),
     ServerIntrospectionRegistryMaxSize = the_short (field_at g 1),
     AuthNZ = map the_string (the_elems (field_at g 2))\<rparr>"

record ConnectionValidationResponse =
  ClientReceiveBufferSize :: "32 word"
  ClientIntrospectionRegistryMaxSize :: "16 word"
  ConnectionQos :: "16 word"
  SelectedAuthNZ :: string
  cv_Data :: "gval option"

definition ConnectionValidationResponse_gval :: "ConnectionValidationResponse \<Rightarrow> gval" where
  "ConnectionValidationResponse_gval m = GStruct [] [
     fInt ''ClientReceiveBufferSize'' (ClientReceiveBufferSize m),
     fShort ''ClientIntrospectionRegistryMaxSize'' (ClientIntrospectionRegistryMaxSize m),
     fShort ''ConnectionQos'' (ConnectionQos m),
     (''AuthNZ'', [], GPrim True (PVString (SelectedAuthNZ m))),
     (''Data'', [], GAny (cv_Data m))]"

definition ConnectionValidationResponse_of :: "gval \<Rightarrow> ConnectionValidationResponse" where
  "ConnectionValidationResponse_of g = \<lparr>
     ClientReceiveBufferSize = the_int (field_at g 0),
     ClientIntrospectionRegistryMaxSize = the_short (field_at g 1),
     ConnectionQos = the_short (field_at g 2),
     SelectedAuthNZ = the_string (field_at g 3),
     cv_Data = the_any (field_at g 4)\<rparr>"

record ConnectionValidated =
  cv_Status :: pvstatus

definition ConnectionValidated_gval :: "ConnectionValidated \<Rightarrow> gval" where
  "ConnectionValidated_gval m = GStruct [] [(''Status'', [], GStatus (cv_Status m))]"

definition ConnectionValidated_of :: "gval \<Rightarrow> ConnectionValidated" where
  "ConnectionValidated_of g = \<lparr>cv_Status = the_status (field_at g 0)\<rparr>"

record SearchRequest_Channel =
  SearchInstanceID :: "32 word"
  sr_ChannelName :: string

definition SearchRequest_Channel_gval :: "SearchRequest_Channel \<Rightarrow> gval" where
  "SearchRequest_Channel_gval c = GStruct [] [
     (''SearchInstanceID'', [], GPrim True (PVUInt (SearchInstanceID c))),
     (''ChannelName'', '',bound=500'', GPrim False (PVString (sr_ChannelName c)))]"

definition SearchRequest_Channel_of :: "gval \<Rightarrow> SearchRequest_Channel" where
  "SearchRequest_Channel_of g =
     \<lparr>SearchInstanceID = the_int (field_at g 0), sr_ChannelName = the_string (field_at g 1)\<rparr>"

record SearchRequest =
  sr_SearchSequenceID :: "32 word"
  sr_Flags :: byte
  Reserved :: "byte list"
  ResponseAddress :: "byte list"
  ResponsePort :: "16 word"
  Protocols :: "string list"
  sr_Channels :: "SearchRequest_Channel list"

definition zero_search_channel :: gval where
  "zero_search_channel = SearchRequest_Channel_gval \<lparr>SearchInstanceID = 0, sr_ChannelName = []\<rparr>"

definition SearchRequest_gval :: "SearchRequest \<Rightarrow> gval" where
  "SearchRequest_gval m = GStruct [] [
     (''SearchSequenceID'', [], GPrim True (PVUInt (sr_SearchSequenceID m))),
     (''Flags'', [], GPrim True (PVUByte (sr_Flags m))),
     (''Reserved'', [], bytes_gval (Reserved m)),
     (''ResponseAddress'', [], bytes_gval (ResponseAddress m)),
     (''ResponsePort'', [], GPrim True (PVUShort (ResponsePort m))),
     (''Protocols'', [], strings_gval True (Protocols m)),
     (''Channels'', '',short'', GSlice zero_search_channel (map SearchRequest_Channel_gval (sr_Channels m)) [])]"

definition SearchRequest_of :: "gval \<Rightarrow> SearchRequest" where
  "SearchRequest_of g = \<lparr>
     sr_SearchSequenceID = the_int (field_at g 0),
     sr_Flags = the_byte (field_at g 1),
     Reserved = map the_byte (the_elems (field_at g 2)),
     ResponseAddress = map the_byte (the_elems (field_at g 3)),
     ResponsePort = the_short (field_at g 4),
     Protocols = map the_string (the_elems (field_at g 5)),
     sr_Channels = map SearchRequest_Channel_of (the_elems (field_at g 6))\<rparr>"

record SearchResponse =
  sp_GUID :: "byte list"
  sp_SearchSequenceID :: "32 word"
  sp_ServerAddress :: "byte list"
  sp_ServerPort :: "16 word"
  sp_Protocol :: string
  Found :: bool
  SearchInstanceIDs :: "32 word list"

definition SearchResponse_gval :: "SearchResponse \<Rightarrow> gval" where
  "SearchResponse_gval m = GStruct [] [
     (''GUID'', [], bytes_gval (sp_GUID m)),
     (''SearchSequenceID'', [], GPrim True (PVUInt (sp_SearchSequenceID m))),
     (''ServerAddress'', [], bytes_gval (sp_ServerAddress m)),
     (''ServerPort'', [], GPrim True (PVUShort (sp_ServerPort m))),
     (''Protocol'', [], GPrim True (PVString (sp_Protocol m))),
     (''Found'', [], GPrim True (PVBoolean (Found m))),
     (''SearchInstanceIDs'', '',short'',
        GSlice (GPrim True (PVUInt 0)) (map (\<lambda>n. GPrim True (PVUInt n)) (SearchInstanceIDs m)) [])]"

record CreateChannelRequest_Channel =
  cc_ClientChannelID :: "32 word"
  cc_ChannelName :: string

definition CreateChannelRequest_Channel_gval :: "CreateChannelRequest_Channel \<Rightarrow> gval" where
  "CreateChannelRequest_Channel_gval c = GStruct [] [
     fInt ''ClientChannelID'' (cc_ClientChannelID c),
     (''ChannelName'', '',bound=500'', GPrim False (PVString (cc_ChannelName c)))]"

definition CreateChannelRequest_Channel_of :: "gval \<Rightarrow> CreateChannelRequest_Channel" where
  "CreateChannelRequest_Channel_of g =
     \<lparr>cc_ClientChannelID = the_int (field_at g 0), cc_ChannelName = the_string (field_at g 1)\<rparr>"

record CreateChannelResponse =
  cr_ClientChannelID :: "32 word"
  cr_ServerChannelID :: "32 word"
  cr_Status :: pvstatus
  AccessRights :: "16 word"

definition CreateChannelResponse_gval :: "CreateChannelResponse \<Rightarrow> gval" where
  "CreateChannelResponse_gval m = GStruct [] [
     fInt ''ClientChannelID'' (cr_ClientChannelID m),
     fInt ''ServerChannelID'' (cr_ServerChannelID m),
     fStatus (cr_Status m),
     fShort ''AccessRights'' (AccessRights m)]"

record DestroyChannel =
  dc_ServerChannelID :: "32 word"
  dc_ClientChannelID :: "32 word"

definition DestroyChannel_gval :: "DestroyChannel \<Rightarrow> gval" where
  "DestroyChannel_gval m = GStruct [] [
     fInt ''ServerChannelID'' (dc_ServerChannelID m), fInt ''ClientChannelID'' (dc_ClientChannelID m)]"

definition DestroyChannel_of :: "gval \<Rightarrow> DestroyChannel" where
  "DestroyChannel_of g = \<lparr>dc_ServerChannelID = the_int (field_at g 0), dc_ClientChannelID = the_int (field_at g 1)\<rparr>"

record ChannelResponseError =
  re_RequestID :: "32 word"
  re_Subcommand :: byte
  re_Status :: pvstatus

definition ChannelResponseError_gval :: "ChannelResponseError \<Rightarrow> gval" where
  "ChannelResponseError_gval m = GStruct [] [
     fInt ''RequestID'' (re_RequestID m), fByte ''Subcommand'' (re_Subcommand m), (''Status'', [], GStatus (re_Status m))]"

text \<open>\<open>ChannelGetResponseInit\<close> and \<open>ChannelMonitorResponseInit\<close> have the same fields.\<close>

record ChannelResponseInit =
  ri_RequestID :: "32 word"
  ri_Subcommand :: byte
  ri_Status :: pvstatus
  PVStructureIF :: fdesc

definition ChannelGetResponseInit_gval :: "ChannelResponseInit \<Rightarrow> gval" where
  "ChannelGetResponseInit_gval m = GStruct [] [
     fInt ''RequestID'' (ri_RequestID m), fByte ''Subcommand'' (ri_Subcommand m), fStatus (ri_Status m),
     (''PVStructureIF'', [], GDesc (PVStructureIF m))]"

definition ChannelMonitorResponseInit_gval :: "ChannelResponseInit \<Rightarrow> gval" where
  "ChannelMonitorResponseInit_gval m = GStruct [] [
     fInt ''RequestID'' (ri_RequestID m), fByte ''Subcommand'' (ri_Subcommand m), fStatus (ri_Status m),
     (''PVStructureIF'', [], GDesc (PVStructureIF m))]"

record ChannelGetResponse =
  gr_RequestID :: "32 word"
  gr_Subcommand :: byte
  gr_Status :: pvstatus
  gr_Value :: "gval option"

definition ChannelGetResponse_gval :: "ChannelGetResponse \<Rightarrow> gval" where
  "ChannelGetResponse_gval m = GStruct [] [
     fInt ''RequestID'' (gr_RequestID m), fByte ''Subcommand'' (gr_Subcommand m), fStatus (gr_Status m),
     (''Value'', [], GDiff [] (gr_Value m))]"

record ChannelRPCRequest =
  rq_ServerChannelID :: "32 word"
  rq_RequestID :: "32 word"
  rq_Subcommand :: byte
  rq_PVRequest :: "gval option"

definition ChannelRPCRequest_gval :: "ChannelRPCRequest \<Rightarrow> gval" where
  "ChannelRPCRequest_gval m = GStruct [] [
     fInt ''ServerChannelID'' (rq_ServerChannelID m), fInt ''RequestID'' (rq_RequestID m),
     fByte ''Subcommand'' (rq_Subcommand m), (''PVRequest'', [], GAny (rq_PVRequest m))]"

definition ChannelRPCRequest_of :: "gval \<Rightarrow> ChannelRPCRequest" where
  "ChannelRPCRequest_of g = \<lparr>
     rq_ServerChannelID = the_int (field_at g 0), rq_RequestID = the_int (field_at g 1),
     rq_Subcommand = the_byte (field_at g 2), rq_PVRequest = the_any (field_at g 3)\<rparr>"

definition ChannelRPCResponseInit_gval :: "ChannelResponseError \<Rightarrow> gval" where
  "ChannelRPCResponseInit_gval m = GStruct [] [
     fInt ''RequestID'' (re_RequestID m),
     (''Subcommand'', '',always=0x08'', GPrim True (PVByte (re_Subcommand m))),
     (''Status'', [], GStatus (re_Status m))]"

record ChannelRPCResponse =
  rr_RequestID :: "32 word"
  rr_Subcommand :: byte
  rr_Status :: pvstatus
  PVResponseData :: "gval option"

definition ChannelRPCResponse_gval :: "ChannelRPCResponse \<Rightarrow> gval" where
  "ChannelRPCResponse_gval m = GStruct [] [
     fInt ''RequestID'' (rr_RequestID m), fByte ''Subcommand'' (rr_Subcommand m), fStatus (rr_Status m),
     (''PVResponseData'', [], GAny (PVResponseData m))]"

record ChannelMonitorResponse =
  mr_RequestID :: "32 word"
  mr_Subcommand :: byte
  mr_Value :: "gval option"
  OverrunBitSet :: "bool list"

definition ChannelMonitorResponse_gval :: "ChannelMonitorResponse \<Rightarrow> gval" where
  "ChannelMonitorResponse_gval m = GStruct [] [
     fInt ''RequestID'' (mr_RequestID m), fByte ''Subcommand'' (mr_Subcommand m),
     (''Value'', [], GDiff [] (mr_Value m)), (''OverrunBitSet'', [], GBitSet (OverrunBitSet m))]"

record CancelDestroyRequest =
  cd_ServerChannelID :: "32 word"
  cd_RequestID :: "32 word"

definition CancelDestroyRequest_gval :: "CancelDestroyRequest \<Rightarrow> gval" where
  "CancelDestroyRequest_gval m = GStruct [] [
     fInt ''ServerChannelID'' (cd_ServerChannelID m), fInt ''RequestID'' (cd_RequestID m)]"

definition CancelDestroyRequest_of :: "gval \<Rightarrow> CancelDestroyRequest" where
  "CancelDestroyRequest_of g = \<lparr>cd_ServerChannelID = the_int (field_at g 0), cd_RequestID = the_int (field_at g 1)\<rparr>"

record OriginTag =
  ForwarderAddress :: "byte list"

definition OriginTag_gval :: "OriginTag \<Rightarrow> gval" where
  "OriginTag_gval m = GStruct [] [(''ForwarderAddress'', [], bytes_gval (ForwarderAddress m))]"

definition OriginTag_of :: "gval \<Rightarrow> OriginTag" where
  "OriginTag_of g = \<lparr>ForwarderAddress = map the_byte (the_elems (field_at g 0))\<rparr>"

section \<open>Coding a message\<close>

text \<open>\<open>Encode(s, \&m)\<close>, and \<open>var m M; Decode(s, \&m)\<close> where \<open>z\<close> is the zero value of the struct.\<close>

definition encode_struct :: "gval \<Rightarrow> enc" where
  "encode_struct g = enc_value (Some (GPtr g))"

definition pointed :: "gval option \<Rightarrow> gval" where
  "pointed v = (case v of Some (GPtr g) \<Rightarrow> g | _ \<Rightarrow> GOther)"

definition decode_struct :: "gval \<Rightarrow> gval dec" where
  "decode_struct z = bindA (dec_value (Some (GPtr z))) (\<lambda>v. retA (pointed v))"

definition decode_msg :: "(gval \<Rightarrow> 'm) \<Rightarrow> gval \<Rightarrow> 'm dec" where
  "decode_msg of_g z = bindA (decode_struct z) (\<lambda>g. retA (of_g g))"

definition Decode_PVAny :: "gval option \<Rightarrow> gval option dec" where
  "Decode_PVAny d = decode_msg the_any (GAny d)"

text \<open>The zero values of the message structs, and decoding into a fresh one.\<close>

definition zero_destroy_channel :: gval where
  "zero_destroy_channel = DestroyChannel_gval \<lparr>dc_ServerChannelID = 0, dc_ClientChannelID = 0\<rparr>"

definition zero_cancel_destroy :: gval where
  "zero_cancel_destroy = CancelDestroyRequest_gval \<lparr>cd_ServerChannelID = 0, cd_RequestID = 0\<rparr>"

definition zero_rpc_request :: gval where
  "zero_rpc_request = ChannelRPCRequest_gval \<lparr>rq_ServerChannelID = 0, rq_RequestID = 0, rq_Subcommand = 0, rq_PVRequest = None\<rparr>"

definition zero_validation_request :: gval where
  "zero_validation_request = ConnectionValidationRequest_gval
     \<lparr>ServerReceiveBufferSize = 0, ServerIntrospectionRegistryMaxSize = 0, AuthNZ = []\<rparr>"

definition zero_validation_response :: gval where
  "zero_validation_response = ConnectionValidationResponse_gval \<lparr>ClientReceiveBufferSize = 0,
     ClientIntrospectionRegistryMaxSize = 0, ConnectionQos = 0, SelectedAuthNZ = [], cv_Data = None\<rparr>"

definition zero_validated :: gval where
  "zero_validated = ConnectionValidated_gval \<lparr>cv_Status = zero_status\<rparr>"

definition zero_origin_tag :: gval where
  "zero_origin_tag = OriginTag_gval \<lparr>ForwarderAddress = replicate 16 0\<rparr>"

definition zero_search :: gval where
  "zero_search = SearchRequest_gval \<lparr>sr_SearchSequenceID = 0, sr_Flags = 0, Reserved = replicate 3 0,
     ResponseAddress = replicate 16 0, ResponsePort = 0, Protocols = [], sr_Channels = []\<rparr>"

definition Decode_DestroyChannel :: "DestroyChannel dec" where
  "Decode_DestroyChannel = decode_msg DestroyChannel_of zero_destroy_channel"

definition Decode_CancelDestroyRequest :: "CancelDestroyRequest dec" where
  "Decode_CancelDestroyRequest = decode_msg CancelDestroyRequest_of zero_cancel_destroy"

definition Decode_ChannelRPCRequest :: "ChannelRPCRequest dec" where
  "Decode_ChannelRPCRequest = decode_msg ChannelRPCRequest_of zero_rpc_request"

definition Decode_ConnectionValidationRequest :: "ConnectionValidationRequest dec" where
  "Decode_ConnectionValidationRequest = decode_msg ConnectionValidationRequest_of zero_validation_request"

definition Decode_ConnectionValidationResponse :: "ConnectionValidationResponse dec" where
  "Decode_ConnectionValidationResponse = decode_msg ConnectionValidationResponse_of zero_validation_response"

definition Decode_ConnectionValidated :: "ConnectionValidated dec" where
  "Decode_ConnectionValidated = decode_msg ConnectionValidated_of zero_validated"

definition Decode_OriginTag :: "OriginTag dec" where
  "Decode_OriginTag = decode_msg OriginTag_of zero_origin_tag"

definition Decode_SearchRequest :: "SearchRequest dec" where
  "Decode_SearchRequest = decode_msg SearchRequest_of zero_search"

lemmas zero_msg_defs = zero_destroy_channel_def zero_cancel_destroy_def zero_rpc_request_def zero_validation_request_def zero_validation_response_def zero_validated_def zero_origin_tag_def zero_search_def

lemmas Decode_msg_defs = Decode_DestroyChannel_def Decode_CancelDestroyRequest_def Decode_ChannelRPCRequest_def Decode_ConnectionValidationRequest_def Decode_ConnectionValidationResponse_def Decode_ConnectionValidated_def Decode_OriginTag_def Decode_SearchRequest_def

section \<open>Requests with a codec of their own\<close>

type_synonym CreateChannelRequest = "CreateChannelRequest_Channel list"

definition zero_create_channel :: gval where
  "zero_create_channel = CreateChannelRequest_Channel_gval \<lparr>cc_ClientChannelID = 0, cc_ChannelName = []\<rparr>"

definition CreateChannelRequest_PVEncode :: "CreateChannelRequest \<Rightarrow> enc" where
  "CreateChannelRequest_PVEncode cs =
     seqA (PVShort_PVEncode (of_nat (length cs)))
       (eachA (\<lambda>c. encode_struct (CreateChannelRequest_Channel_gval c)) cs)"

definition CreateChannelRequest_PVDecode :: "CreateChannelRequest dec" where
  "CreateChannelRequest_PVDecode =
     bindA PVShort_PVDecode (\<lambda>count.
       ifA (sint count < 0) (failA (Panic MakeSliceLen))
         (mapA (\<lambda>z. decode_msg CreateChannelRequest_Channel_of z) (replicate (nat (sint count)) zero_create_channel)))"

record ChannelGetRequest =
  gq_ServerChannelID :: "32 word"
  gq_RequestID :: "32 word"
  gq_Subcommand :: byte
  gq_PVRequest :: "gval option"

definition ChannelGetRequest_PVEncode :: "ChannelGetRequest \<Rightarrow> enc" where
  "ChannelGetRequest_PVEncode r =
     seqA (PVInt_PVEncode (gq_ServerChannelID r))
    (seqA (PVInt_PVEncode (gq_RequestID r))
    (seqA (PVByte_PVEncode (gq_Subcommand r))
    (whenA (gq_Subcommand r AND CHANNEL_GET_INIT = CHANNEL_GET_INIT) (encode_struct (GAny (gq_PVRequest r))))))"

definition ChannelGetRequest_PVDecode :: "ChannelGetRequest dec" where
  "ChannelGetRequest_PVDecode =
     bindA PVInt_PVDecode (\<lambda>channel.
     bindA PVInt_PVDecode (\<lambda>request.
     bindA PVByte_PVDecode (\<lambda>sub.
     bindA (ifA (sub AND CHANNEL_GET_INIT = CHANNEL_GET_INIT) (Decode_PVAny None) (retA None)) (\<lambda>args.
     retA \<lparr>gq_ServerChannelID = channel, gq_RequestID = request, gq_Subcommand = sub, gq_PVRequest = args\<rparr>))))"

record ChannelMonitorRequest =
  mq_ServerChannelID :: "32 word"
  mq_RequestID :: "32 word"
  mq_Subcommand :: byte
  mq_PVRequest :: "gval option"
  NFree :: "32 word"
  QueueSize :: "32 word"

definition ChannelMonitorRequest_PVEncode :: "ChannelMonitorRequest \<Rightarrow> enc" where
  "ChannelMonitorRequest_PVEncode r =
     seqA (PVInt_PVEncode (mq_ServerChannelID r))
    (seqA (PVInt_PVEncode (mq_RequestID r))
    (seqA (PVUByte_PVEncode (mq_Subcommand r))
    (seqA (whenA (mq_Subcommand r AND CHANNEL_MONITOR_INIT = CHANNEL_MONITOR_INIT) (encode_struct (GAny (mq_PVRequest r))))
    (whenA (mq_Subcommand r AND CHANNEL_MONITOR_PIPELINE_SUPPORT = CHANNEL_MONITOR_PIPELINE_SUPPORT)
       (seqA (PVInt_PVEncode (NFree r)) (PVInt_PVEncode (QueueSize r)))))))"

definition ChannelMonitorRequest_PVDecode :: "ChannelMonitorRequest dec" where
  "ChannelMonitorRequest_PVDecode =
     bindA PVInt_PVDecode (\<lambda>channel.
     bindA PVInt_PVDecode (\<lambda>request.
     bindA PVUByte_PVDecode (\<lambda>sub.
     bindA (ifA (sub AND CHANNEL_MONITOR_INIT = CHANNEL_MONITOR_INIT) (Decode_PVAny None) (retA None)) (\<lambda>args.
     bindA (ifA (sub AND CHANNEL_MONITOR_PIPELINE_SUPPORT = CHANNEL_MONITOR_PIPELINE_SUPPORT)
        (bindA PVInt_PVDecode (\<lambda>nfree. bindA PVInt_PVDecode (\<lambda>queue. retA (nfree, queue)))) (retA (0, 0))) (\<lambda>window.
     retA \<lparr>mq_ServerChannelID = channel, mq_RequestID = request, mq_Subcommand = sub, mq_PVRequest = args,
       NFree = fst window, QueueSize = snd window\<rparr>)))))"

section \<open>Aligned output\<close>

text \<open>
  \<open>bytesWritten\<close> is an int64; \<open>\%\<close> of Go truncates towards zero.
\<close>

record AligningWriter =
  bytesWritten :: "64 word"
  aw_out :: "byte list"

definition NewAligningWriter :: AligningWriter where
  "NewAligningWriter = \<lparr>bytesWritten = 0, aw_out = []\<rparr>"

definition AligningWriter_Write :: "byte list \<Rightarrow> AligningWriter \<Rightarrow> AligningWriter" where
  "AligningWriter_Write p w = w\<lparr>aw_out := aw_out w @ p, bytesWritten := bytesWritten w + word_of_nat (length p)\<rparr>"

definition go_rem :: "int \<Rightarrow> int \<Rightarrow> int" where
  "go_rem a b = sgn a * (\<bar>a\<bar> mod \<bar>b\<bar>)"

definition AligningWriter_Align :: "AligningWriter \<Rightarrow> AligningWriter" where
  "AligningWriter_Align w =
     (let padding = go_rem (sint (bytesWritten w)) 8 in
      if padding \<noteq> 0 then AligningWriter_Write (replicate (nat (8 - padding)) 0) w else w)"

end
