(* ===== verification/PV_Messages.thy ===== *)
theory PV_Messages
  imports PV_Proto
begin

text \<open>
  What the messages promise: every struct that both sides code by reflection meets the contract
  \<open>message\<close> and so makes the trip, the hand-written codecs read back what they write, an error
  reply is what the peer expects of a failed response, and the aligning writer aligns.
\<close>

section \<open>The contract of a message struct\<close>

lemma trip_bind_ret:
  assumes "trip u bo m r dm x n" and "f x = retA y"
  shows "trip u bo m r (bindA dm f) y n"
proof -
  obtain bs where "writes bo m r bs n" "reads u bo dm x bs n" using assms(1) by (auto simp: trip_def)
  moreover from this(2) have "reads u bo (bindA dm f) y (bs @ []) (n + 0)"
    by (rule reads_bind) (simp add: assms(2) reads_const)
  ultimately show ?thesis by (auto intro: tripI)
qed

text \<open>\<open>codes m d x\<close>: what \<open>m\<close> writes, \<open>d\<close> reads back as \<open>x\<close>, in either byte order.\<close>

definition codes :: "enc \<Rightarrow> 'a dec \<Rightarrow> 'a \<Rightarrow> bool" where
  "codes m d x \<longleftrightarrow> (\<forall>bo rest. \<exists>e. m (encoder bo) = (Inr (), e) \<and> d (decoder bo (ebuf e @ rest)) = (Inr x, decoder bo rest))"

lemma trip_codes:
  assumes "\<And>bo. trip False bo m () d x n"
  shows "codes m d x"
  unfolding codes_def
proof (intro allI)
  fix bo rest
  obtain bs where w: "writes bo m () bs n" and r: "reads False bo d x bs n"
    using assms [of bo] by (auto simp: trip_def)
  from readsD [OF r, of "decoder bo (bs @ rest)" rest] writesD [OF w, of "encoder bo"]
  show "\<exists>e. m (encoder bo) = (Inr (), e) \<and> d (decoder bo (ebuf e @ rest)) = (Inr x, decoder bo rest)"
    by (auto simp: bits_set_def decoder_def)
qed

lemma trips_codes: "\<exists>n. \<forall>u bo. trip u bo m () d x n \<Longrightarrow> codes m d x"
  by (blast intro: trip_codes)

text \<open>
  A message type: its variables \<open>to_g m\<close> are read back by \<open>of_g\<close>, they differ from the zero value \<open>z\<close>
  only in their content, and \<open>ok\<close> says which contents the wire can carry.
\<close>

locale message =
  fixes to_g :: "'m \<Rightarrow> gval" and of_g :: "gval \<Rightarrow> 'm" and z :: gval and ok :: "'m \<Rightarrow> bool"
  assumes of_to: "of_g (to_g m) = m"
    and blank_to: "ok m \<Longrightarrow> blank (to_g m) = z"
    and carried: "ok m \<Longrightarrow> trips_value (Some (GPtr (to_g m))) \<noteq> None"
begin

lemma trip_msg: "ok m \<Longrightarrow> \<exists>n. \<forall>u bo. trip u bo (encode_struct (to_g m)) () (decode_msg of_g z) m n"
proof -
  assume ok: "ok m"
  then obtain n where n: "trips_value (Some (GPtr (to_g m))) = Some n" using carried by blast
  have "trip u bo (encode_struct (to_g m)) () (dec_value (Some (GPtr z))) (Some (GPtr (to_g m))) n" for u bo
    using trips(4) [rule_format, OF n, of u bo] by (simp add: encode_struct_def blank_to [OF ok])
  then have "trip u bo (encode_struct (to_g m)) () (decode_msg of_g z) m n" for u bo
    unfolding decode_msg_def decode_struct_def
    by (intro trip_bind_ret [where x = "to_g m"] trip_bind_ret [where x = "Some (GPtr (to_g m))"])
      (simp_all add: pointed_def of_to)
  then show ?thesis by blast
qed

lemma roundtrip: "ok m \<Longrightarrow> codes (encode_struct (to_g m)) (decode_msg of_g z) m"
  using trip_msg by (blast intro: trip_codes)

end

named_theorems trips_simps \<open>which message structs make the trip\<close>

declare trips_value.simps [trips_simps] trips_pv.simps [trips_simps] trips_field.simps [trips_simps]
  trips_elem.simps [trips_simps] iface_var_def [trips_simps] pointee_def [trips_simps] field_omitted_def [trips_simps]
  field_options_def [trips_simps] omitted_def [trips_simps] tag_value_def [trips_simps] has_tag_def [trips_simps]
  is_always_def [trips_simps] parse_tag_short [trips_simps] parse_tag_bound [trips_simps]
  parse_tag_breakonerror [trips_simps] parse_tag_always [trips_simps]

lemma sum_opt_not_None: "list_all (\<lambda>x. x \<noteq> None) xs \<Longrightarrow> sum_opt xs \<noteq> None"
  by (induction xs) auto

interpretation destroy_channel: message DestroyChannel_gval DestroyChannel_of
    zero_destroy_channel "\<lambda>_. True"
  by unfold_locales (simp_all add: zero_msg_defs DestroyChannel_gval_def DestroyChannel_of_def reading_defs trips_simps)

interpretation cancel_destroy: message CancelDestroyRequest_gval CancelDestroyRequest_of
    zero_cancel_destroy "\<lambda>_. True"
  by unfold_locales (simp_all add: zero_msg_defs CancelDestroyRequest_gval_def CancelDestroyRequest_of_def reading_defs trips_simps)

text \<open>The data a variant union can carry.\<close>

definition any_ok :: "gval option \<Rightarrow> bool" where
  "any_ok d \<longleftrightarrow> trips_pv HDirect (GAny d) \<noteq> None"

interpretation rpc_request: message ChannelRPCRequest_gval ChannelRPCRequest_of
    zero_rpc_request "\<lambda>m. any_ok (rq_PVRequest m)"
  by unfold_locales (auto simp: zero_msg_defs ChannelRPCRequest_gval_def ChannelRPCRequest_of_def reading_defs any_ok_def trips_simps)

interpretation create_channel: message CreateChannelRequest_Channel_gval CreateChannelRequest_Channel_of
    zero_create_channel "\<lambda>m. length (cc_ChannelName m) \<le> 500"
  by unfold_locales (simp_all add: CreateChannelRequest_Channel_gval_def CreateChannelRequest_Channel_of_def
      zero_create_channel_def reading_defs string_ok_def len_ok_def trips_simps)

text \<open>Slices of strings and arrays of bytes.\<close>

lemma trips_strings: "list_all string_ok ss \<Longrightarrow> len_ok (length ss) \<Longrightarrow>
    trips_pv (HArray False False) (GSlice (GPrim named (PVString [])) (map (\<lambda>s. GPrim named (PVString s)) ss) []) = Some 0"
  by (simp add: trips_pv.simps list_all_iff trips_elem.simps)

lemma trips_bytes:
  "trips_pv (HArray True False) (GArray (GPrim False (PVUByte 0)) (map (\<lambda>b. GPrim False (PVUByte b)) bs)) = Some 0"
  by (simp add: trips_pv.simps list_all_iff trips_elem.simps)

lemma the_string_GPrim [simp]: "the_string (GPrim named (PVString s)) = s"
  by (simp add: the_string_def the_prim_def)

lemma the_byte_GPrim [simp]: "the_byte (GPrim named (PVUByte b)) = b"
  by (simp add: the_byte_def the_prim_def)

interpretation validation_request: message ConnectionValidationRequest_gval ConnectionValidationRequest_of
    zero_validation_request
    "\<lambda>m. list_all string_ok (AuthNZ m) \<and> len_ok (length (AuthNZ m))"
proof
  fix m :: ConnectionValidationRequest
  show "ConnectionValidationRequest_of (ConnectionValidationRequest_gval m) = m"
    by (simp add: ConnectionValidationRequest_gval_def ConnectionValidationRequest_of_def strings_gval_def field_at_def
        the_elems_def o_def the_int_def the_short_def the_prim_def)
qed (auto simp: zero_msg_defs ConnectionValidationRequest_gval_def strings_gval_def trips_strings trips_value.simps trips_field.simps
    trips_pv.simps(1,5) iface_var_def pointee_def field_omitted_def field_options_def omitted_def tag_value_def has_tag_def)

interpretation validation_response: message ConnectionValidationResponse_gval ConnectionValidationResponse_of
    zero_validation_response "\<lambda>m. string_ok (SelectedAuthNZ m) \<and> any_ok (cv_Data m)"
  by unfold_locales (auto simp: zero_msg_defs ConnectionValidationResponse_gval_def ConnectionValidationResponse_of_def reading_defs
      any_ok_def trips_simps)

interpretation validated: message ConnectionValidated_gval ConnectionValidated_of
    zero_validated "\<lambda>m. status_ok (cv_Status m)"
  by unfold_locales (simp_all add: zero_msg_defs ConnectionValidated_gval_def ConnectionValidated_of_def reading_defs trips_simps)

interpretation origin_tag: message OriginTag_gval OriginTag_of
    zero_origin_tag "\<lambda>m. length (ForwarderAddress m) = 16"
proof
  fix m :: OriginTag
  show "OriginTag_of (OriginTag_gval m) = m"
    by (simp add: OriginTag_gval_def OriginTag_of_def bytes_gval_def field_at_def the_elems_def o_def)
next
  fix m :: OriginTag
  assume "length (ForwarderAddress m) = 16"
  then show "blank (OriginTag_gval m) = zero_origin_tag"
    by (simp add: zero_msg_defs OriginTag_gval_def bytes_gval_def)
qed (auto simp: OriginTag_gval_def bytes_gval_def trips_bytes trips_value.simps trips_field.simps
    trips_pv.simps(5) iface_var_def pointee_def field_omitted_def field_options_def omitted_def tag_value_def has_tag_def)

section \<open>The hand-written codecs\<close>

lemma trip_int: "trip u bo (PVInt_PVEncode i) () PVInt_PVDecode i 0"
  by (rule codec_trip [where w = "\<lambda>bo. put_uint bo 4 i"]) (auto simp: scalar_enc_defs scalar_dec_defs act_simps ReadUint_put)

lemma trip_short: "trip u bo (PVShort_PVEncode i) () PVShort_PVDecode i 0"
  by (rule codec_trip [where w = "\<lambda>bo. put_uint bo 2 i"]) (auto simp: scalar_enc_defs scalar_dec_defs act_simps ReadUint_put)

lemma trip_byte: "trip u bo (PVByte_PVEncode i) () PVByte_PVDecode i 0"
  by (rule codec_trip [where w = "\<lambda>bo. [i]"]) (auto simp: scalar_enc_defs scalar_dec_defs act_simps emit_def)

lemma trip_ubyte: "trip u bo (PVUByte_PVEncode i) () PVUByte_PVDecode i 0"
  by (rule codec_trip [where w = "\<lambda>bo. [i]"]) (auto simp: scalar_enc_defs scalar_dec_defs act_simps emit_def)

lemma trip_ret: "trip u bo (retA x) x (retA y) y 0"
  by (rule tripI [OF writes_const(1) reads_const(1)])

interpretation variant: message GAny the_any "GAny None" any_ok
  by unfold_locales (auto simp: the_any_def any_ok_def trips_value.simps iface_var_def pointee_def)

lemma trip_any: "any_ok d \<Longrightarrow> \<exists>n. \<forall>u bo. trip u bo (encode_struct (GAny d)) () (Decode_PVAny None) d n"
  unfolding Decode_PVAny_def by (rule variant.trip_msg)

text \<open>An optional last or middle part, present on both sides under the same condition.\<close>

lemma trip_when_if:
  assumes "b \<Longrightarrow> trip u bo m () dm x n" and "\<not> b \<Longrightarrow> x = y"
  shows "trip u bo (whenA b m) () (ifA b dm (retA y)) x (if b then n else 0)"
proof (cases b)
  case True
  moreover have "whenA True m = m" by (rule ext) (simp add: whenA_def)
  ultimately show ?thesis using assms(1) by simp
next
  case False
  moreover have "whenA False m = retA ()" by (rule ext) (simp add: whenA_def retA_def)
  ultimately show ?thesis using assms(2) trip_ret by simp
qed

lemma trip_get_request:
  assumes "if gq_Subcommand r AND CHANNEL_GET_INIT = CHANNEL_GET_INIT then any_ok (gq_PVRequest r) else gq_PVRequest r = None"
  shows "\<exists>n. \<forall>u bo. trip u bo (ChannelGetRequest_PVEncode r) () ChannelGetRequest_PVDecode r n"
proof -
  obtain c i s d where r: "r = \<lparr>gq_ServerChannelID = c, gq_RequestID = i, gq_Subcommand = s, gq_PVRequest = d\<rparr>" by (cases r)
  let ?init = "s AND CHANNEL_GET_INIT = CHANNEL_GET_INIT"
  obtain n where n: "?init \<Longrightarrow> trip u bo (encode_struct (GAny d)) () (Decode_PVAny None) d n" for u bo
    using trip_any [of d] assms by (cases ?init) (auto simp: r)
  let ?f = "\<lambda>c i s d. retA \<lparr>gq_ServerChannelID = c, gq_RequestID = i, gq_Subcommand = s, gq_PVRequest = d\<rparr>"
  have 1: "trip u bo (whenA ?init (encode_struct (GAny d))) ()
      (bindA (ifA ?init (Decode_PVAny None) (retA None)) (?f c i s)) r (if ?init then n else 0)" for u bo
    using assms by (intro trip_bind_ret [where x = d] trip_when_if n) (simp_all add: r)
  let ?g = "\<lambda>c i s. bindA (ifA (s AND CHANNEL_GET_INIT = CHANNEL_GET_INIT) (Decode_PVAny None) (retA None)) (?f c i s)"
  have 2: "trip u bo (seqA (PVByte_PVEncode s) (whenA ?init (encode_struct (GAny d)))) ()
      (bindA PVByte_PVDecode (?g c i)) r (0 + (if ?init then n else 0))" for u bo
    by (rule trip_seq [OF trip_byte, where f = "?g c i", OF 1])
  have 3: "trip u bo (seqA (PVInt_PVEncode i) (seqA (PVByte_PVEncode s) (whenA ?init (encode_struct (GAny d))))) ()
      (bindA PVInt_PVDecode (\<lambda>i. bindA PVByte_PVDecode (?g c i))) r (0 + (0 + (if ?init then n else 0)))" for u bo
    by (rule trip_seq [OF trip_int, where f = "\<lambda>i. bindA PVByte_PVDecode (?g c i)", OF 2])
  show ?thesis
    using trip_seq [OF trip_int, where f = "\<lambda>c. bindA PVInt_PVDecode (\<lambda>i. bindA PVByte_PVDecode (?g c i))", OF 3]
    unfolding ChannelGetRequest_PVEncode_def ChannelGetRequest_PVDecode_def by (auto simp: r)
qed

text \<open>The last part of a monitor request, with the initial arguments before it.\<close>

definition monitor_tail :: "byte \<Rightarrow> gval option \<Rightarrow> 32 word \<Rightarrow> 32 word \<Rightarrow> enc" where
  "monitor_tail s d n q =
     seqA (whenA (s AND CHANNEL_MONITOR_INIT = CHANNEL_MONITOR_INIT) (encode_struct (GAny d)))
       (whenA (s AND CHANNEL_MONITOR_PIPELINE_SUPPORT = CHANNEL_MONITOR_PIPELINE_SUPPORT)
          (seqA (PVInt_PVEncode n) (PVInt_PVEncode q)))"

lemma trip_monitor_tail:
  assumes "if s AND CHANNEL_MONITOR_INIT = CHANNEL_MONITOR_INIT then any_ok d else d = None"
    and "s AND CHANNEL_MONITOR_PIPELINE_SUPPORT \<noteq> CHANNEL_MONITOR_PIPELINE_SUPPORT \<Longrightarrow> nf = 0 \<and> qs = 0"
  shows "\<exists>k. \<forall>u bo. trip u bo (monitor_tail s d nf qs) ()
    (bindA (ifA (s AND CHANNEL_MONITOR_INIT = CHANNEL_MONITOR_INIT) (Decode_PVAny None) (retA None)) (\<lambda>args.
     bindA (ifA (s AND CHANNEL_MONITOR_PIPELINE_SUPPORT = CHANNEL_MONITOR_PIPELINE_SUPPORT)
        (bindA PVInt_PVDecode (\<lambda>nfree. bindA PVInt_PVDecode (\<lambda>queue. retA (nfree, queue)))) (retA (0, 0))) (\<lambda>w.
     retA \<lparr>mq_ServerChannelID = c, mq_RequestID = i, mq_Subcommand = s, mq_PVRequest = args,
       NFree = fst w, QueueSize = snd w\<rparr>)))
    \<lparr>mq_ServerChannelID = c, mq_RequestID = i, mq_Subcommand = s, mq_PVRequest = d, NFree = nf, QueueSize = qs\<rparr> k"
proof -
  let ?init = "s AND CHANNEL_MONITOR_INIT = CHANNEL_MONITOR_INIT"
  let ?pipe = "s AND CHANNEL_MONITOR_PIPELINE_SUPPORT = CHANNEL_MONITOR_PIPELINE_SUPPORT"
  obtain n where n: "?init \<Longrightarrow> trip u bo (encode_struct (GAny d)) () (Decode_PVAny None) d n" for u bo
    using trip_any [of d] assms(1) by (cases ?init) auto
  have window: "trip u bo (seqA (PVInt_PVEncode nf) (PVInt_PVEncode qs)) ()
      (bindA PVInt_PVDecode (\<lambda>nfree. bindA PVInt_PVDecode (\<lambda>queue. retA (nfree, queue)))) (nf, qs) (0 + 0)" for u bo
    by (rule trip_seq [OF trip_int, where f = "\<lambda>nfree. bindA PVInt_PVDecode (\<lambda>queue. retA (nfree, queue))"])
      (rule trip_map [OF trip_int], rule refl)
  let ?w = "\<lambda>args w. retA \<lparr>mq_ServerChannelID = c, mq_RequestID = i, mq_Subcommand = s, mq_PVRequest = args,
       NFree = fst w, QueueSize = snd w\<rparr>"
  let ?dw = "ifA ?pipe (bindA PVInt_PVDecode (\<lambda>nfree. bindA PVInt_PVDecode (\<lambda>queue. retA (nfree, queue)))) (retA (0, 0))"
  have 1: "trip u bo (whenA ?pipe (seqA (PVInt_PVEncode nf) (PVInt_PVEncode qs))) () (bindA ?dw (?w d))
      \<lparr>mq_ServerChannelID = c, mq_RequestID = i, mq_Subcommand = s, mq_PVRequest = d, NFree = nf, QueueSize = qs\<rparr>
      (if ?pipe then 0 + 0 else 0)" for u bo
    using assms(2) by (intro trip_bind_ret [where x = "(nf, qs)"] trip_when_if window) auto
  have 2: "trip u bo (whenA ?init (encode_struct (GAny d))) () (ifA ?init (Decode_PVAny None) (retA None)) d
      (if ?init then n else 0)" for u bo
    using assms(1) by (intro trip_when_if n) auto
  show ?thesis unfolding monitor_tail_def
    using trip_seq [OF 2, where f = "\<lambda>args. bindA ?dw (?w args)", OF 1] by blast
qed

lemma trip_monitor_request:
  assumes "if mq_Subcommand r AND CHANNEL_MONITOR_INIT = CHANNEL_MONITOR_INIT then any_ok (mq_PVRequest r) else mq_PVRequest r = None"
    and "mq_Subcommand r AND CHANNEL_MONITOR_PIPELINE_SUPPORT \<noteq> CHANNEL_MONITOR_PIPELINE_SUPPORT \<Longrightarrow> NFree r = 0 \<and> QueueSize r = 0"
  shows "\<exists>n. \<forall>u bo. trip u bo (ChannelMonitorRequest_PVEncode r) () ChannelMonitorRequest_PVDecode r n"
proof -
  obtain c i s d nf qs where r: "r = \<lparr>mq_ServerChannelID = c, mq_RequestID = i, mq_Subcommand = s, mq_PVRequest = d,
      NFree = nf, QueueSize = qs\<rparr>" by (cases r)
  let ?tail = "\<lambda>c i s. bindA (ifA (s AND CHANNEL_MONITOR_INIT = CHANNEL_MONITOR_INIT) (Decode_PVAny None) (retA None)) (\<lambda>args.
     bindA (ifA (s AND CHANNEL_MONITOR_PIPELINE_SUPPORT = CHANNEL_MONITOR_PIPELINE_SUPPORT)
        (bindA PVInt_PVDecode (\<lambda>nfree. bindA PVInt_PVDecode (\<lambda>queue. retA (nfree, queue)))) (retA (0, 0))) (\<lambda>w.
     retA \<lparr>mq_ServerChannelID = c, mq_RequestID = i, mq_Subcommand = s, mq_PVRequest = args,
       NFree = fst w, QueueSize = snd w\<rparr>))"
  have ok: "if s AND CHANNEL_MONITOR_INIT = CHANNEL_MONITOR_INIT then any_ok d else d = None"
    "s AND CHANNEL_MONITOR_PIPELINE_SUPPORT \<noteq> CHANNEL_MONITOR_PIPELINE_SUPPORT \<Longrightarrow> nf = 0 \<and> qs = 0"
    using assms unfolding r by (simp_all cong: if_cong)
  obtain k where 1: "trip u bo (monitor_tail s d nf qs) () (?tail c i s) r k" for u bo
    using trip_monitor_tail [OF ok, of c i] unfolding r by blast
  have 2: "trip u bo (seqA (PVUByte_PVEncode s) (monitor_tail s d nf qs)) () (bindA PVUByte_PVDecode (?tail c i)) r (0 + k)" for u bo
    by (rule trip_seq [OF trip_ubyte, where f = "?tail c i", OF 1])
  have 3: "trip u bo (seqA (PVInt_PVEncode i) (seqA (PVUByte_PVEncode s) (monitor_tail s d nf qs))) ()
      (bindA PVInt_PVDecode (\<lambda>i. bindA PVUByte_PVDecode (?tail c i))) r (0 + (0 + k))" for u bo
    by (rule trip_seq [OF trip_int, where f = "\<lambda>i. bindA PVUByte_PVDecode (?tail c i)", OF 2])
  show ?thesis
    using trip_seq [OF trip_int, where f = "\<lambda>c. bindA PVInt_PVDecode (\<lambda>i. bindA PVUByte_PVDecode (?tail c i))", OF 3]
    unfolding ChannelMonitorRequest_PVEncode_def ChannelMonitorRequest_PVDecode_def monitor_tail_def by (auto simp: r)
qed

lemma trip_create_request:
  assumes "length cs < 2 ^ 15" and "list_all (\<lambda>c. length (cc_ChannelName c) \<le> 500) cs"
  shows "\<exists>n. \<forall>u bo. trip u bo (CreateChannelRequest_PVEncode cs) () CreateChannelRequest_PVDecode cs n"
proof -
  have "\<exists>k. \<forall>c \<in> set cs. \<forall>u bo. trip u bo (encode_struct (CreateChannelRequest_Channel_gval c)) ()
      (decode_msg CreateChannelRequest_Channel_of zero_create_channel) c (k c)"
    using assms(2) create_channel.trip_msg by (intro bchoice) (auto simp: list_all_iff)
  then obtain k where k: "\<And>c u bo. c \<in> set cs \<Longrightarrow> trip u bo (encode_struct (CreateChannelRequest_Channel_gval c)) ()
      (decode_msg CreateChannelRequest_Channel_of zero_create_channel) c (k c)" by blast
  let ?dec = "\<lambda>count :: 16 word. ifA (sint count < 0) (failA (Panic MakeSliceLen))
     (mapA (\<lambda>z. decode_msg CreateChannelRequest_Channel_of z) (replicate (nat (sint count)) zero_create_channel))"
  have "trip u bo (eachA (\<lambda>c. encode_struct (CreateChannelRequest_Channel_gval c)) cs) ()
      (mapA (\<lambda>z. decode_msg CreateChannelRequest_Channel_of z) (map (\<lambda>c. zero_create_channel) cs)) cs (sum_list (map k cs))" for u bo
    by (rule trip_each) (rule k)
  moreover have "sint (of_nat (length cs) :: 16 word) = int (length cs)"
    using assms(1) by (simp add: signed_of_nat signed_take_bit_int_eq_self)
  ultimately have "trip u bo (eachA (\<lambda>c. encode_struct (CreateChannelRequest_Channel_gval c)) cs) ()
      (?dec (of_nat (length cs))) cs (sum_list (map k cs))" for u bo
    by (simp add: map_replicate_const)
  from trip_seq [OF trip_short, where f = ?dec, OF this]
  show ?thesis unfolding CreateChannelRequest_PVEncode_def CreateChannelRequest_PVDecode_def by blast
qed

section \<open>Failed responses\<close>

text \<open>Structs by their fields, as the encoder runs over them.\<close>

lemma encode_struct_fields: "encode_struct (GStruct i fs) = eachUntilA enc_field fs"
  by (rule ext) (simp add: encode_struct_def enc_value.simps enc_pv.simps)

lemma enc_pv_direct: "enc_pv HDirect (GPrim named p) = enc_prim p" "enc_pv HDirect (GStatus st) = PVStatus_PVEncode st"
  by (rule ext, simp add: enc_pv.simps)+

lemma liftA_Inr: "liftA (Inr x) = retA x"
  by (rule ext) (simp add: liftA_def retA_def)

lemmas enc_field_simps = enc_field.simps field_omitted_def omitted_def tag_value_def field_options_def has_tag_def
  enc_pv_direct liftA_Inr seqA_def [abs_def]

lemma enc_field_plain:
  "enc_field (n, [], GPrim True p) s = bindA record_changed (\<lambda>_. bindA (enc_prim p) (\<lambda>_. retA False)) s"
  by (simp add: enc_field_simps)

lemma enc_field_status:
  "enc_field (n, [], GStatus st) s = bindA record_changed (\<lambda>_. bindA (PVStatus_PVEncode st) (\<lambda>_. retA False)) s"
  "enc_field (fStatus st) s = bindA record_changed (\<lambda>_. bindA (PVStatus_PVEncode st) (\<lambda>_. retA (status_failed st))) s"
  by (simp_all add: enc_field_simps parse_tag_breakonerror)

definition reply_wire :: "byte_order \<Rightarrow> 32 word \<Rightarrow> byte \<Rightarrow> pvstatus \<Rightarrow> byte list" where
  "reply_wire bo request sub st = put_uint bo 4 request @ [sub] @ status_wire bo st"

lemma error_reply_bytes:
  "encode_struct (ChannelResponseError_gval m) (encoder bo) =
     (Inr (), emit (reply_wire bo (re_RequestID m) (re_Subcommand m) (re_Status m)) (encoder bo))"
  by (simp add: encode_struct_fields ChannelResponseError_gval_def act_simps enc_field_plain enc_field_status
      record_changed_def scalar_enc_defs PVStatus_enc reply_wire_def)

lemma failed_struct_bytes:
  assumes "status_failed st"
  shows "encode_struct (GStruct [] (fInt ''RequestID'' i # fByte ''Subcommand'' s # fStatus st # fs)) (encoder bo) =
     (Inr (), emit (reply_wire bo i s st) (encoder bo))"
  using assms by (simp add: encode_struct_fields act_simps enc_field_plain enc_field_status record_changed_def
      scalar_enc_defs PVStatus_enc reply_wire_def)

lemma rpc_init_bytes:
  "encode_struct (ChannelRPCResponseInit_gval m) (encoder bo) =
     (Inr (), emit (reply_wire bo (re_RequestID m) 0x08 (re_Status m)) (encoder bo))"
proof -
  have "enc_field (''Subcommand'', '',always=0x08'', GPrim True (PVByte b)) s =
      bindA record_changed (\<lambda>_. bindA (enc_prim (PVByte 0x08)) (\<lambda>_. retA False)) s" for b s
    by (simp add: enc_field_simps parse_tag_always)
  then show ?thesis
    by (simp add: encode_struct_fields ChannelRPCResponseInit_gval_def act_simps enc_field_plain enc_field_status
        record_changed_def scalar_enc_defs PVStatus_enc reply_wire_def)
qed

section \<open>Search requests\<close>

text \<open>The bytes of a search request as the protocol lays them out, without presence bytes.\<close>

definition search_channel_wire :: "byte_order \<Rightarrow> SearchRequest_Channel \<Rightarrow> byte list" where
  "search_channel_wire bo c = put_uint bo 4 (SearchInstanceID c) @ string_wire bo (sr_ChannelName c)"

definition search_wire :: "byte_order \<Rightarrow> SearchRequest \<Rightarrow> byte list" where
  "search_wire bo m = put_uint bo 4 (sr_SearchSequenceID m) @ [sr_Flags m] @ Reserved m @ ResponseAddress m @
     put_uint bo 2 (ResponsePort m) @ size_wire bo (len_word (length (Protocols m))) @ concat (map (string_wire bo) (Protocols m)) @
     put_uint bo 2 (of_nat (length (sr_Channels m)) :: 16 word) @ concat (map (search_channel_wire bo) (sr_Channels m))"

definition search_ok :: "SearchRequest \<Rightarrow> bool" where
  "search_ok m \<longleftrightarrow> length (Reserved m) = 3 \<and> length (ResponseAddress m) = 16 \<and>
     list_all string_ok (Protocols m) \<and> len_ok (length (Protocols m)) \<and>
     list_all (\<lambda>c. string_ok (sr_ChannelName c)) (sr_Channels m) \<and> length (sr_Channels m) < 2 ^ 16"

lemma reads_codec:
  assumes "\<And>d rest. dorder d = Some bo \<Longrightarrow> dbuf d = bs @ rest \<Longrightarrow> m d = (Inr x, d\<lparr>dbuf := rest\<rparr>)"
  shows "reads False bo m x bs 0"
  using assms by (auto simp: reads_def)

lemma reads_prim: "prim_zero z = prim_zero p \<Longrightarrow> prim_ok p \<Longrightarrow> reads False bo (dec_prim z) p (prim_wire bo p) 0"
  by (rule reads_codec) (rule prim_dec)

text \<open>One field of a struct read outside of a difference.\<close>

lemma reads_field:
  assumes "snd (valueToPVField (field_options tag) g) = Some (h, t)"
    and "\<not> has_tag (snd (parse_tag tag)) ''breakonerror''"
    and "reads False bo (dec_pv h t) t' bs 0" and "plug (fst (valueToPVField (field_options tag) g)) t' = g'"
  shows "reads False bo (dec_field True (n, tag, g)) ((n, tag, g'), False) bs 0"
  unfolding reads_def
proof (intro allI impI)
  fix d :: dstate and rest
  assume d: "dorder d = Some bo" "ducbs d = False" "dbuf d = bs @ rest" "bits_set d 0"
  from readsD [OF assms(3) d] have "dec_pv h t d = (Inr t', d\<lparr>dbuf := rest\<rparr>)" by simp
  then show "dec_field True (n, tag, g) d = (Inr ((n, tag, g'), False), d\<lparr>dbuf := rest, dcbsi := dcbsi d + (if False then 0 else 0)\<rparr>)"
    using assms(1,2,4) d(2) by (simp add: dec_field.simps seqA_def bindA_def next_field_def field_selected_def ifA_def retA_def liftA_def)
qed

lemma reads_fields_Nil: "reads False bo (mapUntilA f []) [] [] 0"
  by (auto simp: reads_def)

lemma reads_fields_Cons:
  assumes "reads False bo (f x) (y, False) bs 0" and "reads False bo (mapUntilA f xs) ys cs 0"
  shows "reads False bo (mapUntilA f (x # xs)) (y # ys) (bs @ cs) 0"
proof -
  have "mapUntilA f (x # xs) = bindA (f x) (\<lambda>r. ifA (snd r) (retA (fst r # xs)) (bindA (mapUntilA f xs) (\<lambda>ys. retA (fst r # ys))))"
    by (rule ext) simp
  moreover have "reads False bo (ifA (snd (y, False)) (retA (fst (y, False) # xs))
      (bindA (mapUntilA f xs) (\<lambda>ys. retA (fst (y, False) # ys)))) (y # ys) cs 0"
    by (simp add: reads_map [OF assms(2)])
  ultimately show ?thesis using reads_bind [OF assms(1)] by fastforce
qed

lemma reads_struct:
  assumes "reads False bo (mapUntilA (dec_field True) fs) fs' bs 0"
  shows "reads False bo (dec_pv (HStruct v i) (GStruct j fs)) (GStruct j fs') bs 0"
  unfolding reads_def
proof (intro allI impI)
  fix d :: dstate and rest
  assume d: "dorder d = Some bo" "ducbs d = False" "dbuf d = bs @ rest" "bits_set d 0"
  from readsD [OF assms d] d(2)
  show "dec_pv (HStruct v i) (GStruct j fs) d = (Inr (GStruct j fs'), d\<lparr>dbuf := rest, dcbsi := dcbsi d + (if False then 0 else 0)\<rparr>)"
    by (simp add: dec_pv.simps full_struct_def bindA_def retA_def)
qed

lemma reads_elems:
  assumes "\<And>x. x \<in> set xs \<Longrightarrow> reads False bo (dec_elem z) (f x) (w x) 0"
  shows "reads False bo (mapA dec_elem (replicate (length xs) z)) (map f xs) (concat (map w xs)) 0"
  using assms
proof (induction xs)
  case (Cons x xs)
  have "mapA dec_elem (replicate (length (x # xs)) z) =
      bindA (dec_elem z) (\<lambda>y. bindA (mapA dec_elem (replicate (length xs) z)) (\<lambda>ys. retA (y # ys)))"
    by (rule ext) simp
  moreover have "reads False bo (mapA dec_elem (replicate (length xs) z)) (map f xs) (concat (map w xs)) 0"
    using Cons by simp
  moreover have "reads False bo (dec_elem z) (f x) (w x) 0" using Cons.prems by simp
  ultimately show ?case
    using reads_bind [where f = "\<lambda>y. bindA (mapA dec_elem (replicate (length xs) z)) (\<lambda>ys. retA (y # ys))"]
      reads_map [where g = "\<lambda>ys. f x # ys"] by fastforce
qed (auto simp: reads_def)

lemma reads_slice:
  assumes "reads False bo (array_len_dec short) (of_nat (length xs)) ls 0" and "sint (of_nat (length xs) :: 64 word) = int (length xs)"
    and "\<And>x. x \<in> set xs \<Longrightarrow> reads False bo (dec_elem z) (f x) (w x) 0"
  shows "reads False bo (dec_pv (HArray False short) (GSlice z [] [])) (GSlice z (map f xs) []) (ls @ concat (map w xs)) 0"
proof -
  let ?f = "\<lambda>n :: 64 word. ifA (sint n < 0) (failA (Panic SetLenRange))
       (bindA (mapA dec_elem (replicate (nat (sint n)) z)) (\<lambda>es'. retA (GSlice z es' [])))"
  have "reads False bo (mapA dec_elem (replicate (length xs) z)) (map f xs) (concat (map w xs)) 0"
    by (rule reads_elems) (rule assms(3))
  from reads_map [OF this, where g = "\<lambda>es. GSlice z es []"]
  have "reads False bo (?f (of_nat (length xs))) (GSlice z (map f xs) []) (concat (map w xs)) 0"
    by (simp add: assms(2))
  from reads_without_dcbs [OF reads_bind [OF assms(1), where f = ?f, OF this]]
  show ?thesis using dec_slice_blank [of short z "[]"] by simp
qed

lemma reads_elem:
  assumes "field_of g = Some (h, t)" and "reads False bo (dec_pv h t) t' bs 0" and "plug g t' = g'"
  shows "reads False bo (dec_elem g) g' bs 0"
proof -
  have "dec_elem g = bindA (dec_pv h t) (\<lambda>t'. retA (plug g t'))"
    by (rule ext) (simp add: dec_elem.simps assms(1))
  then show ?thesis using reads_map [OF assms(2), of "plug g" g'] assms(3) by simp
qed

lemma reads_direct:
  assumes "prim_zero z = prim_zero p" and "prim_ok p"
  shows "reads False bo (dec_pv HDirect (GPrim named z)) (GPrim named p) (prim_wire bo p) 0"
proof -
  have "dec_pv HDirect (GPrim named z) = bindA (dec_prim z) (\<lambda>p'. retA (GPrim named p'))"
    by (rule ext) (simp add: dec_pv.simps)
  then show ?thesis using reads_map [OF reads_prim [OF assms], of "GPrim named"] by simp
qed

lemma reads_plain_field:
  assumes "prim_zero z = prim_zero p" and "prim_ok p"
  shows "reads False bo (dec_field True (n, [], GPrim True z)) ((n, [], GPrim True p), False) (prim_wire bo p) 0"
  by (rule reads_field [where h = HDirect and t = "GPrim True z" and t' = "GPrim True p"])
    (simp_all add: field_options_def has_tag_def reads_direct [OF assms])

lemma reads_bound_field:
  assumes "string_ok s"
  shows "reads False bo (dec_field True (n, '',bound=500'', GPrim False (PVString [])))
    ((n, '',bound=500'', GPrim False (PVString s)), False) (string_wire bo s) 0"
proof (rule reads_field)
  show "snd (valueToPVField (field_options '',bound=500'') (GPrim False (PVString []))) = Some (HBounded 500, GPrim False (PVString []))"
    by (simp add: field_options_def parse_tag_bound)
  have "dec_pv (HBounded 500) (GPrim False (PVString [])) = bindA PVString_PVDecode (\<lambda>v'. retA (GPrim False (PVString v')))"
    by (rule ext) (simp add: dec_pv.simps)
  moreover have "reads False bo PVString_PVDecode s (string_wire bo s) 0"
    by (rule reads_codec) (rule PVString_dec [OF assms])
  ultimately show "reads False bo (dec_pv (HBounded 500) (GPrim False (PVString []))) (GPrim False (PVString s)) (string_wire bo s) 0"
    using reads_map [of False bo PVString_PVDecode s "string_wire bo s" 0 "\<lambda>v. GPrim False (PVString v)"] by simp
qed (simp_all add: field_options_def parse_tag_bound has_tag_def)

lemma reads_bytes_field:
  assumes "length bs = n"
  shows "reads False bo (dec_field True (name, [], bytes_gval (replicate n 0))) ((name, [], bytes_gval bs), False) bs 0"
proof (rule reads_field)
  let ?z = "GPrim False (PVUByte 0)"
  have "reads False bo (dec_elem ?z) (GPrim False (PVUByte b)) [b] 0" for b
    by (rule reads_elem [where h = HDirect and t = ?z and t' = "GPrim False (PVUByte b)"])
      (use reads_direct [of "PVUByte 0" "PVUByte b"] in simp_all)
  then have "reads False bo (mapA dec_elem (replicate (length bs) ?z)) (map (\<lambda>b. GPrim False (PVUByte b)) bs)
      (concat (map (\<lambda>b. [b]) bs)) 0"
    by (intro reads_elems)
  then have "reads False bo (bindA (mapA dec_elem (replicate (length bs) ?z)) (\<lambda>es'. retA (GArray ?z es')))
      (GArray ?z (map (\<lambda>b. GPrim False (PVUByte b)) bs)) bs 0"
    using reads_map [where g = "GArray ?z"] by (fastforce simp: concat_map_singleton)
  from reads_without_dcbs [OF this]
  show "reads False bo (dec_pv (HArray True False) (bytes_gval (replicate n 0))) (bytes_gval bs) bs 0"
    using dec_array_blank [of False ?z "replicate n ?z"] by (simp add: bytes_gval_def assms)
qed (simp_all add: field_options_def has_tag_def bytes_gval_def)

lemma reads_strings_field:
  assumes "list_all string_ok ss" and "len_ok (length ss)"
  shows "reads False bo (dec_field True (name, [], strings_gval True [])) ((name, [], strings_gval True ss), False)
    (size_wire bo (len_word (length ss)) @ concat (map (string_wire bo) ss)) 0"
proof (rule reads_field)
  let ?z = "GPrim True (PVString [])"
  have len: "reads False bo (array_len_dec False) (of_nat (length ss)) (size_wire bo (len_word (length ss))) 0"
    using assms(2) PVSize_dec [of _ bo "len_word (length ss)"]
    by (intro reads_codec) (simp add: array_len_dec_def len_word_def [symmetric])
  have "reads False bo (dec_elem ?z) (GPrim True (PVString s)) (string_wire bo s) 0" if "s \<in> set ss" for s
    using that assms(1) reads_direct [of "PVString []" "PVString s" bo True]
    by (intro reads_elem [where h = HDirect and t = ?z and t' = "GPrim True (PVString s)"]) (simp_all add: list_all_iff)
  from reads_slice [OF len _ this] show "reads False bo (dec_pv (HArray False False) (strings_gval True [])) (strings_gval True ss)
      (size_wire bo (len_word (length ss)) @ concat (map (string_wire bo) ss)) 0"
    using of_nat_len [of False "length ss"] assms(2) by (simp add: strings_gval_def)
qed (simp_all add: field_options_def has_tag_def strings_gval_def)

lemma reads_channels_field:
  assumes "list_all (\<lambda>c. string_ok (sr_ChannelName c)) cs" and "length cs < 2 ^ 16"
  shows "reads False bo (dec_field True (name, '',short'', GSlice zero_search_channel [] []))
    ((name, '',short'', GSlice zero_search_channel (map SearchRequest_Channel_gval cs) []), False)
    (put_uint bo 2 (of_nat (length cs) :: 16 word) @ concat (map (search_channel_wire bo) cs)) 0"
proof (rule reads_field)
  have len: "reads False bo (array_len_dec True) (of_nat (length cs)) (put_uint bo 2 (of_nat (length cs) :: 16 word)) 0"
  proof (rule reads_codec)
    have "ucast (of_nat (length cs) :: 16 word) = (of_nat (length cs) :: 64 word)"
      using assms(2) by (intro word_uint_eqI) (simp add: unsigned_ucast_eq unsigned_of_nat take_bit_nat_eq_self
          take_bit_int_eq_self uint_nat)
    then show "array_len_dec True d = (Inr (of_nat (length cs)), d\<lparr>dbuf := rest\<rparr>)"
      if "dorder d = Some bo" "dbuf d = put_uint bo 2 (of_nat (length cs) :: 16 word) @ rest" for d rest
      using that by (simp add: array_len_dec_def scalar_dec_defs act_simps ReadUint_put)
  qed
  have "reads False bo (dec_elem zero_search_channel) (SearchRequest_Channel_gval c) (search_channel_wire bo c) 0"
    if "c \<in> set cs" for c
  proof (rule reads_elem)
    let ?fs = "[(''SearchInstanceID'', [], GPrim True (PVUInt (SearchInstanceID c))),
       (''ChannelName'', '',bound=500'', GPrim False (PVString (sr_ChannelName c)))]"
    have "reads False bo (mapUntilA (dec_field True) [(''SearchInstanceID'', [], GPrim True (PVUInt 0)),
        (''ChannelName'', '',bound=500'', GPrim False (PVString []))]) ?fs
        (prim_wire bo (PVUInt (SearchInstanceID c)) @ string_wire bo (sr_ChannelName c) @ []) 0"
      using that assms(1)
      by (intro reads_fields_Cons reads_plain_field reads_bound_field reads_fields_Nil) (simp_all add: list_all_iff)
    from reads_struct [OF this]
    show "reads False bo (dec_pv (HStruct True []) zero_search_channel) (SearchRequest_Channel_gval c) (search_channel_wire bo c) 0"
      by (simp add: zero_search_channel_def SearchRequest_Channel_gval_def search_channel_wire_def)
  qed (simp_all add: zero_search_channel_def SearchRequest_Channel_gval_def)
  from reads_slice [OF len _ this] show "reads False bo (dec_pv (HArray False True) (GSlice zero_search_channel [] []))
      (GSlice zero_search_channel (map SearchRequest_Channel_gval cs) [])
      (put_uint bo 2 (of_nat (length cs) :: 16 word) @ concat (map (search_channel_wire bo) cs)) 0"
    using of_nat_len [of True "length cs"] assms(2) by simp
qed (simp_all add: field_options_def has_tag_def parse_tag_short)

lemma reads_search:
  assumes "search_ok m"
  shows "reads False bo (dec_value (Some (GPtr zero_search))) (Some (GPtr (SearchRequest_gval m))) (search_wire bo m) 0"
proof -
  let ?z = "\<lparr>sr_SearchSequenceID = 0, sr_Flags = 0, Reserved = replicate 3 0, ResponseAddress = replicate 16 0,
     ResponsePort = 0, Protocols = [], sr_Channels = []\<rparr>"
  let ?fs = "\<lambda>m. [(''SearchSequenceID'', [], GPrim True (PVUInt (sr_SearchSequenceID m))),
     (''Flags'', [], GPrim True (PVUByte (sr_Flags m))),
     (''Reserved'', [], bytes_gval (Reserved m)),
     (''ResponseAddress'', [], bytes_gval (ResponseAddress m)),
     (''ResponsePort'', [], GPrim True (PVUShort (ResponsePort m))),
     (''Protocols'', [], strings_gval True (Protocols m)),
     (''Channels'', '',short'', GSlice zero_search_channel (map SearchRequest_Channel_gval (sr_Channels m)) [])]"
  have ok: "length (Reserved m) = 3" "length (ResponseAddress m) = 16" "list_all string_ok (Protocols m)"
    "len_ok (length (Protocols m))" "list_all (\<lambda>c. string_ok (sr_ChannelName c)) (sr_Channels m)" "length (sr_Channels m) < 2 ^ 16"
    using assms by (simp_all add: search_ok_def)
  have "reads False bo (mapUntilA (dec_field True) (?fs ?z)) (?fs m)
     (prim_wire bo (PVUInt (sr_SearchSequenceID m)) @ prim_wire bo (PVUByte (sr_Flags m)) @ Reserved m @ ResponseAddress m @
      prim_wire bo (PVUShort (ResponsePort m)) @
      (size_wire bo (len_word (length (Protocols m))) @ concat (map (string_wire bo) (Protocols m))) @
      (put_uint bo 2 (of_nat (length (sr_Channels m)) :: 16 word) @ concat (map (search_channel_wire bo) (sr_Channels m))) @ []) 0"
    unfolding SearchRequest.simps list.map
    by (intro reads_fields_Cons reads_fields_Nil reads_plain_field reads_bytes_field reads_strings_field
        reads_channels_field ok) simp_all
  from reads_struct [OF this]
  have "reads False bo (dec_pv (HStruct True []) zero_search) (SearchRequest_gval m) (search_wire bo m) 0"
    by (simp add: zero_search_def SearchRequest_gval_def search_wire_def)
  moreover have "dec_value (Some (GPtr zero_search)) = bindA (dec_pv (HStruct True []) zero_search) (\<lambda>t. retA (Some (GPtr t)))"
    by (rule ext) (simp add: dec_value.simps iface_var_def zero_search_def SearchRequest_gval_def)
  ultimately show ?thesis using reads_map by fastforce
qed

lemma SearchRequest_Channel_of_gval [simp]: "SearchRequest_Channel_of (SearchRequest_Channel_gval c) = c"
  by (simp add: SearchRequest_Channel_of_def SearchRequest_Channel_gval_def field_at_def the_int_def the_prim_def)

lemma SearchRequest_of_gval: "SearchRequest_of (SearchRequest_gval m) = m"
  by (simp add: SearchRequest_of_def SearchRequest_gval_def bytes_gval_def strings_gval_def field_at_def the_elems_def o_def
      the_int_def the_short_def the_prim_def)

section \<open>Alignment\<close>

definition aw_ok :: "AligningWriter \<Rightarrow> bool" where
  "aw_ok w \<longleftrightarrow> bytesWritten w = word_of_nat (length (aw_out w))"

lemma aw_ok_new: "aw_ok NewAligningWriter"
  by (simp add: aw_ok_def NewAligningWriter_def)

lemma aw_ok_Write: "aw_ok w \<Longrightarrow> aw_ok (AligningWriter_Write p w)"
  by (simp add: aw_ok_def AligningWriter_Write_def)

lemma aw_ok_Align: "aw_ok w \<Longrightarrow> aw_ok (AligningWriter_Align w)"
  by (simp add: AligningWriter_Align_def Let_def aw_ok_Write)

lemma aw_ok_writes: "aw_ok w \<Longrightarrow> aw_ok (fold AligningWriter_Write ps w) \<and>
    aw_out (fold AligningWriter_Write ps w) = aw_out w @ concat ps"
proof (induction ps arbitrary: w)
  case (Cons p ps)
  then show ?case using Cons.IH [OF aw_ok_Write [OF Cons.prems, of p]] by (simp add: AligningWriter_Write_def)
qed simp

lemma AligningWriter_Align_out:
  assumes "aw_ok w" and "length (aw_out w) < 2 ^ 63"
  shows "\<exists>k < 8. aw_out (AligningWriter_Align w) = aw_out w @ replicate k 0 \<and> (length (aw_out w) + k) mod 8 = 0"
proof -
  let ?n = "length (aw_out w)"
  have "sint (bytesWritten w) = int ?n"
    using assms by (simp add: aw_ok_def signed_of_nat signed_take_bit_int_eq_self)
  then have rem: "go_rem (sint (bytesWritten w)) 8 = int (?n mod 8)"
    by (cases "?n = 0") (simp_all add: go_rem_def zmod_int)
  show ?thesis
  proof (cases "?n mod 8 = 0")
    case True
    then show ?thesis using rem by (intro exI [of _ 0]) (simp add: AligningWriter_Align_def)
  next
    case False
    have "aw_out (AligningWriter_Align w) = aw_out w @ replicate (nat (8 - int (?n mod 8))) 0"
      using rem False by (simp add: AligningWriter_Align_def AligningWriter_Write_def Let_def)
    moreover have "nat (8 - int (?n mod 8)) = 8 - ?n mod 8" by simp
    moreover have "(?n + (8 - ?n mod 8)) mod 8 = 0"
    proof -
      have "?n mod 8 < 8" by simp
      then show ?thesis by presburger
    qed
    moreover have "8 - ?n mod 8 < 8" using False by simp
    ultimately show ?thesis by metis
  qed
qed

section \<open>Properties\<close>

text \<open>A header is eight bytes and is read back from them, and reading it sets the decoder to the
  byte order that the sender's flag announces, whatever it was before.\<close>

theorem PVAccessHeader_roundtrip:
  assumes "(Flags h AND FLAG_BO_BE = FLAG_BO_BE) = (bo = BigEndian)"
  shows "\<exists>e. PVAccessHeader_PVEncode h (encoder bo) = (Inr (), e) \<and> length (ebuf e) = 8 \<and>
     PVAccessHeader_PVDecode (zero_header False) \<lparr>dbuf = ebuf e @ rest, dorder = order, dcbs = [], ducbs = False, dcbsi = 0\<rparr> =
       (Inr (h\<lparr>ForceByteOrder := False\<rparr>), decoder bo rest)"
proof -
  have "(if Flags h AND 0x80 = 0x80 then BigEndian else LittleEndian) = bo"
    using assms by (cases bo) auto
  then show ?thesis
    by (simp add: PVAccessHeader_PVEncode_def PVAccessHeader_PVDecode_def act_simps scalar_enc_defs scalar_dec_defs
        zero_header_def set_byte_order_def decoder_def ReadUint_put)
qed

theorem PVAccessHeader_roundtrip_witness:
  "let h = \<lparr>Version = 2, Flags = 0x41, MessageCommand = 2, PayloadSize = 0, ForceByteOrder = False\<rparr> in
   \<exists>e. PVAccessHeader_PVEncode h (encoder LittleEndian) = (Inr (), e) \<and> length (ebuf e) = 8 \<and>
     PVAccessHeader_PVDecode (zero_header False) \<lparr>dbuf = ebuf e @ [], dorder = None, dcbs = [], ducbs = False, dcbsi = 0\<rparr> =
       (Inr (h\<lparr>ForceByteOrder := False\<rparr>), decoder LittleEndian [])"
  unfolding Let_def by (rule PVAccessHeader_roundtrip) simp

text \<open>C11: The requests with a hand-written codec are read back: the optional parts of get and monitor
  requests under the bits of the subcommand, and any number of channels up to 32767 to create.\<close>

theorem request_codecs:
  assumes "if gq_Subcommand g AND CHANNEL_GET_INIT = CHANNEL_GET_INIT then any_ok (gq_PVRequest g) else gq_PVRequest g = None"
    and "if mq_Subcommand m AND CHANNEL_MONITOR_INIT = CHANNEL_MONITOR_INIT then any_ok (mq_PVRequest m) else mq_PVRequest m = None"
    and "mq_Subcommand m AND CHANNEL_MONITOR_PIPELINE_SUPPORT \<noteq> CHANNEL_MONITOR_PIPELINE_SUPPORT \<Longrightarrow> NFree m = 0 \<and> QueueSize m = 0"
    and "length cs < 2 ^ 15" and "list_all (\<lambda>c. length (cc_ChannelName c) \<le> 500) cs"
  shows "codes (ChannelGetRequest_PVEncode g) ChannelGetRequest_PVDecode g \<and>
    codes (ChannelMonitorRequest_PVEncode m) ChannelMonitorRequest_PVDecode m \<and>
    codes (CreateChannelRequest_PVEncode cs) CreateChannelRequest_PVDecode cs"
  by (intro conjI trips_codes trip_get_request trip_monitor_request trip_create_request assms)

theorem request_codecs_witness:
  "let g = \<lparr>gq_ServerChannelID = 1, gq_RequestID = 2, gq_Subcommand = 0x40, gq_PVRequest = None\<rparr>;
       m = \<lparr>mq_ServerChannelID = 1, mq_RequestID = 3, mq_Subcommand = 0x80, mq_PVRequest = None, NFree = 4, QueueSize = 8\<rparr>;
       cs = [\<lparr>cc_ClientChannelID = 7, cc_ChannelName = ''abc''\<rparr>]
   in codes (ChannelGetRequest_PVEncode g) ChannelGetRequest_PVDecode g \<and>
      codes (ChannelMonitorRequest_PVEncode m) ChannelMonitorRequest_PVDecode m \<and>
      codes (CreateChannelRequest_PVEncode cs) CreateChannelRequest_PVDecode cs"
  unfolding Let_def by (rule request_codecs) simp_all

text \<open>C12: The messages coded by reflection on both sides make the trip through \<open>Encode\<close> and \<open>Decode\<close>.\<close>

theorem struct_messages:
  assumes "any_ok (rq_PVRequest rpc)" and "string_ok (SelectedAuthNZ resp)" and "any_ok (cv_Data resp)"
    and "status_ok (cv_Status validation)" and "length (ForwarderAddress tag) = 16"
  shows "codes (encode_struct (ChannelRPCRequest_gval rpc)) Decode_ChannelRPCRequest rpc \<and>
    codes (encode_struct (ConnectionValidationResponse_gval resp)) Decode_ConnectionValidationResponse resp \<and>
    codes (encode_struct (ConnectionValidated_gval validation)) Decode_ConnectionValidated validation \<and>
    codes (encode_struct (OriginTag_gval tag)) Decode_OriginTag tag \<and>
    codes (encode_struct (DestroyChannel_gval dc)) Decode_DestroyChannel dc \<and>
    codes (encode_struct (CancelDestroyRequest_gval cd)) Decode_CancelDestroyRequest cd"
  unfolding Decode_msg_defs using assms
  by (intro conjI rpc_request.roundtrip validation_response.roundtrip validated.roundtrip origin_tag.roundtrip
      destroy_channel.roundtrip cancel_destroy.roundtrip) simp_all

theorem struct_messages_witness:
  "let rpc = \<lparr>rq_ServerChannelID = 1, rq_RequestID = 2, rq_Subcommand = 8, rq_PVRequest = Some (GPtr (GPrim True (PVInt 7)))\<rparr>;
     resp = \<lparr>ClientReceiveBufferSize = 9, ClientIntrospectionRegistryMaxSize = 1, ConnectionQos = 0,
       SelectedAuthNZ = ''anonymous'', cv_Data = None\<rparr>;
     validation = \<lparr>cv_Status = zero_status\<rparr>; tag = \<lparr>ForwarderAddress = replicate 16 1\<rparr>;
     dc = \<lparr>dc_ServerChannelID = 1, dc_ClientChannelID = 1\<rparr>; cd = \<lparr>cd_ServerChannelID = 1, cd_RequestID = 2\<rparr>
   in codes (encode_struct (ChannelRPCRequest_gval rpc)) Decode_ChannelRPCRequest rpc \<and>
    codes (encode_struct (ConnectionValidationResponse_gval resp)) Decode_ConnectionValidationResponse resp \<and>
    codes (encode_struct (ConnectionValidated_gval validation)) Decode_ConnectionValidated validation \<and>
    codes (encode_struct (OriginTag_gval tag)) Decode_OriginTag tag \<and>
    codes (encode_struct (DestroyChannel_gval dc)) Decode_DestroyChannel dc \<and>
    codes (encode_struct (CancelDestroyRequest_gval cd)) Decode_CancelDestroyRequest cd"
  unfolding Let_def
  by (rule struct_messages)
    (simp_all add: any_ok_def trips_pv.simps trips_value.simps iface_var_def pointee_def string_ok_def len_ok_def status_ok_def
      zero_status_def prim_desc_def code_desc_def zero_head_def wf_head_def has_size_def size_norm_def createZero.simps
      prim_of_code.simps)

text \<open>A search request laid out as the protocol has it, with any number of protocols and channels,
  is decoded to the request it stands for.\<close>

theorem SearchRequest_decodes:
  assumes "search_ok m"
  shows "Decode_SearchRequest (decoder bo (search_wire bo m @ rest)) = (Inr m, decoder bo rest)"
  using readsD [OF reads_search [OF assms, of bo], of "decoder bo (search_wire bo m @ rest)" rest]
  by (simp add: Decode_SearchRequest_def decode_msg_def decode_struct_def act_simps bits_set_def pointed_def SearchRequest_of_gval)

theorem SearchRequest_decodes_witness:
  "let m = \<lparr>sr_SearchSequenceID = 5, sr_Flags = 0x81, Reserved = [0, 0, 0], ResponseAddress = replicate 16 0,
       ResponsePort = 0, Protocols = [''tcp''], sr_Channels = [\<lparr>SearchInstanceID = 1, sr_ChannelName = ''pv''\<rparr>]\<rparr>
   in Decode_SearchRequest (decoder LittleEndian (search_wire LittleEndian m @ [])) = (Inr m, decoder LittleEndian [])"
  unfolding Let_def by (rule SearchRequest_decodes) (simp add: search_ok_def string_ok_def len_ok_def)



text \<open>The reply to a failed RPC carries the subcommand of an initialization, whatever the request
  was: the \<open>always\<close> tag overwrites the subcommand that the handler filled in.\<close>

theorem rpc_error_reply_subcommand:
  "encode_struct (ChannelRPCResponseInit_gval \<lparr>re_RequestID = i, re_Subcommand = s, re_Status = st\<rparr>) (encoder bo) =
     (Inr (), emit (put_uint bo 4 i @ [CHANNEL_RPC_INIT] @ status_wire bo st) (encoder bo))"
  by (simp add: rpc_init_bytes reply_wire_def)

text \<open>Whatever is written in whatever portions, \<open>Align\<close> appends the fewest zero bytes that bring the
  output to a multiple of eight.\<close>

theorem AligningWriter_aligns:
  assumes "length (concat ps) < 2 ^ 63"
  shows "\<exists>k < 8. aw_out (AligningWriter_Align (fold AligningWriter_Write ps NewAligningWriter)) = concat ps @ replicate k 0 \<and>
     (length (concat ps) + k) mod 8 = 0"
proof -
  have w: "aw_ok (fold AligningWriter_Write ps NewAligningWriter)"
    "aw_out (fold AligningWriter_Write ps NewAligningWriter) = concat ps"
    using aw_ok_writes [OF aw_ok_new, of ps] by (simp_all add: NewAligningWriter_def)
  from AligningWriter_Align_out [OF w(1)] assms show ?thesis by (simp add: w(2))
qed

theorem AligningWriter_aligns_witness:
  "\<exists>k < 8. aw_out (AligningWriter_Align (fold AligningWriter_Write [[1, 2, 3], [], [4, 5, 6, 7, 8, 9]] NewAligningWriter)) =
       concat [[1, 2, 3], [], [4, 5, 6, 7, 8, 9]] @ replicate k 0 \<and>
     (length (concat [[1, 2, 3], [], [4, 5, 6, 7, 8, 9 :: byte]]) + k) mod 8 = 0"
  by (rule AligningWriter_aligns) simp

text \<open>A negative number of channels in a create request panics.\<close>

theorem CreateChannelRequest_negative_panics:
  assumes "sint (n :: 16 word) < 0"
  shows "fst (CreateChannelRequest_PVDecode (decoder bo (put_uint bo 2 n @ rest))) = Inl (Panic MakeSliceLen)"
proof -
  have "PVShort_PVDecode (decoder bo (put_uint bo 2 n @ rest)) = (Inr n, decoder bo rest)"
    using ReadUint_put(1) [of "decoder bo (put_uint bo 2 n @ rest)" bo n rest] by (simp add: PVShort_PVDecode_def act_simps)
  then show ?thesis using assms by (simp add: CreateChannelRequest_PVDecode_def act_simps)
qed

theorem CreateChannelRequest_negative_panics_witness:
  "fst (CreateChannelRequest_PVDecode (decoder BigEndian (put_uint BigEndian 2 (-1 :: 16 word) @ []))) = Inl (Panic MakeSliceLen)"
  by (rule CreateChannelRequest_negative_panics) simp

end
