(* ===== verification/PV_Conn.thy ===== *)
theory PV_Conn
  imports PV_Messages
begin

text \<open>
  A connection (internal/connection/connection.go): framing of messages on a byte stream, control
  messages, echo, and the byte order that one side can fix for both.

  The network is the sequence of bytes still to come (\<open>dbuf\<close> of the decoder) and the sequence of the
  bytes written so far (\<open>ebuf\<close> of the encoder): every message is flushed when it is complete. Both
  mutexes only order whole sends, so a send is one step.
\<close>

section \<open>State\<close>

record conn =
  cn_Version :: byte
  Direction :: byte
  cn_enc :: estate
  cn_dec :: dstate
  forceByteOrder :: bool

definition New :: "byte \<Rightarrow> byte list \<Rightarrow> conn" where
  "New direction input = \<lparr>cn_Version = 0, Direction = direction, cn_enc = encoder LittleEndian,
     cn_dec = \<lparr>dbuf = input, dorder = None, dcbs = [], ducbs = False, dcbsi = 0\<rparr>, forceByteOrder = False\<rparr>"

type_synonym 'a conn_act = "(conn, 'a) act"

definition on_enc :: "(estate, 'a) act \<Rightarrow> 'a conn_act" where
  "on_enc m c = (case m (cn_enc c) of (r, t) \<Rightarrow> (r, c\<lparr>cn_enc := t\<rparr>))"

definition on_dec :: "'a dec \<Rightarrow> 'a conn_act" where
  "on_dec m c = (case m (cn_dec c) of (r, t) \<Rightarrow> (r, c\<lparr>cn_dec := t\<rparr>))"

section \<open>Sending\<close>

definition header_flags :: "byte \<Rightarrow> conn \<Rightarrow> byte" where
  "header_flags kind c =
     (let flags = kind OR Direction c in if eorder (cn_enc c) = BigEndian then flags OR FLAG_BO_BE else flags)"

definition SendCtrl :: "byte \<Rightarrow> 32 word \<Rightarrow> unit conn_act" where
  "SendCtrl messageCommand payloadSize c =
     on_enc (PVAccessHeader_PVEncode \<lparr>Version = cn_Version c, Flags = header_flags FLAG_MSG_CTRL c,
       MessageCommand = messageCommand, PayloadSize = payloadSize, ForceByteOrder = False\<rparr>) c"

text \<open>The payload is encoded into a buffer of its own; the writer is put back on every path.\<close>

definition encodePayload :: "enc \<Rightarrow> (estate, byte list) act" where
  "encodePayload payload s =
     (case payload (s\<lparr>ebuf := []\<rparr>) of
        (Inl e, t) \<Rightarrow> (Inl e, t\<lparr>ebuf := ebuf s\<rparr>)
      | (Inr u, t) \<Rightarrow> (Inr (ebuf t), t\<lparr>ebuf := ebuf s\<rparr>))"

datatype payload = Raw "byte list" | Coded enc

definition SendApp :: "byte \<Rightarrow> payload \<Rightarrow> unit conn_act" where
  "SendApp messageCommand payload =
     bindA (case payload of Raw b \<Rightarrow> retA b | Coded m \<Rightarrow> on_enc (encodePayload m)) (\<lambda>bytes c.
       on_enc (seqA (PVAccessHeader_PVEncode \<lparr>Version = cn_Version c, Flags = header_flags FLAG_MSG_APP c,
           MessageCommand = messageCommand, PayloadSize = word_of_nat (length bytes), ForceByteOrder = False\<rparr>)
         (write_bytes bytes)) c)"

section \<open>Receiving\<close>

definition force_byte_order :: "unit conn_act" where
  "force_byte_order c = (Inr (), c\<lparr>forceByteOrder := True\<rparr>)"

definition handleControlMessage :: "PVAccessHeader \<Rightarrow> unit conn_act" where
  "handleControlMessage header =
     (if MessageCommand header = CTRL_MARK_TOTAL_BYTE_SENT then SendCtrl CTRL_ACK_TOTAL_BYTE_SENT (PayloadSize header)
      else if MessageCommand header = CTRL_ACK_TOTAL_BYTE_SENT then retA ()
      else if MessageCommand header = CTRL_SET_BYTE_ORDER then
        whenA (PayloadSize header = 0) force_byte_order
      else if MessageCommand header = CTRL_ECHO_REQUEST then SendCtrl CTRL_ECHO_RESPONSE (PayloadSize header)
      else retA ())"

definition handleAppEcho :: "PVAccessHeader \<Rightarrow> byte list \<Rightarrow> unit conn_act" where
  "handleAppEcho header data =
     (if sint (Version header) \<ge> 2 then SendApp APP_ECHO (Raw data) else SendApp APP_ECHO (Raw []))"

record Message =
  Header :: PVAccessHeader
  Data :: "byte list"
  msg_reader :: "byte list option"

text \<open>One round of the loop of \<open>Next\<close>: \<open>None\<close> where it continues.\<close>

definition next_round :: "Message option conn_act" where
  "next_round =
     bindA (\<lambda>c. on_dec (PVAccessHeader_PVDecode (zero_header (forceByteOrder c))) c) (\<lambda>header.
       if Flags header AND FLAG_MSG_CTRL = FLAG_MSG_CTRL then
         bindA (handleControlMessage header) (\<lambda>_. retA None)
       else if sint (PayloadSize header) < 0 then failA (Panic MakeSliceLen)
       else bindA (on_dec (read_full (nat (sint (PayloadSize header))))) (\<lambda>data.
         if MessageCommand header = APP_ECHO then bindA (handleAppEcho header data) (\<lambda>_. retA None)
         else retA (Some \<lparr>Header = header, Data = data, msg_reader = None\<rparr>)))"

lemma on_enc_keeps: "on_enc m c = (r, d) \<Longrightarrow> cn_dec d = cn_dec c \<and> forceByteOrder d = forceByteOrder c"
  by (auto simp: on_enc_def split: prod.splits)

lemma on_dec_keeps: "on_dec m c = (r, d) \<Longrightarrow> cn_enc d = cn_enc c \<and> forceByteOrder d = forceByteOrder c"
  by (auto simp: on_dec_def split: prod.splits)

lemma SendCtrl_keeps: "SendCtrl cmd n c = (r, d) \<Longrightarrow> cn_dec d = cn_dec c \<and> forceByteOrder d = forceByteOrder c"
  unfolding SendCtrl_def by (rule on_enc_keeps)

lemma SendApp_keeps: "SendApp cmd p c = (r, d) \<Longrightarrow> cn_dec d = cn_dec c \<and> forceByteOrder d = forceByteOrder c"
  unfolding SendApp_def
  by (cases p) (auto simp: bindA_def retA_def dest!: on_enc_keeps split: prod.splits sum.splits)

lemma handleControlMessage_keeps: "handleControlMessage h c = (r, d) \<Longrightarrow> cn_dec d = cn_dec c"
  by (auto simp: handleControlMessage_def retA_def whenA_def force_byte_order_def dest: SendCtrl_keeps split: if_splits)

lemma handleAppEcho_keeps: "handleAppEcho h data c = (r, d) \<Longrightarrow> cn_dec d = cn_dec c \<and> forceByteOrder d = forceByteOrder c"
  by (auto simp: handleAppEcho_def dest: SendApp_keeps split: if_splits)

text \<open>A header takes at least its magic byte, and keeps a byte order that is forced.\<close>

definition onward :: "'a dec \<Rightarrow> bool" where
  "onward m \<longleftrightarrow> (\<forall>s r t. m s = (r, t) \<longrightarrow> (\<exists>bs. dbuf s = bs @ dbuf t) \<and> ducbs t = ducbs s \<and>
     (dorder s \<noteq> None \<longrightarrow> dorder t \<noteq> None))"

named_theorems onward_rules

lemma onwardD: "onward m \<Longrightarrow> m s = (r, t) \<Longrightarrow> (\<exists>bs. dbuf s = bs @ dbuf t) \<and> ducbs t = ducbs s \<and>
     (dorder s \<noteq> None \<longrightarrow> dorder t \<noteq> None)"
  by (auto simp: onward_def)

lemma onward_forward: "forward k m \<Longrightarrow> onward m"
  by (fastforce simp: onward_def forward_def)

lemma onward_set [onward_rules]: "onward (set_byte_order bo)"
  by (auto simp: onward_def set_byte_order_def)

lemma onward_ret [onward_rules]: "onward (retA x)" "onward (failA e)"
  by (auto simp: onward_def act_simps)

lemma onward_when [onward_rules]: "onward m \<Longrightarrow> onward (whenA b m)"
  by (cases b) (auto simp: onward_def whenA_def)

lemma onward_bind [onward_rules]:
  assumes m: "onward m" and f: "\<And>x. onward (f x)"
  shows "onward (bindA m f)"
  unfolding onward_def
proof (intro allI impI)
  fix s r t assume "bindA m f s = (r, t)"
  then obtain q u where q: "m s = (q, u)" and rest: "case q of Inl e \<Rightarrow> (Inl e, u) = (r, t) | Inr x \<Rightarrow> f x u = (r, t)"
    by (cases "m s") (auto simp: bindA_def split: sum.splits)
  have u: "(\<exists>bs. dbuf s = bs @ dbuf u) \<and> ducbs u = ducbs s \<and> (dorder s \<noteq> None \<longrightarrow> dorder u \<noteq> None)"
    by (rule onwardD [OF m q])
  show "(\<exists>bs. dbuf s = bs @ dbuf t) \<and> ducbs t = ducbs s \<and> (dorder s \<noteq> None \<longrightarrow> dorder t \<noteq> None)"
  proof (cases q)
    case (Inr x)
    then have "f x u = (r, t)" using rest by simp
    from onwardD [OF f this] u show ?thesis by auto
  qed (use rest u in auto)
qed

lemma onward_seq [onward_rules]: "onward m \<Longrightarrow> onward n \<Longrightarrow> onward (seqA m n)"
  using onward_bind [of m "\<lambda>_. n"] by (simp add: seqA_def [abs_def])

lemma onward_numbers [onward_rules]: "onward PVByte_PVDecode" "onward PVUByte_PVDecode" "onward PVInt_PVDecode"
    "onward (read_full n)" "onward read_byte"
proof -
  have "forward False PVByte_PVDecode" by (simp add: PVByte_PVDecode_def forward_rules)
  then show "onward PVByte_PVDecode" by (rule onward_forward)
qed (use forward_numbers forward_read in \<open>blast intro: onward_forward\<close>)+

lemma onward_if [onward_rules]: "onward m \<Longrightarrow> onward n \<Longrightarrow> onward (ifA b m n)"
  by (cases b) (auto simp: onward_def ifA_def)

lemma onward_header: "onward (PVAccessHeader_PVDecode h)"
  unfolding PVAccessHeader_PVDecode_def by (intro onward_rules)

lemma onward_behind_byte:
  assumes "bindA read_byte f s = (Inr x, t)" and f: "\<And>b. onward (f b)"
  shows "length (dbuf t) < length (dbuf s)"
proof -
  from assms(1) obtain b u where b: "read_byte s = (Inr b, u)" and fb: "f b u = (Inr x, t)" by (rule bindA_InrE)
  have "length (dbuf t) \<le> length (dbuf u)" using onwardD [OF f fb] by auto
  with b show ?thesis by (auto simp: read_byte_def split: list.splits)
qed

lemma header_shorter:
  assumes "PVAccessHeader_PVDecode h s = (Inr x, t)"
  shows "length (dbuf t) < length (dbuf s)"
  using assms unfolding PVAccessHeader_PVDecode_def by (rule onward_behind_byte) (intro onward_rules)

lemma next_round_shorter:
  assumes "next_round c = (Inr x, d)"
  shows "length (dbuf (cn_dec d)) < length (dbuf (cn_dec c))"
proof -
  from assms obtain h u where h: "on_dec (PVAccessHeader_PVDecode (zero_header (forceByteOrder c))) c = (Inr h, u)"
    and rest: "(if Flags h AND FLAG_MSG_CTRL = FLAG_MSG_CTRL then bindA (handleControlMessage h) (\<lambda>_. retA None)
       else if sint (PayloadSize h) < 0 then failA (Panic MakeSliceLen)
       else bindA (on_dec (read_full (nat (sint (PayloadSize h))))) (\<lambda>data.
         if MessageCommand h = APP_ECHO then bindA (handleAppEcho h data) (\<lambda>_. retA None)
         else retA (Some \<lparr>Header = h, Data = data, msg_reader = None\<rparr>))) u = (Inr x, d)"
    unfolding next_round_def by (rule bindA_InrE)
  have "length (dbuf (cn_dec u)) < length (dbuf (cn_dec c))"
    using h by (auto simp: on_dec_def dest: header_shorter split: prod.splits)
  moreover have "length (dbuf (cn_dec d)) \<le> length (dbuf (cn_dec u))"
    using rest
    by (auto simp: on_dec_def retA_def failA_def read_full_def split: if_splits elim!: bindA_InrE
        dest!: handleControlMessage_keeps handleAppEcho_keeps)
  ultimately show ?thesis by simp
qed

text \<open>The loop ends because every round takes a header from the input.\<close>

function Next :: "Message conn_act" where
  "Next c = (case next_round c of
       (Inl e, d) \<Rightarrow> (Inl e, d)
     | (Inr None, d) \<Rightarrow> Next d
     | (Inr (Some msg), d) \<Rightarrow> (Inr msg, d))"
  by pat_completeness auto
termination
  by (relation "measure (\<lambda>c. length (dbuf (cn_dec c)))") (auto dest: next_round_shorter [OF sym])

declare Next.simps [simp del]

text \<open>
  \<open>Message.Decode\<close>: the connection's decoder, over the data of the message; a second call goes on
  where the first has stopped.
\<close>

definition Message_Decode :: "'a dec \<Rightarrow> (conn \<times> Message, 'a) act" where
  "Message_Decode m s = (case s of (c, msg) \<Rightarrow>
     let input = (case msg_reader msg of None \<Rightarrow> Data msg | Some bs \<Rightarrow> bs) in
     case m ((cn_dec c)\<lparr>dbuf := input\<rparr>) of
       (r, t) \<Rightarrow> (r, (c\<lparr>cn_dec := t\<lparr>dbuf := dbuf (cn_dec c)\<rparr>\<rparr>, msg\<lparr>msg_reader := Some (dbuf t)\<rparr>)))"

section \<open>Byte order and errors\<close>

definition conn_ok :: "conn \<Rightarrow> bool" where
  "conn_ok c \<longleftrightarrow> (forceByteOrder c \<longrightarrow> dorder (cn_dec c) \<noteq> None)"

definition read_errors :: "gerr set" where
  "read_errors = {EOF, UnexpectedEOF, Panic MakeSliceLen} \<union> range BadMagic"

lemma header_order:
  assumes "PVAccessHeader_PVDecode h s = (r, t)"
  shows "(ForceByteOrder h \<longrightarrow> dorder t = dorder s) \<and>
    (case r of Inl e \<Rightarrow> e \<in> read_errors \<or> ForceByteOrder h \<and> dorder s = None | Inr x \<Rightarrow> dorder t \<noteq> None)"
  using assms
  by (auto simp: PVAccessHeader_PVDecode_def scalar_dec_defs ReadUint32_def read_uint_def read_byte_def read_full_def bindA_def
      seqA_def ifA_def whenA_def set_byte_order_def retA_def failA_def read_errors_def
      split: if_splits list.splits option.splits prod.splits sum.splits)

lemma writes_never_fail:
  "PVAccessHeader_PVEncode h s = (Inr (), emit ([MAGIC, Version h, Flags h, MessageCommand h] @ put_uint (eorder s) 4 (PayloadSize h)) s)"
  "\<exists>d. SendCtrl cmd n c = (Inr (), d)" "\<exists>d. SendApp cmd (Raw bs) c = (Inr (), d)"
proof -
  show enc: "PVAccessHeader_PVEncode h s =
      (Inr (), emit ([MAGIC, Version h, Flags h, MessageCommand h] @ put_uint (eorder s) 4 (PayloadSize h)) s)" for h s
    by (simp add: PVAccessHeader_PVEncode_def scalar_enc_defs act_simps)
  show "\<exists>d. SendCtrl cmd n c = (Inr (), d)"
    by (simp add: SendCtrl_def on_enc_def enc)
  show "\<exists>d. SendApp cmd (Raw bs) c = (Inr (), d)"
    by (simp add: SendApp_def on_enc_def enc act_simps write_bytes_def)
qed

lemma handlers_never_fail:
  "\<exists>d. handleControlMessage h c = (Inr (), d) \<and> (forceByteOrder c \<longrightarrow> forceByteOrder d)"
  "\<exists>d. handleAppEcho h bs c = (Inr (), d)"
  using writes_never_fail(2,3) SendCtrl_keeps
  by (auto simp: handleControlMessage_def handleAppEcho_def retA_def whenA_def force_byte_order_def) metis+

lemma next_round_order:
  assumes "next_round c = (r, d)" and "conn_ok c"
  shows "conn_ok d \<and> (forceByteOrder c \<longrightarrow> forceByteOrder d \<and> dorder (cn_dec d) = dorder (cn_dec c)) \<and>
    (case r of Inl e \<Rightarrow> e \<in> read_errors | Inr x \<Rightarrow> dorder (cn_dec d) \<noteq> None)"
proof -
  let ?h = "PVAccessHeader_PVDecode (zero_header (forceByteOrder c)) (cn_dec c)"
  obtain q s where q: "?h = (q, s)" by (cases ?h)
  note order = header_order [OF q]
  let ?u = "c\<lparr>cn_dec := s\<rparr>"
  show ?thesis
  proof (cases q)
    case (Inl e)
    then have "r = Inl e" "d = ?u" using assms(1) q by (simp_all add: next_round_def bindA_def on_dec_def)
    with order Inl assms(2) show ?thesis by (auto simp: conn_ok_def zero_header_def)
  next
    case (Inr h)
    then have rest: "(if Flags h AND FLAG_MSG_CTRL = FLAG_MSG_CTRL then bindA (handleControlMessage h) (\<lambda>_. retA None)
       else if sint (PayloadSize h) < 0 then failA (Panic MakeSliceLen)
       else bindA (on_dec (read_full (nat (sint (PayloadSize h))))) (\<lambda>data.
         if MessageCommand h = APP_ECHO then bindA (handleAppEcho h data) (\<lambda>_. retA None)
         else retA (Some \<lparr>Header = h, Data = data, msg_reader = None\<rparr>))) ?u = (r, d)"
      using assms(1) q by (simp add: next_round_def bindA_def on_dec_def)
    have s: "dorder s \<noteq> None" "forceByteOrder c \<longrightarrow> dorder s = dorder (cn_dec c)"
      using order Inr by (simp_all add: zero_header_def)
    show ?thesis
    proof (cases "Flags h AND FLAG_MSG_CTRL = FLAG_MSG_CTRL")
      case True
      obtain e where e: "handleControlMessage h ?u = (Inr (), e)" "forceByteOrder c \<longrightarrow> forceByteOrder e"
        using handlers_never_fail(1) [of h ?u] by auto
      with True rest have "r = Inr None" "d = e" by (simp_all add: bindA_def retA_def)
      with e s handleControlMessage_keeps [OF e(1)] show ?thesis by (simp add: conn_ok_def)
    next
      case False
      show ?thesis
      proof (cases "sint (PayloadSize h) < 0")
        case True
        with False rest s show ?thesis by (auto simp: failA_def conn_ok_def read_errors_def)
      next
        case nonneg: False
        obtain q' s' where q': "read_full (nat (sint (PayloadSize h))) s = (q', s')" by fastforce
        have s': "dorder s' = dorder s" "\<And>e. q' = Inl e \<Longrightarrow> e \<in> read_errors"
          using q' by (auto simp: read_full_def read_errors_def split: if_splits)
        show ?thesis
        proof (cases q')
          case (Inl e)
          with False nonneg rest q' s s' show ?thesis by (auto simp: bindA_def on_dec_def conn_ok_def)
        next
          case (Inr data)
          obtain e where e: "handleAppEcho h data (c\<lparr>cn_dec := s'\<rparr>) = (Inr (), e)"
            using handlers_never_fail(2) by blast
          with False nonneg rest q' s s' Inr handleAppEcho_keeps [OF e] show ?thesis
            by (auto simp: bindA_def on_dec_def conn_ok_def retA_def simp del: not_None_eq split: if_splits)
        qed
      qed
    qed
  qed
qed

lemma Next_order:
  assumes "Next c = (r, d)" and "conn_ok c"
  shows "conn_ok d \<and> (forceByteOrder c \<longrightarrow> forceByteOrder d \<and> dorder (cn_dec d) = dorder (cn_dec c)) \<and>
    (case r of Inl e \<Rightarrow> e \<in> read_errors | Inr msg \<Rightarrow> dorder (cn_dec d) \<noteq> None)"
  using assms
proof (induction c arbitrary: r d rule: Next.induct)
  case (1 c)
  obtain q u where q: "next_round c = (q, u)" by fastforce
  note round = next_round_order [OF q 1(3)]
  show ?case
  proof (cases "q = Inr None")
    case True
    then have "Next u = (r, d)" using 1(2) q by (simp add: Next.simps [of c])
    with 1(1) [OF q [symmetric], of None] True round show ?thesis by (auto split: sum.splits)
  next
    case False
    then show ?thesis using 1(2) q round by (auto simp: Next.simps [of c] split: sum.splits option.splits)
  qed
qed

section \<open>Frames\<close>

definition frame :: "byte_order \<Rightarrow> byte \<Rightarrow> byte \<Rightarrow> byte \<Rightarrow> byte list \<Rightarrow> byte list" where
  "frame bo version flags cmd data = [MAGIC, version, flags, cmd] @ put_uint bo 4 (word_of_nat (length data) :: 32 word) @ data"

definition ctrl_frame :: "byte_order \<Rightarrow> byte \<Rightarrow> byte \<Rightarrow> byte \<Rightarrow> 32 word \<Rightarrow> byte list" where
  "ctrl_frame bo version flags cmd n = [MAGIC, version, flags, cmd] @ put_uint bo 4 n"

lemma SendApp_Raw:
  "SendApp cmd (Raw data) c = (Inr (), c\<lparr>cn_enc :=
     emit (frame (eorder (cn_enc c)) (cn_Version c) (header_flags FLAG_MSG_APP c) cmd data) (cn_enc c)\<rparr>)"
  by (simp add: SendApp_def on_enc_def act_simps writes_never_fail(1) write_bytes_def frame_def)

lemma SendCtrl_frame:
  "SendCtrl cmd n c = (Inr (), c\<lparr>cn_enc :=
     emit (ctrl_frame (eorder (cn_enc c)) (cn_Version c) (header_flags FLAG_MSG_CTRL c) cmd n) (cn_enc c)\<rparr>)"
  by (simp add: SendCtrl_def on_enc_def writes_never_fail(1) ctrl_frame_def)

text \<open>The header's flags announce the byte order, unless the receiver has it fixed already.\<close>

definition agree :: "conn \<Rightarrow> byte_order \<Rightarrow> byte \<Rightarrow> bool" where
  "agree c bo flags \<longleftrightarrow> (if forceByteOrder c then dorder (cn_dec c) = Some bo
     else (flags AND FLAG_BO_BE = FLAG_BO_BE) = (bo = BigEndian))"

lemma header_dec:
  assumes "dbuf (cn_dec c) = [MAGIC, v, flags, cmd] @ put_uint bo 4 n @ rest" and "agree c bo flags"
  shows "on_dec (PVAccessHeader_PVDecode (zero_header (forceByteOrder c))) c =
     (Inr \<lparr>Version = v, Flags = flags, MessageCommand = cmd, PayloadSize = n, ForceByteOrder = forceByteOrder c\<rparr>,
      c\<lparr>cn_dec := (cn_dec c)\<lparr>dbuf := rest, dorder := Some bo\<rparr>\<rparr>)"
proof (cases "forceByteOrder c")
  case True
  then have "dorder (cn_dec c) = Some bo" using assms(2) by (simp add: agree_def)
  moreover from this have "(cn_dec c)\<lparr>dorder := Some bo\<rparr> = cn_dec c" by simp
  ultimately show ?thesis
    using assms(1) True by (simp add: on_dec_def PVAccessHeader_PVDecode_def zero_header_def act_simps scalar_dec_defs ReadUint_put)
next
  case False
  then have "(if flags AND 0x80 = 0x80 then BigEndian else LittleEndian) = bo"
    using assms(2) by (cases bo) (auto simp: agree_def)
  then show ?thesis
    using assms(1) False
    by (simp add: on_dec_def PVAccessHeader_PVDecode_def zero_header_def act_simps scalar_dec_defs ReadUint_put set_byte_order_def)
qed

lemma next_round_frame:
  assumes "dbuf (cn_dec c) = frame bo v flags cmd data @ rest" and "agree c bo flags"
    and "flags AND FLAG_MSG_CTRL \<noteq> FLAG_MSG_CTRL" and "cmd \<noteq> APP_ECHO" and "length data < 2 ^ 31"
  shows "next_round c = (Inr (Some \<lparr>Header = \<lparr>Version = v, Flags = flags, MessageCommand = cmd,
       PayloadSize = word_of_nat (length data), ForceByteOrder = forceByteOrder c\<rparr>, Data = data, msg_reader = None\<rparr>),
     c\<lparr>cn_dec := (cn_dec c)\<lparr>dbuf := rest, dorder := Some bo\<rparr>\<rparr>)"
proof -
  have n: "sint (word_of_nat (length data) :: 32 word) = int (length data)"
    using assms(5) by (simp add: signed_of_nat signed_take_bit_int_eq_self)
  have "dbuf (cn_dec c) = [MAGIC, v, flags, cmd] @ put_uint bo 4 (word_of_nat (length data) :: 32 word) @ data @ rest"
    using assms(1) by (simp add: frame_def)
  from header_dec [OF this assms(2)] show ?thesis
    using assms(3,4) by (simp add: next_round_def bindA_def n on_dec_def read_full_def retA_def)
qed

lemma Next_frame:
  assumes "dbuf (cn_dec c) = frame bo v flags cmd data @ rest" and "agree c bo flags"
    and "flags AND FLAG_MSG_CTRL \<noteq> FLAG_MSG_CTRL" and "cmd \<noteq> APP_ECHO" and "length data < 2 ^ 31"
  shows "Next c = (Inr \<lparr>Header = \<lparr>Version = v, Flags = flags, MessageCommand = cmd, PayloadSize = word_of_nat (length data),
       ForceByteOrder = forceByteOrder c\<rparr>, Data = data, msg_reader = None\<rparr>,
     c\<lparr>cn_dec := (cn_dec c)\<lparr>dbuf := rest, dorder := Some bo\<rparr>\<rparr>)"
  by (simp add: Next.simps [of c] next_round_frame [OF assms])

lemma Next_ctrl:
  assumes "dbuf (cn_dec c) = ctrl_frame bo v flags cmd n @ rest" and "agree c bo flags"
    and "flags AND FLAG_MSG_CTRL = FLAG_MSG_CTRL"
  shows "Next c = Next (snd (handleControlMessage
      \<lparr>Version = v, Flags = flags, MessageCommand = cmd, PayloadSize = n, ForceByteOrder = forceByteOrder c\<rparr>
      (c\<lparr>cn_dec := (cn_dec c)\<lparr>dbuf := rest, dorder := Some bo\<rparr>\<rparr>)))"
proof -
  let ?h = "\<lparr>Version = v, Flags = flags, MessageCommand = cmd, PayloadSize = n, ForceByteOrder = forceByteOrder c\<rparr>"
  let ?u = "c\<lparr>cn_dec := (cn_dec c)\<lparr>dbuf := rest, dorder := Some bo\<rparr>\<rparr>"
  have "dbuf (cn_dec c) = [MAGIC, v, flags, cmd] @ put_uint bo 4 n @ rest" using assms(1) by (simp add: ctrl_frame_def)
  note head = header_dec [OF this assms(2)]
  obtain d where "handleControlMessage ?h ?u = (Inr (), d)" using handlers_never_fail(1) by blast
  then have "next_round c = (Inr None, d)" "snd (handleControlMessage ?h ?u) = d"
    using assms(3) head by (simp_all add: next_round_def bindA_def retA_def)
  then show ?thesis by (simp add: Next.simps [of c])
qed

section \<open>Streams of messages\<close>

fun send_all :: "(byte \<times> byte list) list \<Rightarrow> unit conn_act" where
  "send_all [] c = (Inr (), c)"
| "send_all (m # ms) c = seqA (SendApp (fst m) (Raw (snd m))) (send_all ms) c"

fun receive_all :: "nat \<Rightarrow> (byte \<times> byte list) list conn_act" where
  "receive_all 0 c = (Inr [], c)"
| "receive_all (Suc n) c = bindA Next (\<lambda>msg. bindA (receive_all n) (\<lambda>ms.
     retA ((MessageCommand (Header msg), Data msg) # ms))) c"

definition app_stream :: "byte_order \<Rightarrow> byte \<Rightarrow> byte \<Rightarrow> (byte \<times> byte list) list \<Rightarrow> byte list" where
  "app_stream bo v flags ms = concat (map (\<lambda>m. frame bo v flags (fst m) (snd m)) ms)"

lemma send_all_stream:
  "send_all ms c = (Inr (), c\<lparr>cn_enc :=
     emit (app_stream (eorder (cn_enc c)) (cn_Version c) (header_flags FLAG_MSG_APP c) ms) (cn_enc c)\<rparr>)"
proof (induction ms arbitrary: c)
  case (Cons m ms)
  have "header_flags k (c\<lparr>cn_enc := emit bs (cn_enc c)\<rparr>) = header_flags k c" for k bs
    by (simp add: header_flags_def)
  then show ?case by (simp add: seqA_def bindA_def SendApp_Raw Cons app_stream_def)
qed (simp add: app_stream_def)

lemma receive_all_stream:
  assumes "list_all (\<lambda>m. fst m \<noteq> APP_ECHO \<and> length (snd m) < 2 ^ 31) ms" and "flags AND FLAG_MSG_CTRL \<noteq> FLAG_MSG_CTRL"
    and "agree c bo flags" and "dbuf (cn_dec c) = app_stream bo v flags ms @ rest"
  shows "\<exists>order. receive_all (length ms) c = (Inr ms, c\<lparr>cn_dec := (cn_dec c)\<lparr>dbuf := rest, dorder := order\<rparr>\<rparr>)"
  using assms
proof (induction ms arbitrary: c)
  case Nil
  then have "c = c\<lparr>cn_dec := (cn_dec c)\<lparr>dbuf := rest, dorder := dorder (cn_dec c)\<rparr>\<rparr>" by (simp add: app_stream_def)
  then show ?case by (intro exI [of _ "dorder (cn_dec c)"]) simp
next
  case (Cons m ms)
  let ?rest = "app_stream bo v flags ms @ rest"
  let ?d = "c\<lparr>cn_dec := (cn_dec c)\<lparr>dbuf := ?rest, dorder := Some bo\<rparr>\<rparr>"
  have "dbuf (cn_dec c) = frame bo v flags (fst m) (snd m) @ ?rest"
    using Cons.prems(4) by (simp add: app_stream_def)
  from Next_frame [OF this Cons.prems(3,2)] Cons.prems(1)
  obtain msg where msg: "Next c = (Inr msg, ?d)" "MessageCommand (Header msg) = fst m" "Data msg = snd m" by auto
  have "agree ?d bo flags" using Cons.prems(3) by (simp add: agree_def)
  then obtain order where "receive_all (length ms) ?d = (Inr ms, ?d\<lparr>cn_dec := (cn_dec ?d)\<lparr>dbuf := rest, dorder := order\<rparr>\<rparr>)"
    using Cons.IH [of ?d] Cons.prems(1,2) by auto
  then show ?case by (auto simp: bindA_def msg retA_def)
qed

lemma SendApp_Coded:
  assumes "m (encoder LittleEndian) = (Inr (), e)" and "cn_enc c = (encoder LittleEndian)\<lparr>ebuf := out\<rparr>"
    and "eorder e = LittleEndian"
  shows "\<exists>d. SendApp cmd (Coded m) c = (Inr (), d) \<and>
     ebuf (cn_enc d) = out @ frame LittleEndian (cn_Version c) (FLAG_MSG_APP OR Direction c) cmd (ebuf e)"
proof -
  have "encodePayload m (cn_enc c) = (Inr (ebuf e), e\<lparr>ebuf := out\<rparr>)"
    using assms(1,2) by (simp add: encodePayload_def encoder_def)
  then show ?thesis
    using assms(3) by (simp add: SendApp_def on_enc_def act_simps writes_never_fail(1) write_bytes_def frame_def header_flags_def)
qed

text \<open>
  The payload of a message struct, which does not depend on what the connection has coded before, and
  a connection that has sent a frame.
\<close>

definition encoding :: "byte_order \<Rightarrow> gval \<Rightarrow> gerr + byte list" where
  "encoding bo g = (case encode_struct g (encoder bo) of (Inl e, t) \<Rightarrow> Inl e | (Inr u, t) \<Rightarrow> Inr (ebuf t))"

definition app_frame :: "conn \<Rightarrow> byte \<Rightarrow> byte list \<Rightarrow> byte list" where
  "app_frame c cmd bs = frame (eorder (cn_enc c)) (cn_Version c) (header_flags FLAG_MSG_APP c) cmd bs"

definition wrote :: "byte list \<Rightarrow> conn \<Rightarrow> conn \<Rightarrow> bool" where
  "wrote bs c d \<longleftrightarrow> (\<exists>s. d = c\<lparr>cn_enc := s\<rparr> \<and> eorder s = eorder (cn_enc c) \<and> ebuf s = ebuf (cn_enc c) @ bs)"

lemma wroteD:
  assumes "wrote bs c d"
  shows "cn_dec d = cn_dec c" "forceByteOrder d = forceByteOrder c" "cn_Version d = cn_Version c" "Direction d = Direction c"
    "eorder (cn_enc d) = eorder (cn_enc c)" "ebuf (cn_enc d) = ebuf (cn_enc c) @ bs" "app_frame d = app_frame c"
  using assms by (auto simp: wrote_def app_frame_def header_flags_def fun_eq_iff)

lemma SendApp_wrote:
  "case encoding (eorder (cn_enc c)) g of
     Inr bs \<Rightarrow> \<exists>d. SendApp cmd (Coded (encode_struct g)) c = (Inr (), d) \<and> wrote (app_frame c cmd bs) c d
   | Inl e \<Rightarrow> \<exists>d. SendApp cmd (Coded (encode_struct g)) c = (Inl e, d) \<and> wrote [] c d"
proof -
  let ?s = "(cn_enc c)\<lparr>ebuf := []\<rparr>" and ?s' = "encoder (eorder (cn_enc c))"
  obtain r bs t t' where "encode_struct g ?s = (r, t)" "encode_struct g ?s' = (r, t')" "ebuf t = ebuf ?s @ bs"
      "ebuf t' = ebuf ?s' @ bs" "eorder t = eorder ?s"
    unfolding encode_struct_def by (rule uniformE [OF uniform_enc(4), of ?s ?s' "Some (GPtr g)"]) simp_all
  note coded = this
  show ?thesis
  proof (cases r)
    case (Inl e)
    let ?d = "c\<lparr>cn_enc := t\<lparr>ebuf := ebuf (cn_enc c)\<rparr>\<rparr>"
    have "SendApp cmd (Coded (encode_struct g)) c = (Inl e, ?d)"
      using coded(1) Inl by (simp add: SendApp_def encodePayload_def on_enc_def bindA_def)
    moreover have "wrote [] c ?d" using coded(5) by (auto simp: wrote_def)
    ultimately show ?thesis using coded(2) Inl by (auto simp: encoding_def)
  next
    case (Inr u)
    let ?t = "t\<lparr>ebuf := ebuf (cn_enc c)\<rparr>"
    let ?d = "c\<lparr>cn_enc := emit (app_frame c cmd bs) ?t\<rparr>"
    have "SendApp cmd (Coded (encode_struct g)) c = (Inr (), ?d)"
      using coded(1,3,5) Inr
      by (simp add: SendApp_def encodePayload_def on_enc_def act_simps writes_never_fail(1) write_bytes_def frame_def
          app_frame_def header_flags_def)
    moreover have "wrote (app_frame c cmd bs) c ?d" using coded(5) by (auto simp: wrote_def)
    ultimately show ?thesis using coded(2,4) Inr by (auto simp: encoding_def)
  qed
qed

lemma SendApp_encoding:
  assumes "encoding (eorder (cn_enc c)) g = Inr bs"
  shows "\<exists>d. SendApp cmd (Coded (encode_struct g)) c = (Inr (), d) \<and> wrote (app_frame c cmd bs) c d"
  using SendApp_wrote [where c = c and g = g and cmd = cmd] assms by simp

lemma and_0x81_parts: "w AND 0x81 = (0 :: byte) \<Longrightarrow> w AND 0x80 \<noteq> 0x80 \<and> w AND 1 \<noteq> 1"
proof -
  assume z: "w AND 0x81 = (0 :: byte)"
  have "(w AND 0x81) AND 0x80 = w AND 0x80" "(w AND 0x81) AND 1 = w AND 1" by (simp_all add: and.assoc)
  with z show ?thesis by auto
qed

section \<open>Properties\<close>

text \<open>C14: Messages sent on one connection, of any sizes, come out of the other in the same order with
  the same commands and bytes, and then the stream is at its end.\<close>

theorem stream_framing:
  assumes "list_all (\<lambda>m. fst m \<noteq> APP_ECHO \<and> length (snd m) < 2 ^ 31) ms"
    and "dir = FLAG_FROM_CLIENT \<or> dir = FLAG_FROM_SERVER"
  shows "\<exists>c r. send_all ms (New dir input) = (Inr (), c) \<and>
     receive_all (length ms) (New peer (ebuf (cn_enc c))) = (Inr ms, r) \<and> fst (Next r) = Inl EOF"
proof -
  let ?c = "New dir input"
  have flags: "header_flags FLAG_MSG_APP ?c = dir" by (simp add: header_flags_def New_def)
  obtain c where c: "send_all ms ?c = (Inr (), c)" "ebuf (cn_enc c) = app_stream LittleEndian 0 dir ms"
    using send_all_stream [of ms ?c] flags by (simp add: New_def)
  let ?r = "New peer (app_stream LittleEndian 0 dir ms)"
  have "agree ?r LittleEndian dir" "dir AND FLAG_MSG_CTRL \<noteq> FLAG_MSG_CTRL"
    using assms(2) by (auto simp: agree_def New_def)
  from receive_all_stream [OF assms(1) this(2,1), where rest = "[]" and v = 0]
  obtain r where r: "receive_all (length ms) ?r = (Inr ms, r)" "dbuf (cn_dec r) = []"
    by (auto simp: New_def)
  have "next_round r = (Inl EOF, r)"
    using r(2) by (simp add: next_round_def bindA_def on_dec_def PVAccessHeader_PVDecode_def read_byte_def)
  then have "fst (Next r) = Inl EOF" by (simp add: Next.simps [of r])
  with c r(1) show ?thesis by auto
qed

theorem stream_framing_witness:
  "\<exists>c r. send_all [(1, [10, 20]), (7, []), (0x14, [5])] (New 0x40 []) = (Inr (), c) \<and>
     receive_all (length [(1 :: byte, [10 :: byte, 20]), (7, []), (0x14, [5])]) (New 0 (ebuf (cn_enc c))) =
       (Inr [(1, [10, 20]), (7, []), (0x14, [5])], r) \<and> fst (Next r) = Inl EOF"
  by (rule stream_framing) simp_all

text \<open>C15: A message coded on one side and decoded on the other arrives whole: encoding, framing,
  \<open>Next\<close> and \<open>Message.Decode\<close> compose.\<close>

theorem send_receive_decode:
  assumes "codes m d x" and "m (encoder LittleEndian) = (Inr (), e)" and "eorder e = LittleEndian"
    and "length (ebuf e) < 2 ^ 31" and "cmd \<noteq> APP_ECHO" and "dir = FLAG_FROM_CLIENT \<or> dir = FLAG_FROM_SERVER"
  shows "\<exists>c msg r. SendApp cmd (Coded m) (New dir input) = (Inr (), c) \<and> Next (New peer (ebuf (cn_enc c))) = (Inr msg, r) \<and>
     MessageCommand (Header msg) = cmd \<and> fst (Message_Decode d (r, msg)) = Inr x"
proof -
  have "cn_enc (New dir input) = (encoder LittleEndian)\<lparr>ebuf := []\<rparr>" by (simp add: New_def encoder_def)
  from SendApp_Coded [where m = m, OF assms(2) this assms(3)]
  obtain c where c: "SendApp cmd (Coded m) (New dir input) = (Inr (), c)" "ebuf (cn_enc c) = frame LittleEndian 0 dir cmd (ebuf e)"
    by (auto simp: New_def)
  let ?r = "New peer (frame LittleEndian 0 dir cmd (ebuf e))"
  have "agree ?r LittleEndian dir" "dir AND FLAG_MSG_CTRL \<noteq> FLAG_MSG_CTRL"
    using assms(6) by (auto simp: agree_def New_def)
  with Next_frame [of ?r LittleEndian 0 dir cmd "ebuf e" "[]"] assms(4,5)
  obtain msg where msg: "Next ?r = (Inr msg, ?r\<lparr>cn_dec := (cn_dec ?r)\<lparr>dbuf := [], dorder := Some LittleEndian\<rparr>\<rparr>)"
    "MessageCommand (Header msg) = cmd" "Data msg = ebuf e" "msg_reader msg = None" by (auto simp: New_def)
  obtain e' where "m (encoder LittleEndian) = (Inr (), e')"
    "d (decoder LittleEndian (ebuf e' @ [])) = (Inr x, decoder LittleEndian [])"
    using assms(1) unfolding codes_def by blast
  then have "d (decoder LittleEndian (ebuf e)) = (Inr x, decoder LittleEndian [])" using assms(2) by simp
  then have "fst (Message_Decode d (?r\<lparr>cn_dec := (cn_dec ?r)\<lparr>dbuf := [], dorder := Some LittleEndian\<rparr>\<rparr>, msg)) = Inr x"
    using msg(3,4) by (simp add: Message_Decode_def New_def decoder_def)
  with c msg(1,2) show ?thesis by auto
qed

theorem send_receive_decode_witness:
  "\<exists>c msg r. SendApp APP_CHANNEL_DESTROY (Coded (encode_struct (DestroyChannel_gval \<lparr>dc_ServerChannelID = 1, dc_ClientChannelID = 1\<rparr>)))
       (New 0 []) = (Inr (), c) \<and> Next (New 0x40 (ebuf (cn_enc c))) = (Inr msg, r) \<and>
     MessageCommand (Header msg) = APP_CHANNEL_DESTROY \<and>
     fst (Message_Decode Decode_DestroyChannel (r, msg)) = Inr \<lparr>dc_ServerChannelID = 1, dc_ClientChannelID = 1\<rparr>"
proof (rule send_receive_decode)
  show "codes (encode_struct (DestroyChannel_gval \<lparr>dc_ServerChannelID = 1, dc_ClientChannelID = 1\<rparr>)) Decode_DestroyChannel
      \<lparr>dc_ServerChannelID = 1, dc_ClientChannelID = 1\<rparr>"
    unfolding Decode_DestroyChannel_def by (rule destroy_channel.roundtrip) simp
  show "encode_struct (DestroyChannel_gval \<lparr>dc_ServerChannelID = 1, dc_ClientChannelID = 1\<rparr>) (encoder LittleEndian) =
      (Inr (), emit (put_uint LittleEndian 4 (1 :: 32 word) @ put_uint LittleEndian 4 (1 :: 32 word)) (encoder LittleEndian))"
    by (simp add: encode_struct_fields DestroyChannel_gval_def act_simps enc_field_plain record_changed_def scalar_enc_defs)
qed simp_all

text \<open>C16: However the input looks, \<open>Next\<close> ends with a message or with one of four errors, and it keeps
  the byte order: a forced one never changes again, and a message is only returned with one set.\<close>

theorem Next_byte_order:
  assumes "forceByteOrder c \<Longrightarrow> dorder (cn_dec c) \<noteq> None" and "Next c = (r, d)"
  shows "(forceByteOrder c \<longrightarrow> forceByteOrder d \<and> dorder (cn_dec d) = dorder (cn_dec c)) \<and>
    (forceByteOrder d \<longrightarrow> dorder (cn_dec d) \<noteq> None) \<and>
    (case r of Inl e \<Rightarrow> e \<in> {EOF, UnexpectedEOF, Panic MakeSliceLen} \<union> range BadMagic | Inr msg \<Rightarrow> dorder (cn_dec d) \<noteq> None)"
  using Next_order [OF assms(2)] assms(1) unfolding conn_ok_def read_errors_def by blast

theorem Next_byte_order_witness:
  "let c = New 0 [0xCB]; d = New 0 []; r = Inl (BadMagic 0xCB) :: gerr + Message in
    (forceByteOrder c \<longrightarrow> forceByteOrder d \<and> dorder (cn_dec d) = dorder (cn_dec c)) \<and>
    (forceByteOrder d \<longrightarrow> dorder (cn_dec d) \<noteq> None) \<and>
    (case r of Inl e \<Rightarrow> e \<in> {EOF, UnexpectedEOF, Panic MakeSliceLen} \<union> range BadMagic | Inr msg \<Rightarrow> dorder (cn_dec d) \<noteq> None)"
  unfolding Let_def
proof (rule Next_byte_order)
  show "Next (New 0 [0xCB]) = (Inl (BadMagic 0xCB), New 0 [])"
    by (simp add: Next.simps next_round_def bindA_def on_dec_def PVAccessHeader_PVDecode_def read_byte_def New_def ifA_def failA_def)
qed (simp add: New_def)

text \<open>An echo request of the control kind is answered with its own number and skipped, and a request
  to set the byte order fixes the order that its own header has announced.\<close>

theorem Next_control:
  assumes "dbuf (cn_dec c) = ctrl_frame bo v flags cmd n @ rest" and "flags AND FLAG_MSG_CTRL = FLAG_MSG_CTRL"
    and "\<not> forceByteOrder c" and "(flags AND FLAG_BO_BE = FLAG_BO_BE) = (bo = BigEndian)"
  shows "(cmd = CTRL_ECHO_REQUEST \<longrightarrow> Next c = Next (c\<lparr>cn_dec := (cn_dec c)\<lparr>dbuf := rest, dorder := Some bo\<rparr>,
      cn_enc := emit (ctrl_frame (eorder (cn_enc c)) (cn_Version c) (header_flags FLAG_MSG_CTRL c) CTRL_ECHO_RESPONSE n) (cn_enc c)\<rparr>)) \<and>
    (cmd = CTRL_SET_BYTE_ORDER \<and> n = 0 \<longrightarrow>
      Next c = Next (c\<lparr>cn_dec := (cn_dec c)\<lparr>dbuf := rest, dorder := Some bo\<rparr>, forceByteOrder := True\<rparr>))"
proof -
  have "agree c bo flags" using assms(3,4) by (simp add: agree_def)
  from Next_ctrl [OF assms(1) this assms(2)] show ?thesis
    by (auto simp: handleControlMessage_def SendCtrl_frame header_flags_def force_byte_order_def whenA_def)
qed

theorem Next_control_witness:
  "Next (New 0 (ctrl_frame LittleEndian 2 0x41 CTRL_SET_BYTE_ORDER 0 @ [])) =
     Next ((New 0 [])\<lparr>cn_dec := (cn_dec (New 0 []))\<lparr>dorder := Some LittleEndian\<rparr>, forceByteOrder := True\<rparr>)"
proof -
  let ?c = "New 0 (ctrl_frame LittleEndian 2 0x41 CTRL_SET_BYTE_ORDER 0 @ [])"
  have "dbuf (cn_dec ?c) = ctrl_frame LittleEndian 2 0x41 CTRL_SET_BYTE_ORDER 0 @ []" by (simp add: New_def)
  from Next_control [OF this] show ?thesis by (simp add: New_def)
qed

text \<open>A negative payload size in a header makes \<open>Next\<close> panic.\<close>

theorem Next_negative_size_panics:
  assumes "dbuf (cn_dec c) = ctrl_frame LittleEndian v flags cmd n @ rest" and "flags AND 0x81 = 0" and "\<not> forceByteOrder c"
    and "sint n < 0"
  shows "fst (Next c) = Inl (Panic MakeSliceLen)"
proof -
  have bits: "flags AND FLAG_BO_BE \<noteq> FLAG_BO_BE" "flags AND FLAG_MSG_CTRL \<noteq> FLAG_MSG_CTRL"
    using assms(2) by (auto dest: and_0x81_parts)
  then have "agree c LittleEndian flags" using assms(3) by (simp add: agree_def)
  with header_dec [of c v flags cmd LittleEndian n rest] assms(1)
  have "fst (next_round c) = Inl (Panic MakeSliceLen)"
    using bits assms(4) by (simp add: next_round_def bindA_def ctrl_frame_def failA_def)
  then show ?thesis by (cases "next_round c") (simp add: Next.simps [of c])
qed

theorem Next_negative_size_panics_witness:
  "fst (Next (New 0 (ctrl_frame LittleEndian 2 0x40 7 (-1) @ []))) = Inl (Panic MakeSliceLen)"
  by (rule Next_negative_size_panics [where v = 2 and flags = "0x40" and cmd = 7 and n = "-1" and rest = "[]"])
    (simp_all add: New_def)

end
