(* ===== verification/PV_Search.thy ===== *)
theory PV_Search
  imports PV_Conn
begin

text \<open>
  The channel providers of a server (types/types.go) and the answer to a search request
  (internal/search/search.go).
\<close>

section \<open>Providers\<close>

text \<open>
  A provider of the application: what it answers to \<open>CreateChannel\<close> (an object, or nil), and the two
  optional interfaces where it implements them. Objects are named by numbers.
\<close>

record provider =
  CreateChannel :: "string \<Rightarrow> gerr + nat option"
  ChannelList :: "(gerr + string list) option"
  ChannelFind :: "(string \<Rightarrow> gerr + bool) option"

text \<open>The list of a server's providers, under its mutex; \<open>ChannelProviders\<close> returns a copy.\<close>

definition AddChannelProvider :: "provider \<Rightarrow> provider list \<Rightarrow> provider list" where
  "AddChannelProvider p channelProviders = channelProviders @ [p]"

definition ChannelProviders :: "provider list \<Rightarrow> provider list" where
  "ChannelProviders channelProviders = [] @ channelProviders"

section \<open>Addresses\<close>

text \<open>\<open>net.IP.To16\<close>, \<open>To4\<close> and \<open>IsUnspecified\<close>; \<open>copy\<close> of a slice into an array.\<close>

definition v4_prefix :: "byte list" where
  "v4_prefix = replicate 10 0 @ [0xFF, 0xFF]"

definition To16 :: "byte list \<Rightarrow> byte list" where
  "To16 ip = (if length ip = 4 then v4_prefix @ ip else if length ip = 16 then ip else [])"

definition To4 :: "byte list \<Rightarrow> byte list" where
  "To4 ip = (if length ip = 4 then ip
     else if length ip = 16 \<and> take 12 ip = v4_prefix then drop 12 ip else [])"

definition IsUnspecified :: "byte list \<Rightarrow> bool" where
  "IsUnspecified ip \<longleftrightarrow> To4 ip = [0, 0, 0, 0] \<or> ip = replicate 16 0"

definition copy_into :: "'a list \<Rightarrow> 'a list \<Rightarrow> 'a list" where
  "copy_into dst src = take (length dst) src @ drop (length src) dst"

section \<open>Search\<close>

record search_server =
  GUID :: "byte list"
  ServerIP :: "byte list"
  ServerPort :: int

definition provides :: "provider \<Rightarrow> string \<Rightarrow> bool" where
  "provides p name =
     (case ChannelFind p of
        Some ask \<Rightarrow> (case ask name of Inr present \<Rightarrow> present | Inl e \<Rightarrow> False)
      | None \<Rightarrow> (case CreateChannel p name of Inr (Some c) \<Rightarrow> True | _ \<Rightarrow> False))"

definition found_instances :: "provider list \<Rightarrow> SearchRequest_Channel list \<Rightarrow> 32 word list" where
  "found_instances ps chs =
     fold (\<lambda>p ids. fold (\<lambda>ch ids. if provides p (sr_ChannelName ch) then ids @ [SearchInstanceID ch] else ids) chs ids) ps []"

definition search_response :: "search_server \<Rightarrow> provider list \<Rightarrow> SearchRequest \<Rightarrow> SearchResponse" where
  "search_response s ps req =
     (let ids = found_instances ps (sr_Channels req)
      in \<lparr>sp_GUID = GUID s, sp_SearchSequenceID = sr_SearchSequenceID req,
          sp_ServerAddress = copy_into (replicate 16 0) (To16 (ServerIP s)),
          sp_ServerPort = word_of_int (ServerPort s), sp_Protocol = ''tcp'',
          Found = (ids \<noteq> []),
          SearchInstanceIDs = (if ids = [] then map SearchInstanceID (sr_Channels req) else ids)\<rparr>)"

definition Search :: "search_server \<Rightarrow> provider list \<Rightarrow> SearchRequest \<Rightarrow> unit conn_act" where
  "Search s ps req =
     (let resp = search_response s (ChannelProviders ps) req in
      if SearchInstanceIDs resp \<noteq> [] \<or> sr_Flags req AND SEARCH_REPLY_REQUIRED = SEARCH_REPLY_REQUIRED
      then SendApp APP_SEARCH_RESPONSE (Coded (encode_struct (SearchResponse_gval resp)))
      else retA ())"

section \<open>What a reply says\<close>

lemma found_instances_eq:
  "found_instances ps chs = concat (map (\<lambda>p. map SearchInstanceID (filter (\<lambda>ch. provides p (sr_ChannelName ch)) chs)) ps)"
proof -
  have inner: "fold (\<lambda>ch ids. if f ch then ids @ [SearchInstanceID ch] else ids) chs ids =
      ids @ map SearchInstanceID (filter f chs)" for f ids
    by (induction chs arbitrary: ids) simp_all
  have "fold (\<lambda>p ids. fold (\<lambda>ch ids. if provides p (sr_ChannelName ch) then ids @ [SearchInstanceID ch] else ids) chs ids) ps ids =
      ids @ concat (map (\<lambda>p. map SearchInstanceID (filter (\<lambda>ch. provides p (sr_ChannelName ch)) chs)) ps)" for ids
    by (induction ps arbitrary: ids) (simp_all add: inner)
  then show ?thesis by (simp add: found_instances_def)
qed

lemma set_found_instances:
  "set (found_instances ps chs) = {SearchInstanceID ch | ch. ch \<in> set chs \<and> (\<exists>p \<in> set ps. provides p (sr_ChannelName ch))}"
  by (auto simp: found_instances_eq)

lemma found_instances_Nil:
  "found_instances ps chs = [] \<longleftrightarrow> (\<forall>ch \<in> set chs. \<forall>p \<in> set ps. \<not> provides p (sr_ChannelName ch))"
  by (force simp: found_instances_eq filter_empty_conv)

text \<open>The bytes of a response.\<close>

definition response_wire :: "byte_order \<Rightarrow> SearchResponse \<Rightarrow> byte list" where
  "response_wire bo m = sp_GUID m @ put_uint bo 4 (sp_SearchSequenceID m) @ sp_ServerAddress m @
     put_uint bo 2 (sp_ServerPort m) @ string_wire bo (sp_Protocol m) @ [if Found m then 1 else 0] @
     put_uint bo 2 (word_of_nat (length (SearchInstanceIDs m)) :: 16 word) @ concat (map (put_uint bo 4) (SearchInstanceIDs m))"

lemma enc_elem_prim: "enc_elem (GPrim named p) = enc_prim p"
  by (rule ext) (simp add: enc_elem.simps enc_pv_direct act_simps)

lemma enc_prims:
  "eachA enc_elem (map (\<lambda>x. GPrim named (P x)) xs) s = (Inr (), emit (concat (map (\<lambda>x. prim_wire (eorder s) (P x)) xs)) s)"
  by (induction xs arbitrary: s) (simp_all add: enc_elem_prim act_simps prim_enc)

lemma enc_bytes_field:
  assumes "\<not> eucbs s"
  shows "enc_field (n, [], bytes_gval bs) s = (Inr False, emit bs s)"
proof -
  have each: "eachA enc_elem (map (\<lambda>b. GPrim False (PVUByte b)) bs) t = (Inr (), emit bs t)" for t
    using enc_prims [of False PVUByte bs t] by (simp add: concat_map_singleton)
  show ?thesis
    using assms by (simp add: enc_field_simps bytes_gval_def enc_pv.simps act_simps without_ecbs_def array_len_enc_def
        record_changed_def each)
qed

lemma enc_ids_field:
  assumes "\<not> eucbs s"
  shows "enc_field (n, '',short'', GSlice (GPrim True (PVUInt 0)) (map (\<lambda>i. GPrim True (PVUInt i)) ids) []) s =
    (Inr False, emit (put_uint (eorder s) 2 (word_of_nat (length ids) :: 16 word) @ concat (map (put_uint (eorder s) 4) ids)) s)"
  using assms by (simp add: enc_field_simps parse_tag_short enc_pv.simps act_simps without_ecbs_def array_len_enc_def
      record_changed_def enc_prims scalar_enc_defs)

lemma enc_strings_field:
  assumes "\<not> eucbs s" and "field_options tag = []" "\<not> has_tag (snd (parse_tag tag)) ''breakonerror''"
  shows "enc_field (n, tag, strings_gval named names) s =
    (Inr False, emit (size_wire (eorder s) (len_word (length names)) @ concat (map (string_wire (eorder s)) names)) s)"
proof -
  have "eachA enc_elem (map (\<lambda>s. GPrim named (PVString s)) names) t = (Inr (), emit (concat (map (string_wire (eorder t)) names)) t)" for t
    using enc_prims [of named PVString names t] by simp
  then show ?thesis
    using assms by (simp add: enc_field.simps field_omitted_def omitted_def strings_gval_def enc_pv.simps act_simps
        without_ecbs_def array_len_enc_def PVSize_enc record_changed_def)
qed

lemma SearchResponse_enc:
  assumes "\<not> eucbs s"
  shows "encode_struct (SearchResponse_gval m) s = (Inr (), emit (response_wire (eorder s) m) s)"
  using assms
  by (simp add: encode_struct_fields SearchResponse_gval_def act_simps enc_bytes_field enc_field_plain record_changed_def
      scalar_enc_defs PVString_enc enc_ids_field response_wire_def)

lemma SearchResponse_encoding: "encoding bo (SearchResponse_gval m) = Inr (response_wire bo m)"
  by (simp add: encoding_def SearchResponse_enc)

section \<open>Properties\<close>

text \<open>C22: A search request that names a channel, or that asks for a reply, gets one reply with its number:
  either it says that channels were found and lists exactly the instances of those channels that some
  provider has, or it says that none was found and lists all that were asked for.\<close>

theorem search_reply:
  "\<exists>resp d. Search s ps req c = (Inr (), d) \<and>
    wrote (if sr_Channels req = [] \<and> sr_Flags req AND SEARCH_REPLY_REQUIRED \<noteq> SEARCH_REPLY_REQUIRED then []
           else app_frame c APP_SEARCH_RESPONSE (response_wire (eorder (cn_enc c)) resp)) c d \<and>
    sp_SearchSequenceID resp = sr_SearchSequenceID req \<and>
    Found resp = (\<exists>ch \<in> set (sr_Channels req). \<exists>p \<in> set ps. provides p (sr_ChannelName ch)) \<and>
    set (SearchInstanceIDs resp) =
      (if Found resp then {SearchInstanceID ch | ch. ch \<in> set (sr_Channels req) \<and> (\<exists>p \<in> set ps. provides p (sr_ChannelName ch))}
       else SearchInstanceID ` set (sr_Channels req))"
proof -
  let ?resp = "search_response s (ChannelProviders ps) req"
  have ids: "SearchInstanceIDs ?resp = [] \<longleftrightarrow> sr_Channels req = []"
    "Found ?resp = (\<exists>ch \<in> set (sr_Channels req). \<exists>p \<in> set ps. provides p (sr_ChannelName ch))"
    using found_instances_Nil [of ps "sr_Channels req"] by (auto simp: search_response_def Let_def ChannelProviders_def)
  have set: "set (SearchInstanceIDs ?resp) =
      (if Found ?resp then {SearchInstanceID ch | ch. ch \<in> set (sr_Channels req) \<and> (\<exists>p \<in> set ps. provides p (sr_ChannelName ch))}
       else SearchInstanceID ` set (sr_Channels req))"
    by (simp add: search_response_def Let_def ChannelProviders_def set_found_instances)
  have seq: "sp_SearchSequenceID ?resp = sr_SearchSequenceID req" by (simp add: search_response_def Let_def)
  obtain d where "SendApp APP_SEARCH_RESPONSE (Coded (encode_struct (SearchResponse_gval ?resp))) c = (Inr (), d)"
    "wrote (app_frame c APP_SEARCH_RESPONSE (response_wire (eorder (cn_enc c)) ?resp)) c d"
    using SendApp_encoding [OF SearchResponse_encoding] by blast
  moreover have "wrote [] c c" by (auto simp: wrote_def intro!: exI [of _ "cn_enc c"])
  ultimately show ?thesis using ids set seq
    by (intro exI [of _ ?resp]) (simp add: Search_def Let_def retA_def)
qed

end
