(* ===== verification/PV_Requests.thy ===== *)
theory PV_Requests
  imports PV_Prelude
begin

text \<open>
  The request table of a server connection (server.go): requests with their status, registered
  under the IDs that the client chooses, and the contexts through which they are cancelled.

  A request is an object that a goroutine may still hold when it is no longer registered, so the
  objects live in a heap and the table maps IDs to them. Every operation runs under the mutex of
  the connection.
\<close>

section \<open>Texts of package fmt\<close>

definition digit :: "nat \<Rightarrow> char" where
  "digit n = char_of (if n < 10 then 48 + n else 87 + n)"

function nat_text :: "nat \<Rightarrow> nat \<Rightarrow> string" where
  "nat_text base n = (if base < 2 \<or> n < base then [digit n] else nat_text base (n div base) @ [digit (n mod base)])"
  by pat_completeness auto
termination
  by (relation "measure snd") (auto intro: div_less_dividend)

declare nat_text.simps [simp del]

text \<open>\<open>\%d\<close> and \<open>\%x\<close> of a signed number.\<close>

definition int_text :: "nat \<Rightarrow> int \<Rightarrow> string" where
  "int_text base i = (if i < 0 then ''-'' else []) @ nat_text base (nat \<bar>i\<bar>)"

section \<open>Requests\<close>

datatype requestStatus = INIT | READY | REQUEST_IN_PROGRESS | CANCELLED | DESTROYED

fun status_number :: "requestStatus \<Rightarrow> nat" where
  "status_number INIT = 0"
| "status_number READY = 1"
| "status_number REQUEST_IN_PROGRESS = 2"
| "status_number CANCELLED = 3"
| "status_number DESTROYED = 4"

fun requestStatusNames :: "requestStatus \<Rightarrow> string" where
  "requestStatusNames INIT = ''INIT''"
| "requestStatusNames READY = ''READY''"
| "requestStatusNames REQUEST_IN_PROGRESS = ''REQUEST_IN_PROGRESS''"
| "requestStatusNames CANCELLED = ''CANCELLED''"
| "requestStatusNames DESTROYED = ''DESTROYED''"

instantiation requestStatus :: linorder
begin

definition less_eq_requestStatus :: "requestStatus \<Rightarrow> requestStatus \<Rightarrow> bool" where
  "less_eq_requestStatus s t \<longleftrightarrow> status_number s \<le> status_number t"

definition less_requestStatus :: "requestStatus \<Rightarrow> requestStatus \<Rightarrow> bool" where
  "less_requestStatus s t \<longleftrightarrow> status_number s < status_number t"

instance
proof
  fix s t :: requestStatus
  show "s \<le> t \<Longrightarrow> t \<le> s \<Longrightarrow> s = t" by (cases s; cases t) (simp_all add: less_eq_requestStatus_def)
qed (auto simp: less_eq_requestStatus_def less_requestStatus_def)

end

lemmas status_less_defs = less_eq_requestStatus_def less_requestStatus_def

text \<open>
  What a request is for: an object of the application (a \<open>ChannelGeter\<close> or \<open>ChannelRPCer\<close>) or one of
  the connection's monitors. \<open>cancel\<close> is the context that the cancel function ends, unless it is nil.
\<close>

datatype doer = Object nat | Watching nat

record request =
  doer :: doer
  cancel :: "nat option"
  status :: requestStatus

record request_table =
  requests :: "32 word \<rightharpoonup> nat"
  heap :: "request list"
  ctx_done :: "bool list"

definition update_request :: "nat \<Rightarrow> (request \<Rightarrow> request) \<Rightarrow> 'a request_table_scheme \<Rightarrow> 'a request_table_scheme" where
  "update_request k f t = t\<lparr>heap := (heap t)[k := f (heap t ! k)]\<rparr>"

definition addRequest :: "32 word \<Rightarrow> request \<Rightarrow> ('a request_table_scheme, unit) act" where
  "addRequest rid r t =
     (let put = (Inr (), t\<lparr>heap := heap t @ [r], requests := (requests t)(rid \<mapsto> length (heap t))\<rparr>) in
      case requests t rid of
        None \<Rightarrow> put
      | Some existing \<Rightarrow>
          if status (heap t ! existing) \<noteq> DESTROYED then
            (Inl (OtherError (''request ID '' @ int_text 16 (sint rid) @ '' already exists with status '' @
               requestStatusNames (status (heap t ! existing)))), t)
          else put)"

text \<open>\<open>context.WithCancel\<close> and calling the cancel function it returns.\<close>

definition with_cancel :: "('a request_table_scheme, nat) act" where
  "with_cancel t = (Inr (length (ctx_done t)), t\<lparr>ctx_done := ctx_done t @ [False]\<rparr>)"

definition call_cancel :: "nat \<Rightarrow> 'a request_table_scheme \<Rightarrow> 'a request_table_scheme" where
  "call_cancel k t =
     (case cancel (heap t ! k) of
        None \<Rightarrow> t
      | Some ctx \<Rightarrow> update_request k (\<lambda>r. r\<lparr>cancel := None\<rparr>) (t\<lparr>ctx_done := (ctx_done t)[ctx := True]\<rparr>))"

definition raise_status :: "requestStatus \<Rightarrow> request \<Rightarrow> request" where
  "raise_status s r = (if status r < s then r\<lparr>status := s\<rparr> else r)"

definition unknown_request :: "32 word \<Rightarrow> gerr" where
  "unknown_request rid = OtherError (''unknown request '' @ int_text 10 (sint rid))"

definition cancelRequestLocked :: "32 word \<Rightarrow> ('a request_table_scheme, unit) act" where
  "cancelRequestLocked rid t =
     (case requests t rid of
        Some existing \<Rightarrow> (Inr (), call_cancel existing (update_request existing (raise_status CANCELLED) t))
      | None \<Rightarrow> (Inl (unknown_request rid), t))"

definition destroyRequestLocked :: "32 word \<Rightarrow> ('a request_table_scheme, unit) act" where
  "destroyRequestLocked rid t =
     (case requests t rid of
        Some existing \<Rightarrow>
          (let t' = call_cancel existing (update_request existing (raise_status DESTROYED) t)
           in (Inr (), t'\<lparr>requests := (requests t')(rid := None)\<rparr>))
      | None \<Rightarrow> (Inl (unknown_request rid), t))"

text \<open>
  The beginning of an execution, as the get and RPC handlers have it, and its end in their
  goroutines: the request object becomes ready whatever happened to it meanwhile.
\<close>

definition begin_request :: "nat \<Rightarrow> ('a request_table_scheme, nat) act" where
  "begin_request k =
     bindA with_cancel (\<lambda>ctx t. (Inr ctx, update_request k (\<lambda>r. r\<lparr>status := REQUEST_IN_PROGRESS, cancel := Some ctx\<rparr>) t))"

definition end_request :: "nat \<Rightarrow> 32 word \<Rightarrow> bool \<Rightarrow> 'a request_table_scheme \<Rightarrow> 'a request_table_scheme" where
  "end_request k rid destroy t =
     (if destroy then
        (update_request k (\<lambda>r. r\<lparr>status := DESTROYED\<rparr>) t)\<lparr>requests := (requests t)(rid := None)\<rparr>
      else update_request k (\<lambda>r. r\<lparr>status := READY\<rparr>) t)"

definition new_request :: "doer \<Rightarrow> request" where
  "new_request d = \<lparr>doer = d, cancel = None, status = READY\<rparr>"

text \<open>
  What the handlers do on a registered request: it is looked up (a missing one is a nil pointer whose
  status is read), has to be ready, and is executed.
\<close>

definition ready_request :: "32 word \<Rightarrow> ('a request_table_scheme, nat) act" where
  "ready_request rid t =
     (case requests t rid of
        None \<Rightarrow> (Inl (Panic NilDereference), t)
      | Some k \<Rightarrow>
          if status (heap t ! k) \<noteq> READY
          then (Inl (StatusErr \<lparr>st_Type = 2, st_Message = ''request not READY'', st_CallTree = []\<rparr>), t)
          else (Inr k, t))"

section \<open>The table as a map from IDs to statuses\<close>

definition live :: "'a request_table_scheme \<Rightarrow> 32 word \<rightharpoonup> requestStatus" where
  "live t rid = map_option (\<lambda>k. status (heap t ! k)) (requests t rid)"

definition table_ok :: "'a request_table_scheme \<Rightarrow> bool" where
  "table_ok t \<longleftrightarrow>
     (\<forall>rid k. requests t rid = Some k \<longrightarrow> k < length (heap t) \<and> status (heap t ! k) \<noteq> DESTROYED) \<and>
     (\<forall>rid rid' k. requests t rid = Some k \<longrightarrow> requests t rid' = Some k \<longrightarrow> rid = rid')"

datatype table_op =
    AddReq "32 word" doer | CancelReq "32 word" | DestroyReq "32 word" | ExecReq "32 word" | EndReq "32 word" bool

text \<open>The specification: whether the operation succeeds, and the map behind it.\<close>

fun spec_op :: "table_op \<Rightarrow> (32 word \<rightharpoonup> requestStatus) \<Rightarrow> bool \<times> (32 word \<rightharpoonup> requestStatus)" where
  "spec_op (AddReq rid d) m = (case m rid of None \<Rightarrow> (True, m(rid \<mapsto> READY)) | Some s \<Rightarrow> (False, m))"
| "spec_op (CancelReq rid) m = (case m rid of None \<Rightarrow> (False, m) | Some s \<Rightarrow> (True, m(rid \<mapsto> max s CANCELLED)))"
| "spec_op (DestroyReq rid) m = (case m rid of None \<Rightarrow> (False, m) | Some s \<Rightarrow> (True, m(rid := None)))"
| "spec_op (ExecReq rid) m = (if m rid = Some READY then (True, m(rid \<mapsto> REQUEST_IN_PROGRESS)) else (False, m))"
| "spec_op (EndReq rid destroy) m =
     (case m rid of None \<Rightarrow> (False, m) | Some s \<Rightarrow> (True, m(rid := if destroy then None else Some READY)))"

definition exec_request :: "32 word \<Rightarrow> ('a request_table_scheme, nat) act" where
  "exec_request rid = bindA (ready_request rid) begin_request"

text \<open>The end of the execution of the request that is registered under an ID.\<close>

definition finish_request :: "32 word \<Rightarrow> bool \<Rightarrow> ('a request_table_scheme, unit) act" where
  "finish_request rid destroy t =
     (case requests t rid of None \<Rightarrow> (Inl (unknown_request rid), t) | Some k \<Rightarrow> (Inr (), end_request k rid destroy t))"

text \<open>
  What the handlers need of the table: IDs of registered requests are not given again, and every
  operation changes the status of the one request it names.
\<close>

locale request_ids =
  fixes status_of :: "'t \<Rightarrow> 32 word \<rightharpoonup> requestStatus" and ok :: "'t \<Rightarrow> bool"
    and add :: "32 word \<Rightarrow> request \<Rightarrow> ('t, unit) act"
    and cancel_id destroy_id :: "32 word \<Rightarrow> ('t, unit) act"
    and exec_id :: "32 word \<Rightarrow> ('t, nat) act"
    and finish_id :: "32 word \<Rightarrow> bool \<Rightarrow> ('t, unit) act"
  assumes add_new: "ok t \<Longrightarrow> status_of t rid = None \<Longrightarrow>
      \<exists>u. add rid (new_request d) t = (Inr (), u) \<and> ok u \<and> status_of u = (status_of t)(rid \<mapsto> READY)"
    and add_taken: "ok t \<Longrightarrow> status_of t rid = Some s \<Longrightarrow> \<exists>e. add rid (new_request d) t = (Inl e, t)"
    and cancel_known: "ok t \<Longrightarrow> status_of t rid = Some s \<Longrightarrow>
      \<exists>u. cancel_id rid t = (Inr (), u) \<and> ok u \<and> status_of u = (status_of t)(rid \<mapsto> max s CANCELLED)"
    and cancel_unknown: "status_of t rid = None \<Longrightarrow> \<exists>e. cancel_id rid t = (Inl e, t)"
    and destroy_known: "ok t \<Longrightarrow> status_of t rid = Some s \<Longrightarrow>
      \<exists>u. destroy_id rid t = (Inr (), u) \<and> ok u \<and> status_of u = (status_of t)(rid := None)"
    and destroy_unknown: "status_of t rid = None \<Longrightarrow> \<exists>e. destroy_id rid t = (Inl e, t)"
    and exec_ready: "ok t \<Longrightarrow> status_of t rid = Some READY \<Longrightarrow>
      \<exists>k u. exec_id rid t = (Inr k, u) \<and> ok u \<and> status_of u = (status_of t)(rid \<mapsto> REQUEST_IN_PROGRESS)"
    and exec_other: "status_of t rid \<noteq> Some READY \<Longrightarrow> \<exists>e. exec_id rid t = (Inl e, t)"
    and finish_known: "ok t \<Longrightarrow> status_of t rid = Some s \<Longrightarrow>
      \<exists>u. finish_id rid destroy t = (Inr (), u) \<and> ok u \<and> status_of u = (status_of t)(rid := if destroy then None else Some READY)"
    and finish_unknown: "status_of t rid = None \<Longrightarrow> \<exists>e. finish_id rid destroy t = (Inl e, t)"
begin

definition outcome :: "(gerr + 'x) \<times> 't \<Rightarrow> bool \<times> 't" where
  "outcome r = (case r of (Inl e, t) \<Rightarrow> (False, t) | (Inr x, t) \<Rightarrow> (True, t))"

fun table_do :: "table_op \<Rightarrow> 't \<Rightarrow> bool \<times> 't" where
  "table_do (AddReq rid d) t = outcome (add rid (new_request d) t)"
| "table_do (CancelReq rid) t = outcome (cancel_id rid t)"
| "table_do (DestroyReq rid) t = outcome (destroy_id rid t)"
| "table_do (ExecReq rid) t = outcome (exec_id rid t)"
| "table_do (EndReq rid destroy) t = outcome (finish_id rid destroy t)"

lemma table_do_refines:
  assumes "ok t"
  shows "\<exists>b u. table_do op t = (b, u) \<and> ok u \<and> spec_op op (status_of t) = (b, status_of u)"
proof (cases op)
  case (AddReq rid d)
  then show ?thesis using add_new [OF assms, of rid d] add_taken [OF assms, of rid _ d] assms
    by (cases "status_of t rid") (force simp: outcome_def)+
next
  case (CancelReq rid)
  then show ?thesis using cancel_known [OF assms, of rid] cancel_unknown [of t rid] assms
    by (cases "status_of t rid") (force simp: outcome_def)+
next
  case (DestroyReq rid)
  then show ?thesis using destroy_known [OF assms, of rid] destroy_unknown [of t rid] assms
    by (cases "status_of t rid") (force simp: outcome_def)+
next
  case (ExecReq rid)
  then show ?thesis using exec_ready [OF assms, of rid] exec_other [of t rid] assms
    by (cases "status_of t rid = Some READY") (force simp: outcome_def)+
next
  case (EndReq rid destroy)
  then show ?thesis using finish_known [OF assms, of rid _ destroy] finish_unknown [of t rid destroy] assms
    by (cases "status_of t rid") (force simp: outcome_def)+
qed

fun table_run :: "table_op list \<Rightarrow> 't \<Rightarrow> bool list \<times> 't" where
  "table_run [] t = ([], t)"
| "table_run (op # ops) t = (case table_do op t of (b, u) \<Rightarrow> (case table_run ops u of (bs, v) \<Rightarrow> (b # bs, v)))"

end

fun spec_run :: "table_op list \<Rightarrow> (32 word \<rightharpoonup> requestStatus) \<Rightarrow> bool list \<times> (32 word \<rightharpoonup> requestStatus)" where
  "spec_run [] m = ([], m)"
| "spec_run (op # ops) m = (case spec_op op m of (b, n) \<Rightarrow> (case spec_run ops n of (bs, l) \<Rightarrow> (b # bs, l)))"

context request_ids begin

lemma table_run_refines:
  "ok t \<Longrightarrow> \<exists>bs u. table_run ops t = (bs, u) \<and> ok u \<and> spec_run ops (status_of t) = (bs, status_of u)"
proof (induction ops arbitrary: t)
  case (Cons op ops)
  obtain b u where u: "table_do op t = (b, u)" "ok u" "spec_op op (status_of t) = (b, status_of u)"
    using table_do_refines [OF Cons.prems, of op] by blast
  with Cons.IH [OF u(2)] show ?case by auto
qed simp

end

section \<open>The table meets the contract\<close>

lemma update_request_simps [simp]:
  "requests (update_request k f t) = requests t" "length (heap (update_request k f t)) = length (heap t)"
  "ctx_done (update_request k f t) = ctx_done t"
  "k < length (heap t) \<Longrightarrow> heap (update_request k f t) ! j = (if j = k then f (heap t ! k) else heap t ! j)"
  by (auto simp: update_request_def nth_list_update)

lemma call_cancel_simps [simp]:
  "requests (call_cancel k t) = requests t" "length (heap (call_cancel k t)) = length (heap t)"
  "k < length (heap t) \<Longrightarrow> status (heap (call_cancel k t) ! j) = status (heap t ! j)"
  by (auto simp: call_cancel_def split: option.splits)

lemma table_okI:
  assumes "\<And>rid k. requests u rid = Some k \<Longrightarrow> k < length (heap u) \<and> status (heap u ! k) \<noteq> DESTROYED"
    and "\<And>rid rid' k. requests u rid = Some k \<Longrightarrow> requests u rid' = Some k \<Longrightarrow> rid = rid'"
  shows "table_ok u"
  using assms unfolding table_ok_def by blast

lemma table_okD: "table_ok t \<Longrightarrow> requests t rid = Some k \<Longrightarrow> k < length (heap t) \<and> status (heap t ! k) \<noteq> DESTROYED"
  by (auto simp: table_ok_def)

lemma table_ok_inj: "table_ok t \<Longrightarrow> requests t rid = Some k \<Longrightarrow> requests t rid' = Some k \<Longrightarrow> rid' = rid"
  by (auto simp: table_ok_def)

lemma live_Some: "live t rid = Some s \<longleftrightarrow> (\<exists>k. requests t rid = Some k \<and> s = status (heap t ! k))"
  by (auto simp: live_def)

lemma live_None [simp]: "live t rid = None \<longleftrightarrow> requests t rid = None"
  by (simp add: live_def)

text \<open>An operation that sets the status of one registered request, and one that takes it out.\<close>

lemma status_set:
  assumes "table_ok t" and "requests t rid = Some k" and "s \<noteq> DESTROYED"
    and "requests u = requests t" and "length (heap u) = length (heap t)"
    and "\<And>j. status (heap u ! j) = (if j = k then s else status (heap t ! j))"
  shows "table_ok u \<and> live u = (live t)(rid \<mapsto> s)"
proof
  show "table_ok u" using assms by (auto simp: table_ok_def)
  show "live u = (live t)(rid \<mapsto> s)"
  proof
    fix x
    show "live u x = ((live t)(rid \<mapsto> s)) x"
      using table_ok_inj [OF assms(1,2), of x] assms(2,4,6) by (cases "requests t x") (auto simp: live_def)
  qed
qed

lemma status_gone:
  assumes "table_ok t" and "requests t rid = Some k"
    and "requests u = (requests t)(rid := None)" and "length (heap u) = length (heap t)"
    and "\<And>j. j \<noteq> k \<Longrightarrow> status (heap u ! j) = status (heap t ! j)"
  shows "table_ok u \<and> live u = (live t)(rid := None)"
proof
  have other: "requests t rid' = Some j \<and> j \<noteq> k" if "requests u rid' = Some j" for rid' j
    using that assms(3) table_ok_inj [OF assms(1,2)] by (auto split: if_splits)
  show "table_ok u"
  proof (rule table_okI)
    fix rid' j assume "requests u rid' = Some j"
    with other table_okD [OF assms(1)] assms(4,5) show "j < length (heap u) \<and> status (heap u ! j) \<noteq> DESTROYED"
      by metis
  next
    fix rid1 rid2 j assume "requests u rid1 = Some j" "requests u rid2 = Some j"
    with other table_ok_inj [OF assms(1)] show "rid1 = rid2" by blast
  qed
  show "live u = (live t)(rid := None)"
  proof
    fix x
    show "live u x = ((live t)(rid := None)) x"
      using table_ok_inj [OF assms(1,2), of x] assms(3,5) by (cases "requests t x") (auto simp: live_def)
  qed
qed

lemma raise_status_status [simp]: "status (raise_status s r) = max (status r) s"
  by (auto simp: raise_status_def max_def not_le)

lemma max_CANCELLED: "s \<noteq> DESTROYED \<Longrightarrow> max s CANCELLED \<noteq> DESTROYED"
  by (cases s) (simp_all add: max_def status_less_defs)

lemma add_live:
  assumes "table_ok t" and "requests t rid = None" and "status r \<noteq> DESTROYED"
  shows "\<exists>u. addRequest rid r t = (Inr (), u) \<and> table_ok u \<and> live u = (live t)(rid \<mapsto> status r)"
proof -
  let ?u = "t\<lparr>heap := heap t @ [r], requests := (requests t)(rid \<mapsto> length (heap t))\<rparr>"
  have old: "k < length (heap t)" "status (heap ?u ! k) = status (heap t ! k)" "k < length (heap ?u)"
    if "requests t rid' = Some k" for rid' k
    using table_okD [OF assms(1) that] by (auto simp: nth_append)
  have "table_ok ?u"
    using assms old table_okD [OF assms(1)] table_ok_inj [OF assms(1)]
    by (intro table_okI) (fastforce simp: nth_append split: if_splits)+
  moreover have "live ?u = (live t)(rid \<mapsto> status r)"
  proof
    fix x
    show "live ?u x = ((live t)(rid \<mapsto> status r)) x"
      using old [of x] by (cases "requests t x") (auto simp: live_def)
  qed
  ultimately show ?thesis using assms(2) by (simp add: addRequest_def Let_def)
qed

lemma cancel_live:
  assumes "table_ok t" and "requests t rid = Some k"
  shows "\<exists>u. cancelRequestLocked rid t = (Inr (), u) \<and> table_ok u \<and> live u = (live t)(rid \<mapsto> max (status (heap t ! k)) CANCELLED)"
  using status_set [OF assms, of "max (status (heap t ! k)) CANCELLED" "call_cancel k (update_request k (raise_status CANCELLED) t)"]
    table_okD [OF assms] assms(2) by (simp add: cancelRequestLocked_def max_CANCELLED)

lemma destroy_live:
  assumes "table_ok t" and "requests t rid = Some k"
  shows "\<exists>u. destroyRequestLocked rid t = (Inr (), u) \<and> table_ok u \<and> live u = (live t)(rid := None)"
proof -
  let ?t = "call_cancel k (update_request k (raise_status DESTROYED) t)"
  from status_gone [OF assms, of "?t\<lparr>requests := (requests ?t)(rid := None)\<rparr>"] table_okD [OF assms] assms(2)
  show ?thesis by (simp add: destroyRequestLocked_def Let_def)
qed

lemma begin_live:
  assumes "table_ok t" and "requests t rid = Some k"
  shows "\<exists>u. begin_request k t = (Inr (length (ctx_done t)), u) \<and> table_ok u \<and> live u = (live t)(rid \<mapsto> REQUEST_IN_PROGRESS)"
proof -
  let ?u = "update_request k (\<lambda>r. r\<lparr>status := REQUEST_IN_PROGRESS, cancel := Some (length (ctx_done t))\<rparr>)
      (t\<lparr>ctx_done := ctx_done t @ [False]\<rparr>)"
  from status_set [OF assms, of REQUEST_IN_PROGRESS ?u] table_okD [OF assms]
  show ?thesis by (simp add: begin_request_def with_cancel_def act_simps)
qed

lemma finish_live:
  assumes "table_ok t" and "requests t rid = Some k"
  shows "table_ok (end_request k rid destroy t) \<and>
    live (end_request k rid destroy t) = (live t)(rid := if destroy then None else Some READY)"
proof (cases destroy)
  case True
  let ?t = "update_request k (\<lambda>r. r\<lparr>status := DESTROYED\<rparr>) t"
  from status_gone [OF assms, of "?t\<lparr>requests := (requests t)(rid := None)\<rparr>"] table_okD [OF assms] True
  show ?thesis by (simp add: end_request_def)
next
  case False
  from status_set [OF assms, of READY "update_request k (\<lambda>r. r\<lparr>status := READY\<rparr>) t"] table_okD [OF assms] False
  show ?thesis by (simp add: end_request_def)
qed

lemma exec_not_ready: "live t rid \<noteq> Some READY \<Longrightarrow> \<exists>e. exec_request rid t = (Inl e, t)"
  by (auto simp: exec_request_def ready_request_def bindA_def live_def split: option.splits)

interpretation ids: request_ids live table_ok addRequest cancelRequestLocked destroyRequestLocked exec_request finish_request
proof
  fix t :: "'a request_table_scheme" and rid d s destroy
  assume ok: "table_ok t"
  show "\<exists>u. addRequest rid (new_request d) t = (Inr (), u) \<and> table_ok u \<and> live u = (live t)(rid \<mapsto> READY)"
    if "live t rid = None" using add_live [OF ok, of rid "new_request d"] that by (simp add: new_request_def)
  show "\<exists>e. addRequest rid (new_request d) t = (Inl e, t)" if "live t rid = Some s"
    using that ok by (auto simp: addRequest_def live_Some dest: table_okD)
  show "\<exists>u. cancelRequestLocked rid t = (Inr (), u) \<and> table_ok u \<and> live u = (live t)(rid \<mapsto> max s CANCELLED)"
    if "live t rid = Some s" using that cancel_live [OF ok] by (auto simp: live_Some)
  show "\<exists>u. destroyRequestLocked rid t = (Inr (), u) \<and> table_ok u \<and> live u = (live t)(rid := None)"
    if "live t rid = Some s" using that destroy_live [OF ok] by (auto simp: live_Some)
  show "\<exists>k u. exec_request rid t = (Inr k, u) \<and> table_ok u \<and> live u = (live t)(rid \<mapsto> REQUEST_IN_PROGRESS)"
    if "live t rid = Some READY"
  proof -
    from that obtain k where "requests t rid = Some k" "status (heap t ! k) = READY" by (auto simp: live_Some)
    with begin_live [OF ok this(1)] show ?thesis by (auto simp: exec_request_def ready_request_def bindA_def)
  qed
  show "\<exists>u. finish_request rid destroy t = (Inr (), u) \<and> table_ok u \<and>
      live u = (live t)(rid := if destroy then None else Some READY)"
    if "live t rid = Some s" using that finish_live [OF ok] by (auto simp: live_Some finish_request_def)
qed (auto simp: cancelRequestLocked_def destroyRequestLocked_def finish_request_def exec_not_ready)

text \<open>C21: The request table, as long as the executions of a request end while it is registered, is a map
  from IDs to statuses: every sequence of operations succeeds and fails where the map says, an ID can
  only be given again when its request has been destroyed, and a request is executed only when it is
  ready.\<close>

theorem request_table_refines:
  assumes "table_ok t"
  shows "\<exists>rs u. ids.table_run ops t = (rs, u) \<and> table_ok u \<and> spec_run ops (live t) = (rs, live u)"
  by (rule ids.table_run_refines [OF assms])

theorem request_table_refines_witness:
  "let t = \<lparr>requests = Map.empty, heap = [], ctx_done = []\<rparr>;
       ops = [AddReq 1 (Object 0), AddReq 1 (Object 7), ExecReq 1, ExecReq 1, CancelReq 1, EndReq 1 False, DestroyReq 1, ExecReq 1]
   in \<exists>rs u. ids.table_run ops t = (rs, u) \<and> table_ok u \<and> spec_run ops (live t) = (rs, live u)"
  unfolding Let_def by (rule request_table_refines) (simp add: table_ok_def)

end
