(* ===== verification/PV_Server.thy ===== *)
theory PV_Server
  imports PV_Search PV_Monitor PV_Requests
begin

text \<open>
  A connection of the server (server.go, channels.go): its channels, its requests, the handler of
  every message, and the goroutines that the handlers leave behind.

  A handler runs under the connection's goroutine; what it hands to \<open>c.g.Go\<close> is a task, and the
  scheduler picks the next step among the messages, the tasks and the loops of the monitors
  (see \<open>srv_step\<close>). The body of a task is cut where others can act on what it has done: once its
  request is registered, and once its reply is out; the rest is another task. In between it holds the
  mutex or touches only what it owns.
\<close>

section \<open>The application\<close>

text \<open>
  What the server is given: its providers and the order in which their answers to \<open>CreateChannel\<close>
  come in (\<open>arrivals\<close>, by index); and for each object of the application, the interfaces of
  types/types.go it implements and what it answers when it is called. The flag says whether the
  context of the call has been cancelled. A call that blocks is a step that has not been made yet. \<open>render\<close>, \<open>quote\<close> and \<open>type_name\<close> are the texts of package fmt for an error that
  shows a Go value, for \<open>\%q\<close> and for \<open>\%T\<close>.
\<close>

type_synonym pvstructure = "string \<times> gval"

record world =
  search :: search_server
  providers :: "provider list"
  arrivals :: "nat list"
  Name :: "nat \<Rightarrow> string"
  is_ChannelGetCreator :: "nat \<Rightarrow> bool"
  is_ChannelGeter :: "nat \<Rightarrow> bool"
  is_ChannelRPCCreator :: "nat \<Rightarrow> bool"
  is_ChannelRPCer :: "nat \<Rightarrow> bool"
  is_ChannelMonitorCreator :: "nat \<Rightarrow> bool"
  CreateChannelGet :: "nat \<Rightarrow> pvstructure \<Rightarrow> gerr + nat"
  ChannelGet :: "nat \<Rightarrow> bool \<Rightarrow> gval option \<times> gerr option"
  CreateChannelRPC :: "nat \<Rightarrow> pvstructure \<Rightarrow> gerr + nat"
  ChannelRPC :: "nat \<Rightarrow> pvstructure \<Rightarrow> bool \<Rightarrow> gval option \<times> gerr option"
  CreateChannelMonitor :: "nat \<Rightarrow> pvstructure \<Rightarrow> gerr + nat"
  Nexter_Next :: "nat \<Rightarrow> bool \<Rightarrow> gerr + gval option"
  render :: "gerr \<Rightarrow> string"
  quote :: "string \<Rightarrow> string"
  type_name :: "gval option \<Rightarrow> string"

text \<open>\<open>err.Error()\<close>.\<close>

definition PVStatus_Error :: "pvstatus \<Rightarrow> string" where
  "PVStatus_Error v = (if st_Type v = 0 then ''OK'' else int_text 10 (sint (st_Type v)) @ '': '' @ st_Message v)"

fun error_text :: "world \<Rightarrow> gerr \<Rightarrow> string" where
  "error_text w EOF = ''EOF''"
| "error_text w UnexpectedEOF = ''unexpected EOF''"
| "error_text w (OtherError s) = s"
| "error_text w NotAStruct = ''data was not a struct''"
| "error_text w (ExceedsBound n b) =
     ''string of '' @ nat_text 10 n @ '' bytes exceeds bound of '' @ int_text 10 b @ '' bytes''"
| "error_text w (StatusErr st) = PVStatus_Error st"
| "error_text w (FieldFailed name e) = ''calling Field on '' @ name @ '': '' @ error_text w e"
| "error_text w e = render w e"

section \<open>State\<close>

text \<open>
  A monitor of the connection: the request whose number its values carry, the nexter it follows, and
  whether its loop still runs.
\<close>

record watched =
  w_request :: "32 word"
  w_nexter :: nat
  w_monitor :: Monitor
  w_alive :: bool

text \<open>
  The tasks: the bodies of the handlers of get, monitor and RPC messages; what is left of them when
  they have registered a request, and when a monitor has replied; the executions of requests, each
  with its request object and its context, and what is left of them when they have replied.
\<close>

datatype task =
    GetBody ChannelGetRequest
  | MonitorBody ChannelMonitorRequest
  | RPCBody ChannelRPCRequest
  | GetInitReply ChannelGetRequest nat
  | MonitorInitReply ChannelMonitorRequest nat "gval option"
  | RPCInitReply ChannelRPCRequest
  | MonitorFirst nat "gval option"
  | GetExec ChannelGetRequest nat nat nat
  | RPCExec ChannelRPCRequest pvstructure nat nat nat
  | Finish nat "32 word" bool

text \<open>A channel may be registered as nil; see \<open>createChannel\<close>.\<close>

record serverConn = request_table +
  Connection :: conn
  channels :: "32 word \<rightharpoonup> nat option"
  monitors :: "watched list"
  tasks :: "task list"

type_synonym 'a sact = "(serverConn, 'a) act"

definition newConn :: "byte list \<Rightarrow> serverConn" where
  "newConn input = \<lparr>requests = Map.empty, heap = [], ctx_done = [],
     Connection = New FLAG_FROM_SERVER input, channels = Map.empty, monitors = [], tasks = []\<rparr>"

definition on_conn :: "'a conn_act \<Rightarrow> 'a sact" where
  "on_conn m c = (case m (Connection c) of (r, d) \<Rightarrow> (r, c\<lparr>Connection := d\<rparr>))"

definition send :: "byte \<Rightarrow> gval \<Rightarrow> unit sact" where
  "send command payload = on_conn (SendApp command (Coded (encode_struct payload)))"

text \<open>\<open>var req T; msg.Decode(\&req)\<close>; no handler decodes a message twice.\<close>

definition decode_in :: "'a dec \<Rightarrow> Message \<Rightarrow> 'a sact" where
  "decode_in m msg = on_conn (\<lambda>c. case Message_Decode m (c, msg) of (r, (d, msg')) \<Rightarrow> (r, d))"

text \<open>\<open>c.g.Go(...)\<close>, and the point where the rest of a goroutine goes on as another step.\<close>

definition go :: "task \<Rightarrow> unit sact" where
  "go t c = (Inr (), c\<lparr>tasks := tasks c @ [t]\<rparr>)"

text \<open>A call whose error is only logged.\<close>

definition logged :: "unit sact \<Rightarrow> unit sact" where
  "logged m c = (case m c of
       (Inl e, d) \<Rightarrow> if is_panic e then (Inl e, d) else (Inr (), d)
     | (Inr u, d) \<Rightarrow> (Inr (), d))"

section \<open>Channels\<close>

text \<open>
  The providers run concurrently; an error counts as no channel, and a channel found later
  overwrites one found before. The table then holds the result even when it is nil.
\<close>

fun found_channel :: "(gerr + nat option) list \<Rightarrow> nat option \<Rightarrow> nat option" where
  "found_channel [] channel = channel"
| "found_channel (Inl e # rs) channel = found_channel rs channel"
| "found_channel (Inr None # rs) channel = found_channel rs channel"
| "found_channel (Inr (Some ch) # rs) channel = found_channel rs (Some ch)"

definition createChannel :: "world \<Rightarrow> 32 word \<Rightarrow> string \<Rightarrow> nat option sact" where
  "createChannel w channelID name c =
     (case channels c channelID of
        Some x \<Rightarrow> (Inl (OtherError (''channel '' @ int_text 10 (sint channelID) @ '' already created'')), c)
      | None \<Rightarrow>
          (let channel = found_channel (map (\<lambda>i. CreateChannel (providers w ! i) name) (arrivals w)) None
           in (Inr channel, c\<lparr>channels := (channels c)(channelID \<mapsto> channel)\<rparr>)))"

definition destroyChannel :: "32 word \<Rightarrow> unit sact" where
  "destroyChannel rid c =
     (case channels c rid of
        Some x \<Rightarrow> (Inr (), c\<lparr>channels := (channels c)(rid := None)\<rparr>)
      | None \<Rightarrow> (Inl (OtherError (''unknown channel '' @ int_text 10 (sint rid))), c))"

definition unknown_channel :: "32 word \<Rightarrow> gerr" where
  "unknown_channel rid = OtherError (''unknown channel ID '' @ int_text 16 (sint rid))"

definition getChannel :: "32 word \<Rightarrow> nat sact" where
  "getChannel rid c =
     (case channels c rid of
        Some (Some ch) \<Rightarrow> (Inr ch, c)
      | _ \<Rightarrow> (Inl (unknown_channel rid), c))"

section \<open>Replies\<close>

fun errorToStatus :: "world \<Rightarrow> gerr option \<Rightarrow> pvstatus" where
  "errorToStatus w None = zero_status"
| "errorToStatus w (Some (StatusErr s)) = s"
| "errorToStatus w (Some e) = \<lparr>st_Type = 3, st_Message = error_text w e, st_CallTree = []\<rparr>"

text \<open>
  The deferred reply of the get, monitor and RPC handlers: an error of the body is sent to the client,
  a panic goes on.
\<close>

definition reply_error :: "world \<Rightarrow> byte \<Rightarrow> (pvstatus \<Rightarrow> gval) \<Rightarrow> unit sact \<Rightarrow> unit sact" where
  "reply_error w command response body c =
     (case body c of
        (Inl e, d) \<Rightarrow> if is_panic e then (Inl e, d) else send command (response (errorToStatus w (Some e))) d
      | (Inr u, d) \<Rightarrow> (Inr u, d))"

definition response_error :: "32 word \<Rightarrow> byte \<Rightarrow> pvstatus \<Rightarrow> gval" where
  "response_error rid sub st = ChannelResponseError_gval \<lparr>re_RequestID = rid, re_Subcommand = sub, re_Status = st\<rparr>"

text \<open>\<open>err.Error\<close> of an unsupported operation and of arguments of the wrong type.\<close>

definition not_supported :: "world \<Rightarrow> nat \<Rightarrow> 32 word \<Rightarrow> string \<Rightarrow> gerr" where
  "not_supported w ch rid what = OtherError (''channel '' @ quote w (Name w ch) @ '' (ID '' @ int_text 16 (sint rid) @
     '') does not support '' @ what)"

definition arguments :: "world \<Rightarrow> string \<Rightarrow> gval option \<Rightarrow> gerr + pvstructure" where
  "arguments w what data =
     (case data of
        Some (GPVStructure i st) \<Rightarrow> Inr (i, st)
      | _ \<Rightarrow> Inl (OtherError (what @ '' arguments were of type '' @ type_name w data @ '', expected PVStructure'')))"

text \<open>\<open>pvdata.NewPVStructure(out)\<close> and \<open>pvs.FieldDesc()\<close>.\<close>

definition structure_desc :: "gval option \<Rightarrow> gerr + fdesc" where
  "structure_desc out = bindE (NewPVStructure out) (\<lambda>pvs. desc_pv (HStruct False (fst pvs)) (snd pvs))"

section \<open>Monitors of the connection\<close>

text \<open>The function that \<open>handleChannelMonitor\<close> gives to \<open>monitor.New\<close>; it ignores the error of the send.\<close>

definition send_value :: "32 word \<Rightarrow> gval \<Rightarrow> unit sact" where
  "send_value rid value = logged (send APP_CHANNEL_MONITOR (ChannelMonitorResponse_gval
     \<lparr>mr_RequestID = rid, mr_Subcommand = 0, mr_Value = Some value, OverrunBitSet = []\<rparr>))"

text \<open>An operation of a monitor, with the calls of that function it makes.\<close>

definition on_monitor :: "nat \<Rightarrow> (Monitor \<Rightarrow> Monitor) \<Rightarrow> unit sact" where
  "on_monitor i f c =
     (let x = monitors c ! i; m = f (w_monitor x)
      in eachA (send_value (w_request x)) (drop (length (sendValue (w_monitor x))) (sendValue m))
           (c\<lparr>monitors := (monitors c)[i := x\<lparr>w_monitor := m\<rparr>]\<rparr>))"

definition new_monitor :: "32 word \<Rightarrow> pvstructure \<Rightarrow> nat \<Rightarrow> nat sact" where
  "new_monitor rid args nexter c =
     (Inr (length (monitors c)), c\<lparr>monitors := monitors c @
        [\<lparr>w_request = rid, w_nexter = nexter, w_monitor = Monitor_New (snd args), w_alive = True\<rparr>]\<rparr>)"

text \<open>A round of the loop of a monitor that \<open>Next\<close> has returned to.\<close>

definition watch_round :: "world \<Rightarrow> nat \<Rightarrow> unit sact" where
  "watch_round w i c =
     (let x = monitors c ! i;
          (s, m, alive) = Monitor_Watch_round (\<lambda>done s. Some (Nexter_Next w (w_nexter x) done, s))
            ((), w_monitor x, w_alive x)
      in on_monitor i (\<lambda>_. m) (c\<lparr>monitors := (monitors c)[i := x\<lparr>w_alive := alive\<rparr>]\<rparr>))"

section \<open>Get\<close>

definition flagged :: "byte \<Rightarrow> byte \<Rightarrow> bool" where
  "flagged sub flag \<longleftrightarrow> sub AND flag = flag"

text \<open>\<open>out, err := f(); if err != nil \{ return err \}\<close>.\<close>

definition checked :: "'a \<times> gerr option \<Rightarrow> gerr + 'a" where
  "checked r = (case snd r of None \<Rightarrow> Inr (fst r) | Some e \<Rightarrow> Inl e)"

definition get_init :: "world \<Rightarrow> ChannelGetRequest \<Rightarrow> nat \<Rightarrow> unit sact" where
  "get_init w req channel =
     bindA (liftA (arguments w ''Get'' (gq_PVRequest req))) (\<lambda>args.
     bindA (if is_ChannelGetCreator w channel then liftA (CreateChannelGet w channel args)
            else if is_ChannelGeter w channel then retA channel
            else failA (not_supported w channel (gq_ServerChannelID req) ''Get'')) (\<lambda>geter.
     seqA (addRequest (gq_RequestID req) (new_request (Object geter))) (go (GetInitReply req geter))))"

definition get_init_reply :: "world \<Rightarrow> ChannelGetRequest \<Rightarrow> nat \<Rightarrow> unit sact" where
  "get_init_reply w req geter =
     reply_error w APP_CHANNEL_GET (response_error (gq_RequestID req) (gq_Subcommand req))
       (bindA (liftA (checked (ChannelGet w geter False))) (\<lambda>out.
        bindA (liftA (structure_desc out)) (\<lambda>fd.
        send APP_CHANNEL_GET (ChannelGetResponseInit_gval
          \<lparr>ri_RequestID = gq_RequestID req, ri_Subcommand = gq_Subcommand req, ri_Status = zero_status, PVStructureIF = fd\<rparr>))))"

definition get_exec :: "world \<Rightarrow> ChannelGetRequest \<Rightarrow> unit sact" where
  "get_exec w req =
     bindA (ready_request (gq_RequestID req)) (\<lambda>r c.
       case doer (heap c ! r) of
         Object geter \<Rightarrow>
           if is_ChannelGeter w geter then bindA (begin_request r) (\<lambda>ctx. go (GetExec req r geter ctx)) c
           else (Inl (OtherError ''request not for get''), c)
       | Watching i \<Rightarrow> (Inl (OtherError ''request not for get''), c))"

definition get_body :: "world \<Rightarrow> ChannelGetRequest \<Rightarrow> unit sact" where
  "get_body w req =
     reply_error w APP_CHANNEL_GET (response_error (gq_RequestID req) (gq_Subcommand req))
       (bindA (getChannel (gq_ServerChannelID req)) (\<lambda>channel.
          if gq_Subcommand req = CHANNEL_GET_INIT then get_init w req channel else get_exec w req))"

definition get_execution :: "world \<Rightarrow> ChannelGetRequest \<Rightarrow> nat \<Rightarrow> nat \<Rightarrow> nat \<Rightarrow> unit sact" where
  "get_execution w req r geter ctx c =
     (let (respData, err) = ChannelGet w geter (ctx_done c ! ctx) in
      seqA (logged (send APP_CHANNEL_GET (ChannelGetResponse_gval
          \<lparr>gr_RequestID = gq_RequestID req, gr_Subcommand = gq_Subcommand req, gr_Status = errorToStatus w err, gr_Value = respData\<rparr>)))
        (go (Finish r (gq_RequestID req) (flagged (gq_Subcommand req) CHANNEL_GET_DESTROY))) c)"

definition finish_execution :: "nat \<Rightarrow> 32 word \<Rightarrow> bool \<Rightarrow> unit sact" where
  "finish_execution r rid destroy c = (Inr (), end_request r rid destroy c)"

section \<open>Monitor\<close>

definition monitor_init :: "world \<Rightarrow> ChannelMonitorRequest \<Rightarrow> nat \<Rightarrow> unit sact" where
  "monitor_init w req channel =
     bindA (liftA (arguments w ''Monitor'' (mq_PVRequest req))) (\<lambda>args.
     bindA (if is_ChannelMonitorCreator w channel then liftA (CreateChannelMonitor w channel args)
            else failA (not_supported w channel (mq_ServerChannelID req) ''Monitor'')) (\<lambda>nexter.
     bindA (liftA (Nexter_Next w nexter False)) (\<lambda>value.
     bindA (new_monitor (mq_RequestID req) args nexter) (\<lambda>m.
     seqA (on_monitor m (Monitor_Ack (sint (NFree req))))
    (seqA (addRequest (mq_RequestID req) (new_request (Watching m))) (go (MonitorInitReply req m value)))))))"

definition monitor_init_reply :: "world \<Rightarrow> ChannelMonitorRequest \<Rightarrow> nat \<Rightarrow> gval option \<Rightarrow> unit sact" where
  "monitor_init_reply w req m value =
     reply_error w APP_CHANNEL_MONITOR (response_error (mq_RequestID req) (mq_Subcommand req))
       (bindA (liftA (structure_desc value)) (\<lambda>fd.
        seqA (send APP_CHANNEL_MONITOR (ChannelMonitorResponseInit_gval
          \<lparr>ri_RequestID = mq_RequestID req, ri_Subcommand = CHANNEL_MONITOR_INIT, ri_Status = zero_status, PVStructureIF = fd\<rparr>))
          (go (MonitorFirst m value))))"

definition monitor_exec :: "ChannelMonitorRequest \<Rightarrow> unit sact" where
  "monitor_exec req =
     bindA (ready_request (mq_RequestID req)) (\<lambda>r c.
       case doer (heap c ! r) of
         Object x \<Rightarrow> (Inl (OtherError ''request not for monitor''), c)
       | Watching m \<Rightarrow>
           seqA (whenA (flagged (mq_Subcommand req) CHANNEL_MONITOR_PIPELINE_SUPPORT) (on_monitor m (Monitor_Ack (sint (NFree req)))))
          (seqA (whenA (flagged (mq_Subcommand req) CHANNEL_MONITOR_SUBSCRIPTION)
                  (if flagged (mq_Subcommand req) CHANNEL_MONITOR_SUBSCRIPTION_RUN then on_monitor m Monitor_Start
                   else on_monitor m Monitor_Stop))
            (whenA (flagged (mq_Subcommand req) CHANNEL_MONITOR_TERMINATE) (on_monitor m Monitor_Terminate))) c)"

definition monitor_body :: "world \<Rightarrow> ChannelMonitorRequest \<Rightarrow> unit sact" where
  "monitor_body w req =
     reply_error w APP_CHANNEL_MONITOR (response_error (mq_RequestID req) (mq_Subcommand req))
       (bindA (getChannel (mq_ServerChannelID req)) (\<lambda>channel.
          if flagged (mq_Subcommand req) CHANNEL_MONITOR_INIT then monitor_init w req channel else monitor_exec req))"

section \<open>RPC\<close>

text \<open>
  \<open>NewPVAny\<close>: the \<open>PVField\<close> that the data converts to, as the value of the field \<open>Data\<close>. Nil has no
  methods and panics there.
\<close>

fun pvfield_value :: "how \<Rightarrow> gval \<Rightarrow> gval" where
  "pvfield_value (HStruct True i) st = GPVStructure i st"
| "pvfield_value (HStruct False i) st = GPtr (GPVStructure i st)"
| "pvfield_value (HArray fixed short) a = GPVArray fixed short a"
| "pvfield_value (HBounded b) (GPrim named (PVString s)) = GBounded s (word_of_int b)"
| "pvfield_value HNil (GPrim named p) = GNil (GPrim True p)"
| "pvfield_value HNil t = GNil t"
| "pvfield_value h (GPrim named p) = GPtr (GPrim True p)"
| "pvfield_value h t = GPtr t"

definition NewPVAny :: "gval option \<Rightarrow> gerr + gval option" where
  "NewPVAny data = bindE (iface_field data) (\<lambda>f. Inr (map_option (\<lambda>(h, t). pvfield_value h t) f))"

definition rpc_response_init :: "ChannelRPCRequest \<Rightarrow> pvstatus \<Rightarrow> gval" where
  "rpc_response_init req st = ChannelRPCResponseInit_gval
     \<lparr>re_RequestID = rq_RequestID req, re_Subcommand = rq_Subcommand req, re_Status = st\<rparr>"

definition rpc_init :: "world \<Rightarrow> ChannelRPCRequest \<Rightarrow> nat \<Rightarrow> pvstructure \<Rightarrow> unit sact" where
  "rpc_init w req channel args =
     bindA (if is_ChannelRPCCreator w channel then liftA (CreateChannelRPC w channel args)
            else if is_ChannelRPCer w channel then retA channel
            else failA (not_supported w channel (rq_ServerChannelID req) ''RPC'')) (\<lambda>rpcer.
     seqA (addRequest (rq_RequestID req) (new_request (Object rpcer))) (go (RPCInitReply req)))"

definition rpc_init_reply :: "world \<Rightarrow> ChannelRPCRequest \<Rightarrow> unit sact" where
  "rpc_init_reply w req =
     reply_error w APP_CHANNEL_RPC (rpc_response_init req) (send APP_CHANNEL_RPC (rpc_response_init req zero_status))"

definition rpc_exec :: "world \<Rightarrow> ChannelRPCRequest \<Rightarrow> pvstructure \<Rightarrow> unit sact" where
  "rpc_exec w req args =
     bindA (ready_request (rq_RequestID req)) (\<lambda>r c.
       case doer (heap c ! r) of
         Object rpcer \<Rightarrow>
           if is_ChannelRPCer w rpcer then bindA (begin_request r) (\<lambda>ctx. go (RPCExec req args r rpcer ctx)) c
           else (Inl (OtherError ''request not for RPC''), c)
       | Watching i \<Rightarrow> (Inl (OtherError ''request not for RPC''), c))"

definition handleChannelRPCBody :: "world \<Rightarrow> ChannelRPCRequest \<Rightarrow> unit sact" where
  "handleChannelRPCBody w req =
     reply_error w APP_CHANNEL_RPC (rpc_response_init req)
       (bindA (getChannel (rq_ServerChannelID req)) (\<lambda>channel.
        bindA (liftA (arguments w ''RPC'' (rq_PVRequest req))) (\<lambda>args.
          if rq_Subcommand req = CHANNEL_RPC_INIT then rpc_init w req channel args else rpc_exec w req args)))"

definition rpc_execution :: "world \<Rightarrow> ChannelRPCRequest \<Rightarrow> pvstructure \<Rightarrow> nat \<Rightarrow> nat \<Rightarrow> nat \<Rightarrow> unit sact" where
  "rpc_execution w req args r rpcer ctx c =
     (let (respData, err) = ChannelRPC w rpcer args (ctx_done c ! ctx) in
      bindA (liftA (NewPVAny respData)) (\<lambda>data.
      seqA (logged (send APP_CHANNEL_RPC (ChannelRPCResponse_gval
          \<lparr>rr_RequestID = rq_RequestID req, rr_Subcommand = rq_Subcommand req, rr_Status = errorToStatus w err, PVResponseData = data\<rparr>)))
        (go (Finish r (rq_RequestID req) (flagged (rq_Subcommand req) CHANNEL_RPC_DESTROY)))) c)"

section \<open>The other handlers\<close>

definition handleConnectionValidation :: "Message \<Rightarrow> unit sact" where
  "handleConnectionValidation msg =
     bindA (decode_in Decode_ConnectionValidationResponse msg) (\<lambda>resp.
       send APP_CONNECTION_VALIDATED (ConnectionValidated_gval \<lparr>cv_Status = zero_status\<rparr>))"

definition create_response :: "32 word \<Rightarrow> 32 word \<Rightarrow> pvstatus \<Rightarrow> gval" where
  "create_response client server st = CreateChannelResponse_gval
     \<lparr>cr_ClientChannelID = client, cr_ServerChannelID = server, cr_Status = st, AccessRights = 0\<rparr>"

definition error_status :: "string \<Rightarrow> pvstatus" where
  "error_status m = \<lparr>st_Type = 2, st_Message = m, st_CallTree = []\<rparr>"

definition create_one :: "world \<Rightarrow> CreateChannelRequest_Channel \<Rightarrow> gval sact" where
  "create_one w ch c =
     (case createChannel w (cc_ClientChannelID ch) (cc_ChannelName ch) c of
        (Inl e, d) \<Rightarrow> (Inr (create_response (cc_ClientChannelID ch) 0 (errorToStatus w (Some e))), d)
      | (Inr (Some channel), d) \<Rightarrow> (Inr (create_response (cc_ClientChannelID ch) (cc_ClientChannelID ch) zero_status), d)
      | (Inr None, d) \<Rightarrow>
          (Inr (create_response (cc_ClientChannelID ch) 0 (error_status (''unknown channel '' @ quote w (cc_ChannelName ch)))), d))"

definition handleCreateChannelRequest :: "world \<Rightarrow> Message \<Rightarrow> unit sact" where
  "handleCreateChannelRequest w msg =
     bindA (decode_in CreateChannelRequest_PVDecode msg) (\<lambda>req.
     bindA (case req of [ch] \<Rightarrow> create_one w ch | _ \<Rightarrow> retA (create_response 0 0 (error_status ''wrong number of channels'')))
       (send APP_CHANNEL_CREATE))"

definition handleChannelDestroy :: "Message \<Rightarrow> unit sact" where
  "handleChannelDestroy msg =
     bindA (decode_in Decode_DestroyChannel msg) (\<lambda>req.
       if dc_ServerChannelID req \<noteq> dc_ClientChannelID req then retA ()
       else seqA (logged (destroyChannel (dc_ServerChannelID req))) (send APP_CHANNEL_DESTROY (DestroyChannel_gval req)))"

definition handleChannelGet :: "Message \<Rightarrow> unit sact" where
  "handleChannelGet msg = bindA (decode_in ChannelGetRequest_PVDecode msg) (\<lambda>req. go (GetBody req))"

definition handleChannelMonitor :: "Message \<Rightarrow> unit sact" where
  "handleChannelMonitor msg = bindA (decode_in ChannelMonitorRequest_PVDecode msg) (\<lambda>req. go (MonitorBody req))"

definition handleChannelRPC :: "Message \<Rightarrow> unit sact" where
  "handleChannelRPC msg = bindA (decode_in Decode_ChannelRPCRequest msg) (\<lambda>req. go (RPCBody req))"

definition handleRequestCancelDestroy :: "Message \<Rightarrow> unit sact" where
  "handleRequestCancelDestroy msg =
     bindA (decode_in Decode_CancelDestroyRequest msg) (\<lambda>req.
       logged (if MessageCommand (Header msg) = APP_REQUEST_DESTROY then destroyRequestLocked (cd_RequestID req)
               else cancelRequestLocked (cd_RequestID req)))"

definition handleSearchRequest :: "world \<Rightarrow> Message \<Rightarrow> unit sact" where
  "handleSearchRequest w msg =
     bindA (decode_in Decode_SearchRequest msg) (\<lambda>req. on_conn (Search (search w) (providers w) req))"

section \<open>Dispatch and the loop of a connection\<close>

definition serverDispatch :: "world \<Rightarrow> byte \<Rightarrow> (Message \<Rightarrow> unit sact) option" where
  "serverDispatch w = [
     APP_CONNECTION_VALIDATION \<mapsto> handleConnectionValidation,
     APP_CHANNEL_CREATE \<mapsto> handleCreateChannelRequest w,
     APP_CHANNEL_DESTROY \<mapsto> handleChannelDestroy,
     APP_CHANNEL_GET \<mapsto> handleChannelGet,
     APP_CHANNEL_RPC \<mapsto> handleChannelRPC,
     APP_CHANNEL_MONITOR \<mapsto> handleChannelMonitor,
     APP_REQUEST_CANCEL \<mapsto> handleRequestCancelDestroy,
     APP_REQUEST_DESTROY \<mapsto> handleRequestCancelDestroy,
     APP_SEARCH_REQUEST \<mapsto> handleSearchRequest w]"

definition handleServerOnePacket :: "world \<Rightarrow> unit sact" where
  "handleServerOnePacket w =
     bindA (on_conn Next) (\<lambda>msg. case serverDispatch w (MessageCommand (Header msg)) of
        Some f \<Rightarrow> f msg
      | None \<Rightarrow> retA ())"

text \<open>
  What \<open>serve\<close> does before its loop; \<open>bufsize\<close> is the answer of \<open>ReceiveBufferSize\<close>, a socket option
  or 32768. The error of the second message is ignored.
\<close>

definition set_version :: "byte \<Rightarrow> unit conn_act" where
  "set_version v c = (Inr (), c\<lparr>cn_Version := v\<rparr>)"

definition serve_start :: "32 word \<Rightarrow> unit sact" where
  "serve_start bufsize =
     seqA (on_conn (set_version 2))
    (seqA (on_conn (SendCtrl CTRL_SET_BYTE_ORDER 0))
      (logged (send APP_CONNECTION_VALIDATION (ConnectionValidationRequest_gval
        \<lparr>ServerReceiveBufferSize = bufsize, ServerIntrospectionRegistryMaxSize = 0x7fff, AuthNZ = [''anonymous'']\<rparr>))))"

definition run_task :: "world \<Rightarrow> task \<Rightarrow> unit sact" where
  "run_task w t = (case t of
     GetBody req \<Rightarrow> get_body w req
   | MonitorBody req \<Rightarrow> monitor_body w req
   | RPCBody req \<Rightarrow> handleChannelRPCBody w req
   | GetInitReply req geter \<Rightarrow> get_init_reply w req geter
   | MonitorInitReply req m value \<Rightarrow> monitor_init_reply w req m value
   | RPCInitReply req \<Rightarrow> rpc_init_reply w req
   | MonitorFirst m value \<Rightarrow> on_monitor m (Monitor_Send value)
   | GetExec req r geter ctx \<Rightarrow> get_execution w req r geter ctx
   | Finish r rid destroy \<Rightarrow> finish_execution r rid destroy
   | RPCExec req args r rpcer ctx \<Rightarrow> rpc_execution w req args r rpcer ctx)"

definition take_task :: "nat \<Rightarrow> serverConn \<Rightarrow> serverConn" where
  "take_task i c = c\<lparr>tasks := take i (tasks c) @ drop (Suc i) (tasks c)\<rparr>"

text \<open>
  The connection runs until the input ends (\<open>Inl EOF\<close>), a handler or a task returns an error, which
  ends the group of goroutines, or something panics, which ends the program. One step: the loop of
  \<open>serve\<close> handles a message, a task runs, or the loop of a monitor makes a round; each with what the
  application answers then.
\<close>

datatype event = Packet world | Task world nat | Round world nat

fun step_action :: "event \<Rightarrow> unit sact" where
  "step_action (Packet w) c = handleServerOnePacket w c"
| "step_action (Task w i) c = run_task w (tasks c ! i) (take_task i c)"
| "step_action (Round w i) c = watch_round w i c"

fun enabled :: "event \<Rightarrow> serverConn \<Rightarrow> bool" where
  "enabled (Packet w) c = True"
| "enabled (Task w i) c = (i < length (tasks c))"
| "enabled (Round w i) c = (i < length (monitors c))"

datatype outcome = Serving | Closed | Failed gerr | Crashed panic

fun panic_of :: "gerr \<Rightarrow> panic" where
  "panic_of (Panic p) = p"
| "panic_of (FieldFailed n e) = panic_of e"
| "panic_of e = NilDereference"

definition outcome_of :: "event \<Rightarrow> gerr + unit \<Rightarrow> outcome" where
  "outcome_of ev r = (case r of
     Inr u \<Rightarrow> Serving
   | Inl e \<Rightarrow> if is_panic e then Crashed (panic_of e)
       else if e = EOF \<and> (case ev of Packet w \<Rightarrow> True | _ \<Rightarrow> False) then Closed else Failed e)"

inductive srv_step :: "serverConn \<Rightarrow> event \<Rightarrow> outcome \<Rightarrow> serverConn \<Rightarrow> bool" where
  step: "srv_step c ev (outcome_of ev r) d" if "enabled ev c" and "step_action ev c = (r, d)"

inductive_simps srv_step_iff: "srv_step c ev out d"

text \<open>The states of a connection that is being served.\<close>

inductive served :: "byte list \<Rightarrow> 32 word \<Rightarrow> serverConn \<Rightarrow> bool" for input bufsize where
  start: "served input bufsize c" if "serve_start bufsize (newConn input) = (Inr (), c)"
| onward: "served input bufsize d" if "served input bufsize c" and "srv_step c ev Serving d"

end
