(* ===== verification/PV_Serving.thy ===== *)
theory PV_Serving
  imports PV_Server
begin

text \<open>
  What a served connection keeps, whatever the client sends, the application answers and the
  scheduler picks: the request table stays well formed and no request is executed twice at a time.
\<close>

section \<open>The invariant\<close>

text \<open>The request object that a task executes, with the ID the request had then.\<close>

fun execution :: "task \<Rightarrow> (nat \<times> 32 word) option" where
  "execution (GetExec req r geter ctx) = Some (r, gq_RequestID req)"
| "execution (RPCExec req args r rpcer ctx) = Some (r, rq_RequestID req)"
| "execution (Finish r rid destroy) = Some (r, rid)"
| "execution t = None"

definition executing :: "task list \<Rightarrow> (nat \<times> 32 word) list" where
  "executing ts = List.map_filter execution ts"

lemma executing_simps [simp]:
  "executing [] = []" "executing (ts @ us) = executing ts @ executing us"
  "executing (t # ts) = (case execution t of None \<Rightarrow> executing ts | Some x \<Rightarrow> x # executing ts)"
  by (simp_all add: executing_def List.map_filter_def split: option.splits)

lemma executing_distinct:
  assumes "distinct (map fst (executing ts))" and "i < length ts" "j < length ts"
    and "execution (ts ! i) = Some (r, a)" "execution (ts ! j) = Some (r, b)"
  shows "j = i"
proof -
  have less: False if "i < j" "j < length ts" "execution (ts ! i) = Some (r, a)" "execution (ts ! j) = Some (r, b)" for i j a b
  proof -
    have i: "ts = take i ts @ ts ! i # drop (Suc i) ts" using that by (intro id_take_nth_drop) simp
    have "ts ! j \<in> set (drop (Suc i) ts)" using that by (auto simp: in_set_conv_nth intro!: exI [of _ "j - Suc i"])
    then have "(r, b) \<in> set (executing (drop (Suc i) ts))" using that(4) by (force simp: executing_def List.map_filter_def)
    then have "r \<in> fst ` set (executing (drop (Suc i) ts))" by force
    moreover have "distinct (map fst (executing (take i ts @ ts ! i # drop (Suc i) ts)))" using assms(1) i by simp
    ultimately show False using that(3) by simp
  qed
  from less [of i j a b] less [of j i b a] assms(2-) show ?thesis by (cases i j rule: linorder_cases) auto
qed

text \<open>
  A request that is being executed is not ready, no other task executes it, and the only ID it can
  be registered under is the one it was executed by.
\<close>

definition exec_ok :: "serverConn \<Rightarrow> nat \<times> 32 word \<Rightarrow> bool" where
  "exec_ok c x \<longleftrightarrow> fst x < length (heap c) \<and> status (heap c ! fst x) \<noteq> READY \<and>
     (\<forall>rid. requests c rid = Some (fst x) \<longrightarrow> rid = snd x)"

definition execs_ok :: "serverConn \<Rightarrow> bool" where
  "execs_ok c \<longleftrightarrow> distinct (map fst (executing (tasks c))) \<and> (\<forall>x \<in> set (executing (tasks c)). exec_ok c x)"

definition server_ok :: "serverConn \<Rightarrow> bool" where
  "server_ok c \<longleftrightarrow> table_ok c \<and> execs_ok c"

definition keeps :: "'a sact \<Rightarrow> bool" where
  "keeps m \<longleftrightarrow> (\<forall>c r d. server_ok c \<longrightarrow> m c = (r, d) \<longrightarrow> server_ok d)"

named_theorems keeps_rules

lemma keepsI: "(\<And>c r d. server_ok c \<Longrightarrow> m c = (r, d) \<Longrightarrow> server_ok d) \<Longrightarrow> keeps m"
  by (simp add: keeps_def)

lemma keepsD: "keeps m \<Longrightarrow> server_ok c \<Longrightarrow> m c = (r, d) \<Longrightarrow> server_ok d"
  by (auto simp: keeps_def)

text \<open>Most actions touch neither the requests nor the executions.\<close>

lemma server_ok_cong:
  assumes "requests d = requests c" and "heap d = heap c" and "executing (tasks d) = executing (tasks c)"
  shows "server_ok d = server_ok c"
  using assms by (simp add: server_ok_def execs_ok_def exec_ok_def table_ok_def)

definition quiet :: "'a sact \<Rightarrow> bool" where
  "quiet m \<longleftrightarrow> (\<forall>c r d. m c = (r, d) \<longrightarrow>
     requests d = requests c \<and> heap d = heap c \<and> executing (tasks d) = executing (tasks c))"

lemma quietI:
  "(\<And>c r d. m c = (r, d) \<Longrightarrow> requests d = requests c \<and> heap d = heap c \<and> executing (tasks d) = executing (tasks c)) \<Longrightarrow> quiet m"
  by (simp add: quiet_def)

lemma quietD:
  assumes "quiet m" and "m c = (r, d)"
  shows "requests d = requests c" "heap d = heap c" "executing (tasks d) = executing (tasks c)"
  using assms by (auto simp: quiet_def)

lemma quiet_keeps: "quiet m \<Longrightarrow> keeps m"
proof (rule keepsI)
  fix c r d assume "quiet m" "server_ok c" "m c = (r, d)"
  then show "server_ok d" using quietD [of m c r d] server_ok_cong [of d c] by simp
qed

lemma keeps_bind [keeps_rules]:
  assumes "keeps m" and "\<And>x. keeps (f x)"
  shows "keeps (bindA m f)"
proof (rule keepsI)
  fix c r d assume "server_ok c" "bindA m f c = (r, d)"
  then show "server_ok d"
    by (cases "m c") (auto simp: bindA_def dest: keepsD [OF assms(1)] keepsD [OF assms(2)] split: sum.splits)
qed

lemma keeps_seq [keeps_rules]: "keeps m \<Longrightarrow> keeps n \<Longrightarrow> keeps (seqA m n)"
  using keeps_bind [of m "\<lambda>_. n"] by (simp add: seqA_def [abs_def])

lemma keeps_leaves [keeps_rules]: "keeps (retA x)" "keeps (failA e)" "keeps (liftA q)" "keeps (\<lambda>c. (q, c))"
  by (simp_all add: keeps_def retA_def failA_def liftA_def)

lemma keeps_when [keeps_rules]: "keeps m \<Longrightarrow> keeps (whenA b m)"
  by (auto simp: keeps_def whenA_def)

lemma keeps_logged [keeps_rules]: "keeps m \<Longrightarrow> keeps (logged m)"
  by (auto simp: keeps_def logged_def split: prod.splits sum.splits if_splits)

lemma keeps_each [keeps_rules]: "(\<And>x. keeps (f x)) \<Longrightarrow> keeps (eachA f xs)"
proof (induction xs)
  case (Cons x xs)
  have "eachA f (x # xs) = seqA (f x) (eachA f xs)" by (rule ext) simp
  with Cons show ?case by (simp add: keeps_seq)
qed (auto simp: keeps_def)

lemma quiet_on_conn: "quiet (on_conn m)"
  by (rule quietI) (auto simp: on_conn_def split: prod.splits)

lemma quiet_send: "quiet (send command payload)"
  unfolding send_def by (rule quiet_on_conn)

lemma keeps_io [keeps_rules]: "keeps (on_conn m)" "keeps (send command payload)" "keeps (decode_in dc msg)"
  unfolding send_def decode_in_def by (rule quiet_keeps, rule quiet_on_conn)+

lemma keeps_reply [keeps_rules]:
  assumes "keeps body"
  shows "keeps (reply_error w command response body)"
proof (rule keepsI)
  fix c r d assume ok: "server_ok c" "reply_error w command response body c = (r, d)"
  obtain q u where body: "body c = (q, u)" by (cases "body c")
  with ok assms have "server_ok u" by (auto dest: keepsD)
  with ok(2) body show "server_ok d"
    by (auto simp: reply_error_def dest: keepsD [OF keeps_io(2)] split: sum.splits if_splits)
qed

lemma quiet_channels: "quiet (createChannel w cid name)" "quiet (destroyChannel cid)" "quiet (getChannel cid)"
  "quiet (create_one w ch)"
  by (rule quietI, auto simp: createChannel_def destroyChannel_def getChannel_def create_one_def Let_def
      split: option.splits prod.splits sum.splits if_splits)+

lemma quiet_go: "execution t = None \<Longrightarrow> quiet (go t)"
  by (rule quietI) (auto simp: go_def)

lemma keeps_state [keeps_rules]:
  "keeps (createChannel w cid name)" "keeps (destroyChannel cid)" "keeps (getChannel cid)" "keeps (create_one w ch)"
  by (rule quiet_keeps, rule quiet_channels)+

lemma keeps_new_monitor [keeps_rules]: "keeps (new_monitor rid args nexter)"
  by (rule quiet_keeps, rule quietI) (auto simp: new_monitor_def)

lemma keeps_go [keeps_rules]: "execution t = None \<Longrightarrow> keeps (go t)"
  by (rule quiet_keeps [OF quiet_go])

lemma keeps_monitors: "keeps m \<Longrightarrow> keeps (\<lambda>c. m (c\<lparr>monitors := f c\<rparr>))"
proof (rule keepsI)
  fix c r d assume m: "keeps m" "server_ok c" "m (c\<lparr>monitors := f c\<rparr>) = (r, d)"
  have "server_ok (c\<lparr>monitors := f c\<rparr>)" using m(2) server_ok_cong [of "c\<lparr>monitors := f c\<rparr>" c] by simp
  with m show "server_ok d" by (auto dest: keepsD)
qed

lemma keeps_on_monitor [keeps_rules]: "keeps (on_monitor i f)"
proof (rule keepsI)
  fix c r d assume ok: "server_ok c" "on_monitor i f c = (r, d)"
  define m where "m = f (w_monitor (monitors c ! i))"
  have "keeps (eachA (send_value (w_request (monitors c ! i))) (drop (length (sendValue (w_monitor (monitors c ! i)))) (sendValue m)))"
    unfolding send_value_def by (intro keeps_rules)
  from keepsD [OF keeps_monitors [OF this, of "\<lambda>_. (monitors c)[i := (monitors c ! i)\<lparr>w_monitor := m\<rparr>]"] ok(1)] ok(2)
  show "server_ok d" by (auto simp: on_monitor_def Let_def m_def)
qed

lemma keeps_watch_round [keeps_rules]: "keeps (watch_round w i)"
proof (rule keepsI)
  fix c r d assume ok: "server_ok c" "watch_round w i c = (r, d)"
  then obtain m x where "on_monitor i (\<lambda>_. m) (c\<lparr>monitors := x\<rparr>) = (r, d)"
    by (auto simp: watch_round_def Let_def split: prod.splits)
  with keepsD [OF keeps_monitors [OF keeps_on_monitor [of i "\<lambda>_. m"], of "\<lambda>_. x"] ok(1)]
  show "server_ok d" by blast
qed

section \<open>The operations on requests\<close>

text \<open>A fresh request object is not executed by any task.\<close>

lemma keeps_add [keeps_rules]: "keeps (addRequest rid (new_request d))"
proof (rule keepsI)
  fix c r e assume ok: "server_ok c" and add: "addRequest rid (new_request d) c = (r, e)"
  show "server_ok e"
  proof (cases "requests c rid")
    case None
    then obtain u where u: "addRequest rid (new_request d) c = (Inr (), u)" "table_ok u"
      using add_live [of c rid "new_request d"] ok by (auto simp: server_ok_def new_request_def)
    then have e: "e = c\<lparr>heap := heap c @ [new_request d], requests := (requests c)(rid \<mapsto> length (heap c))\<rparr>"
      using add None by (auto simp: addRequest_def Let_def)
    have "execs_ok c" using ok by (simp add: server_ok_def)
    then have "execs_ok e" by (fastforce simp: e execs_ok_def exec_ok_def nth_append)
    then show ?thesis using u add by (simp add: server_ok_def)
  next
    case (Some k)
    then have "status (heap c ! k) \<noteq> DESTROYED" using ok table_okD [of c rid k] by (simp add: server_ok_def)
    with add ok Some show ?thesis by (auto simp: addRequest_def Let_def)
  qed
qed

text \<open>Raising the status of a request, or taking it out of the table, does not make any request ready.\<close>

lemma execs_ok_less:
  assumes "execs_ok c" and "tasks d = tasks c" and "length (heap d) = length (heap c)"
    and "\<And>j. status (heap d ! j) = READY \<Longrightarrow> status (heap c ! j) = READY"
    and "\<And>rid k. requests d rid = Some k \<Longrightarrow> requests c rid = Some k"
  shows "execs_ok d"
  using assms unfolding execs_ok_def exec_ok_def by fastforce

lemma max_not_READY: "max s CANCELLED \<noteq> READY" "max s DESTROYED \<noteq> READY"
  by (cases s; simp add: max_def status_less_defs)+

lemma call_cancel_tasks [simp]: "tasks (call_cancel k c) = tasks c" "tasks (update_request k f c) = tasks c"
  by (simp_all add: call_cancel_def update_request_def split: option.splits)

lemma keeps_cancel [keeps_rules]: "keeps (cancelRequestLocked rid)"
proof (rule keepsI)
  fix c r d assume ok: "server_ok c" and do_cancel: "cancelRequestLocked rid c = (r, d)"
  show "server_ok d"
  proof (cases "requests c rid")
    case (Some k)
    obtain u where "cancelRequestLocked rid c = (Inr (), u)" "table_ok u"
      using cancel_live [OF _ Some] ok by (auto simp: server_ok_def)
    moreover have "execs_ok d"
      using do_cancel Some ok table_okD [of c rid k]
      by (intro execs_ok_less [of c d])
        (auto simp: cancelRequestLocked_def server_ok_def max_not_READY split: if_splits)
    ultimately show ?thesis using do_cancel by (simp add: server_ok_def)
  qed (use do_cancel ok in \<open>simp add: cancelRequestLocked_def\<close>)
qed

lemma keeps_destroy [keeps_rules]: "keeps (destroyRequestLocked rid)"
proof (rule keepsI)
  fix c r d assume ok: "server_ok c" and do_destroy: "destroyRequestLocked rid c = (r, d)"
  show "server_ok d"
  proof (cases "requests c rid")
    case (Some k)
    obtain u where "destroyRequestLocked rid c = (Inr (), u)" "table_ok u"
      using destroy_live [OF _ Some] ok by (auto simp: server_ok_def)
    moreover have "execs_ok d"
      using do_destroy Some ok table_okD [of c rid k]
      by (intro execs_ok_less [of c d])
        (auto simp: destroyRequestLocked_def Let_def server_ok_def max_not_READY split: if_splits)
    ultimately show ?thesis using do_destroy by (simp add: server_ok_def)
  qed (use do_destroy ok in \<open>simp add: destroyRequestLocked_def\<close>)
qed

text \<open>An execution begins on a ready request, which no task executes, and its task is added.\<close>

lemma begin_go_ok:
  assumes ok: "server_ok c" and k: "requests c rid = Some k" and ready: "status (heap c ! k) = READY"
    and t: "\<And>ctx. execution (t ctx) = Some (k, rid)"
    and run: "bindA (begin_request k) (\<lambda>ctx. go (t ctx)) c = (r, d)"
  shows "server_ok d"
proof -
  have table: "table_ok c" and execs: "execs_ok c" using ok by (simp_all add: server_ok_def)
  obtain u where u: "begin_request k c = (Inr (length (ctx_done c)), u)" "table_ok u" using begin_live [OF table k] by blast
  then have d: "d = u\<lparr>tasks := tasks u @ [t (length (ctx_done c))]\<rparr>" using run by (simp add: bindA_def go_def)
  have u_eq: "requests u = requests c" "tasks u = tasks c" "length (heap u) = length (heap c)"
    "\<And>j. status (heap u ! j) = (if j = k then REQUEST_IN_PROGRESS else status (heap c ! j))"
    using u(1) table_okD [OF table k] by (auto simp: begin_request_def with_cancel_def act_simps)
  have "k \<notin> fst ` set (executing (tasks c))" using execs ready by (auto simp: execs_ok_def exec_ok_def)
  moreover have "\<forall>rid'. requests c rid' = Some k \<longrightarrow> rid' = rid" using table_ok_inj [OF table k] by blast
  ultimately have new: "distinct (map fst (executing (tasks c) @ [(k, rid)]))" "exec_ok d (k, rid)"
    using execs table_okD [OF table k] by (auto simp: execs_ok_def exec_ok_def d u_eq)
  have "exec_ok d x" if "x \<in> set (executing (tasks c))" for x
    using that execs by (auto simp: execs_ok_def exec_ok_def d u_eq)
  with new have "execs_ok d" by (simp add: execs_ok_def d u_eq t)
  moreover have "table_ok d" using u(2) by (simp add: d table_ok_def)
  ultimately show ?thesis by (simp add: server_ok_def)
qed

lemma ready_request_cases:
  obtains e where "ready_request rid c = (Inl e, c)"
  | k where "ready_request rid c = (Inr k, c)" "requests c rid = Some k" "status (heap c ! k) = READY"
proof (cases "requests c rid")
  case None
  then show ?thesis by (intro that(1)) (simp add: ready_request_def)
next
  case (Some k)
  then show ?thesis by (cases "status (heap c ! k) = READY") (auto simp: ready_request_def intro: that)
qed

lemma keeps_get_exec [keeps_rules]: "keeps (get_exec w req)"
proof (rule keepsI)
  fix c r d assume ok: "server_ok c" and run: "get_exec w req c = (r, d)"
  show "server_ok d"
  proof (cases rule: ready_request_cases [of "gq_RequestID req" c])
    case (2 k)
    show ?thesis
    proof (cases "doer (heap c ! k)")
      case (Object g)
      show ?thesis
      proof (cases "is_ChannelGeter w g")
        case True
        then show ?thesis
          using run 2 Object by (intro begin_go_ok [OF ok 2(2,3), where t = "\<lambda>ctx. GetExec req k g ctx"]) (simp_all add: get_exec_def bindA_Inr)
      qed (use run ok 2 Object in \<open>simp add: get_exec_def bindA_Inr\<close>)
    qed (use run ok 2 in \<open>simp add: get_exec_def bindA_Inr\<close>)
  qed (use run ok in \<open>auto simp: get_exec_def bindA_def\<close>)
qed

lemma keeps_rpc_exec [keeps_rules]: "keeps (rpc_exec w req args)"
proof (rule keepsI)
  fix c r d assume ok: "server_ok c" and run: "rpc_exec w req args c = (r, d)"
  show "server_ok d"
  proof (cases rule: ready_request_cases [of "rq_RequestID req" c])
    case (2 k)
    show ?thesis
    proof (cases "doer (heap c ! k)")
      case (Object g)
      show ?thesis
      proof (cases "is_ChannelRPCer w g")
        case True
        then show ?thesis
          using run 2 Object by (intro begin_go_ok [OF ok 2(2,3), where t = "\<lambda>ctx. RPCExec req args k g ctx"]) (simp_all add: rpc_exec_def bindA_Inr)
      qed (use run ok 2 Object in \<open>simp add: rpc_exec_def bindA_Inr\<close>)
    qed (use run ok 2 in \<open>simp add: rpc_exec_def bindA_Inr\<close>)
  qed (use run ok in \<open>auto simp: rpc_exec_def bindA_def\<close>)
qed

lemma keeps_monitor_exec [keeps_rules]: "keeps (monitor_exec req)"
proof (rule keepsI)
  fix c r d assume ok: "server_ok c" and run: "monitor_exec req c = (r, d)"
  show "server_ok d"
  proof (cases rule: ready_request_cases [of "mq_RequestID req" c])
    case (2 k)
    show ?thesis
    proof (cases "doer (heap c ! k)")
      case (Watching m)
      let ?run = "seqA (whenA (flagged (mq_Subcommand req) CHANNEL_MONITOR_PIPELINE_SUPPORT) (on_monitor m (Monitor_Ack (sint (NFree req)))))
          (seqA (whenA (flagged (mq_Subcommand req) CHANNEL_MONITOR_SUBSCRIPTION)
                  (if flagged (mq_Subcommand req) CHANNEL_MONITOR_SUBSCRIPTION_RUN then on_monitor m Monitor_Start
                   else on_monitor m Monitor_Stop))
            (whenA (flagged (mq_Subcommand req) CHANNEL_MONITOR_TERMINATE) (on_monitor m Monitor_Terminate)))"
      have "keeps ?run" by (auto intro!: keeps_rules)
      moreover have "?run c = (r, d)" using run 2 Watching by (simp add: monitor_exec_def bindA_Inr)
      ultimately show ?thesis using ok by (auto dest: keepsD)
    qed (use run ok 2 in \<open>auto simp: monitor_exec_def bindA_Inr\<close>)
  qed (use run ok in \<open>auto simp: monitor_exec_def bindA_def\<close>)
qed

lemma keeps_bodies [keeps_rules]:
  "keeps (get_body w greq)" "keeps (monitor_body w mreq)" "keeps (handleChannelRPCBody w rreq)"
  "keeps (get_init_reply w greq g)" "keeps (monitor_init_reply w mreq m v)" "keeps (rpc_init_reply w rreq)"
proof -
  show "keeps (get_init_reply w greq g)" "keeps (monitor_init_reply w mreq m v)" "keeps (rpc_init_reply w rreq)"
    unfolding get_init_reply_def monitor_init_reply_def rpc_init_reply_def by (auto intro!: keeps_rules)
  have "keeps (get_init w greq ch)" for ch unfolding get_init_def by (auto intro!: keeps_rules)
  then show "keeps (get_body w greq)" unfolding get_body_def by (auto intro!: keeps_rules)
  have "keeps (monitor_init w mreq ch)" for ch unfolding monitor_init_def by (auto intro!: keeps_rules)
  then show "keeps (monitor_body w mreq)" unfolding monitor_body_def by (auto intro!: keeps_rules)
  have "keeps (rpc_init w rreq ch args)" for ch args unfolding rpc_init_def by (auto intro!: keeps_rules)
  then show "keeps (handleChannelRPCBody w rreq)" unfolding handleChannelRPCBody_def by (auto intro!: keeps_rules)
qed

text \<open>The packets.\<close>

lemma keeps_handlers [keeps_rules]:
  "keeps (handleConnectionValidation msg)" "keeps (handleCreateChannelRequest w msg)" "keeps (handleChannelDestroy msg)"
  "keeps (handleChannelGet msg)" "keeps (handleChannelMonitor msg)" "keeps (handleChannelRPC msg)"
  "keeps (handleRequestCancelDestroy msg)" "keeps (handleSearchRequest w msg)"
  unfolding handleConnectionValidation_def handleCreateChannelRequest_def handleChannelDestroy_def handleChannelGet_def
    handleChannelMonitor_def handleChannelRPC_def handleRequestCancelDestroy_def handleSearchRequest_def
  by (auto intro!: keeps_rules split: list.splits)

lemma keeps_packet: "keeps (handleServerOnePacket w)"
  unfolding handleServerOnePacket_def serverDispatch_def
  by (auto intro!: keeps_rules split: option.splits if_splits)

text \<open>
  The end of an execution: its task is gone, so the request object may become ready; the ID that is
  taken out may be registered for another request by now.
\<close>

lemma end_request_simps:
  "length (heap (end_request r rid destroy c)) = length (heap c)"
  "r < length (heap c) \<Longrightarrow> status (heap (end_request r rid destroy c) ! j) =
     (if j = r then if destroy then DESTROYED else READY else status (heap c ! j))"
  "requests (end_request r rid destroy c) = (if destroy then (requests c)(rid := None) else requests c)"
  "tasks (end_request r rid destroy c) = tasks c"
  by (auto simp: end_request_def)

lemma end_request_ok:
  assumes ok: "server_ok c" and r: "r < length (heap c)" and only: "\<forall>rid'. requests c rid' = Some r \<longrightarrow> rid' = rid"
    and gone: "r \<notin> fst ` set (executing (tasks c))"
  shows "server_ok (end_request r rid destroy c)"
proof -
  let ?d = "end_request r rid destroy c"
  have table: "table_ok c" and execs: "execs_ok c" using ok by (simp_all add: server_ok_def)
  have "table_ok ?d"
  proof (rule table_okI)
    fix rid' k assume "requests ?d rid' = Some k"
    then have "requests c rid' = Some k" "\<not> (destroy \<and> k = r)"
      using only by (auto simp: end_request_simps split: if_splits)
    with table_okD [OF table this(1)] show "k < length (heap ?d) \<and> status (heap ?d ! k) \<noteq> DESTROYED"
      by (simp add: end_request_simps r)
  next
    fix rid1 rid2 k assume "requests ?d rid1 = Some k" "requests ?d rid2 = Some k"
    then show "rid1 = rid2" using table_ok_inj [OF table] by (auto simp: end_request_simps split: if_splits)
  qed
  moreover have "exec_ok ?d x" if "x \<in> set (executing (tasks c))" for x
  proof -
    have "exec_ok c x" "fst x \<noteq> r" using that execs gone by (auto simp: execs_ok_def)
    then show ?thesis by (auto simp: exec_ok_def end_request_simps r)
  qed
  ultimately show ?thesis using execs by (simp add: server_ok_def execs_ok_def end_request_simps)
qed

lemma take_task_split:
  assumes "i < length (tasks c)"
  obtains ts us where "tasks c = ts @ tasks c ! i # us" "tasks (take_task i c) = ts @ us"
  using id_take_nth_drop [OF assms] by (auto simp: take_task_def)

lemma take_task_ok:
  assumes "server_ok c" and "i < length (tasks c)"
  shows "server_ok (take_task i c)"
    and "execution (tasks c ! i) = Some (r, rid) \<Longrightarrow> r < length (heap (take_task i c)) \<and> status (heap (take_task i c) ! r) \<noteq> READY \<and>
      (\<forall>rid'. requests (take_task i c) rid' = Some r \<longrightarrow> rid' = rid) \<and> r \<notin> fst ` set (executing (tasks (take_task i c)))"
proof -
  obtain ts us where ts: "tasks c = ts @ tasks c ! i # us" "tasks (take_task i c) = ts @ us"
    using take_task_split [OF assms(2)] .
  have same: "requests (take_task i c) = requests c" "heap (take_task i c) = heap c" by (simp_all add: take_task_def)
  have execs: "execs_ok c" using assms(1) by (simp add: server_ok_def)
  have ex: "executing (tasks c) = executing ts @ executing (tasks c ! i # us)" using ts(1) executing_simps(2) by metis
  have "distinct (map fst (executing (ts @ us)))" using execs by (auto simp: execs_ok_def ex split: option.splits)
  moreover have "exec_ok (take_task i c) x" if "x \<in> set (executing (ts @ us))" for x
    using that execs by (auto simp: execs_ok_def exec_ok_def ex same split: option.splits)
  ultimately show "server_ok (take_task i c)"
    using assms(1) by (simp add: server_ok_def execs_ok_def ts(2) table_ok_def same)
  assume t: "execution (tasks c ! i) = Some (r, rid)"
  with execs show "r < length (heap (take_task i c)) \<and> status (heap (take_task i c) ! r) \<noteq> READY \<and>
      (\<forall>rid'. requests (take_task i c) rid' = Some r \<longrightarrow> rid' = rid) \<and> r \<notin> fst ` set (executing (tasks (take_task i c)))"
    by (auto simp: execs_ok_def exec_ok_def ex same ts(2))
qed

text \<open>An execution that has replied goes on as the task that ends it.\<close>

lemma hand_over_ok:
  assumes ok: "server_ok c" and r: "r < length (heap c)" "status (heap c ! r) \<noteq> READY"
    and only: "\<forall>rid'. requests c rid' = Some r \<longrightarrow> rid' = rid" and gone: "r \<notin> fst ` set (executing (tasks c))"
    and run: "seqA (logged (send command payload)) (go (Finish r rid destroy)) c = (q, d)"
  shows "server_ok d"
proof -
  obtain p u where u: "logged (send command payload) c = (p, u)" by (cases "logged (send command payload) c")
  have quiet: "quiet (logged (send command payload))"
    by (rule quietI) (auto simp: logged_def dest: quietD [OF quiet_send] split: prod.splits sum.splits if_splits)
  have same: "requests u = requests c" "heap u = heap c" "executing (tasks u) = executing (tasks c)"
    by (rule quietD [OF quiet u])+
  then have u_ok: "server_ok u" using ok server_ok_cong [of u c] by simp
  show ?thesis
  proof (cases p)
    case (Inr x)
    then have d: "d = u\<lparr>tasks := tasks u @ [Finish r rid destroy]\<rparr>" using run by (simp add: seqA_def bindA_def u go_def)
    have "exec_ok d x" if "x \<in> set (executing (tasks u))" for x
      using that u_ok by (auto simp: server_ok_def execs_ok_def exec_ok_def d)
    moreover have "exec_ok d (r, rid)" using r only by (simp add: exec_ok_def d same)
    ultimately show ?thesis using u_ok gone by (simp add: server_ok_def execs_ok_def table_ok_def d same)
  qed (use run u u_ok in \<open>simp add: seqA_def bindA_def\<close>)
qed

lemma run_task_ok:
  assumes ok: "server_ok c" and i: "i < length (tasks c)" and run: "run_task w (tasks c ! i) (take_task i c) = (q, d)"
  shows "server_ok d"
proof -
  note taken = take_task_ok [OF ok i]
  show ?thesis
  proof (cases "tasks c ! i")
    case (GetExec req r geter ctx)
    with run taken(2) [of r "gq_RequestID req"] show ?thesis
      by (auto simp: run_task_def get_execution_def Let_def split: prod.splits intro: hand_over_ok [OF taken(1)])
  next
    case (RPCExec req args r rpcer ctx)
    obtain data err where call: "ChannelRPC w rpcer args (ctx_done (take_task i c) ! ctx) = (data, err)" by fastforce
    show ?thesis
    proof (cases "NewPVAny data")
      case (Inr v)
      with run RPCExec call taken(2) [of r "rq_RequestID req"] show ?thesis
        by (auto simp: run_task_def rpc_execution_def Let_def liftA_def bindA_Inr intro: hand_over_ok [OF taken(1)])
    qed (use run RPCExec call taken(1) in \<open>simp add: run_task_def rpc_execution_def liftA_def bindA_def\<close>)
  next
    case (Finish r rid destroy)
    with run taken(2) [of r rid] show ?thesis
      by (auto simp: run_task_def finish_execution_def intro: end_request_ok [OF taken(1)])
  next
    case (MonitorFirst m v)
    with run keepsD [OF keeps_on_monitor taken(1)] show ?thesis by (simp add: run_task_def)
  qed (use run keepsD [OF keeps_bodies(1) taken(1)] keepsD [OF keeps_bodies(2) taken(1)] keepsD [OF keeps_bodies(3) taken(1)]
      keepsD [OF keeps_bodies(4) taken(1)] keepsD [OF keeps_bodies(5) taken(1)] keepsD [OF keeps_bodies(6) taken(1)]
      in \<open>auto simp: run_task_def\<close>)
qed

lemma step_ok:
  assumes "server_ok c" and "srv_step c ev out d"
  shows "server_ok d"
  using assms keepsD [OF keeps_packet assms(1)] keepsD [OF keeps_watch_round assms(1)] run_task_ok [OF assms(1)]
  by (cases ev) (auto simp: srv_step_iff)

lemma serve_start_ok: "serve_start bufsize (newConn input) = (r, c) \<Longrightarrow> server_ok c"
proof -
  have "server_ok (newConn input)" by (simp add: server_ok_def execs_ok_def table_ok_def newConn_def)
  moreover have "keeps (serve_start bufsize)" unfolding serve_start_def by (intro keeps_rules)
  ultimately show "serve_start bufsize (newConn input) = (r, c) \<Longrightarrow> server_ok c" by (auto dest: keepsD)
qed

lemma served_ok: "served input bufsize c \<Longrightarrow> server_ok c"
  by (induction rule: served.induct) (auto dest: serve_start_ok step_ok)

end
