(* ===== verification/PV_Session.thy ===== *)
theory PV_Session
  imports PV_Serving "HOL-Library.Sublist"
begin

text \<open>
  What a client gets: the greeting, and the exchanges of a session, from the bytes of a request to the
  bytes of its reply, through framing, decoding, dispatch, the tasks and the connection's encoder.
\<close>

section \<open>Connections at a point of their streams\<close>

text \<open>
  A connection of a client that sends with the least significant byte first: \<open>rest\<close> is still to be
  read, \<open>out\<close> has been written.
\<close>

definition at :: "serverConn \<Rightarrow> byte list \<Rightarrow> byte list \<Rightarrow> bool" where
  "at c rest out \<longleftrightarrow> (\<exists>e o'. Connection c = \<lparr>cn_Version = 2, Direction = FLAG_FROM_SERVER, cn_enc = e,
     cn_dec = \<lparr>dbuf = rest, dorder = o', dcbs = [], ducbs = False, dcbsi = 0\<rparr>, forceByteOrder = False\<rparr> \<and>
     eorder e = LittleEndian \<and> ebuf e = out)"

definition reply :: "byte \<Rightarrow> byte list \<Rightarrow> byte list" where
  "reply cmd bs = frame LittleEndian 2 FLAG_FROM_SERVER cmd bs"

definition call :: "byte \<Rightarrow> byte list \<Rightarrow> byte list" where
  "call cmd bs = frame LittleEndian 2 FLAG_FROM_CLIENT cmd bs"

lemma at_cong: "Connection d = Connection c \<Longrightarrow> at d rest out = at c rest out"
  by (simp add: at_def)

lemma send_at:
  assumes "at c rest out" and "encoding LittleEndian g = Inr bs"
  shows "\<exists>k. send cmd g c = (Inr (), c\<lparr>Connection := k\<rparr>) \<and> at (c\<lparr>Connection := k\<rparr>) rest (out @ reply cmd bs)"
proof -
  have order: "eorder (cn_enc (Connection c)) = LittleEndian" using assms(1) by (auto simp: at_def)
  obtain k where k: "SendApp cmd (Coded (encode_struct g)) (Connection c) = (Inr (), k)"
    "wrote (app_frame (Connection c) cmd bs) (Connection c) k"
    using SendApp_encoding [of "Connection c" g bs cmd] assms(2) order by auto
  have "app_frame (Connection c) cmd bs = reply cmd bs"
    using assms(1) by (auto simp: at_def app_frame_def reply_def header_flags_def)
  with k assms(1) have "at (c\<lparr>Connection := k\<rparr>) rest (out @ reply cmd bs)" by (auto simp: at_def wrote_def)
  with k(1) show ?thesis by (auto simp: send_def on_conn_def)
qed

lemma logged_send_at:
  assumes "at c rest out" and "encoding LittleEndian g = Inr bs \<or> encoding LittleEndian g = Inl e \<and> \<not> is_panic e"
  shows "\<exists>k. logged (send cmd g) c = (Inr (), c\<lparr>Connection := k\<rparr>) \<and>
    at (c\<lparr>Connection := k\<rparr>) rest (out @ (case encoding LittleEndian g of Inr bs \<Rightarrow> reply cmd bs | Inl e \<Rightarrow> []))"
proof (cases "encoding LittleEndian g")
  case (Inr bs')
  with send_at [OF assms(1), of g bs' cmd] show ?thesis by (auto simp: logged_def)
next
  case (Inl e')
  have order: "eorder (cn_enc (Connection c)) = LittleEndian" using assms(1) by (auto simp: at_def)
  obtain k where k: "SendApp cmd (Coded (encode_struct g)) (Connection c) = (Inl e', k)" "wrote [] (Connection c) k"
    using SendApp_wrote [where c = "Connection c" and g = g and cmd = cmd] Inl order by auto
  then have "at (c\<lparr>Connection := k\<rparr>) rest out" using assms(1) by (auto simp: at_def wrote_def)
  with k(1) Inl assms(2) show ?thesis by (auto simp: logged_def send_def on_conn_def)
qed

text \<open>A message that arrives is decoded and handled.\<close>

lemma next_at:
  assumes c: "at c (call cmd bs @ rest) out" and cmd: "cmd \<noteq> APP_ECHO" "length bs < 2 ^ 31"
  obtains msg k where "on_conn Next c = (Inr msg, c\<lparr>Connection := k\<rparr>)" "MessageCommand (Header msg) = cmd" "Data msg = bs"
    "msg_reader msg = None" "cn_dec k = decoder LittleEndian rest" "at (c\<lparr>Connection := k\<rparr>) rest out"
proof -
  obtain en o' where con: "Connection c = \<lparr>cn_Version = 2, Direction = FLAG_FROM_SERVER, cn_enc = en,
       cn_dec = \<lparr>dbuf = call cmd bs @ rest, dorder = o', dcbs = [], ducbs = False, dcbsi = 0\<rparr>, forceByteOrder = False\<rparr>"
    and en: "eorder en = LittleEndian" "ebuf en = out"
    using c by (auto simp: at_def)
  let ?k = "(Connection c)\<lparr>cn_dec := decoder LittleEndian rest\<rparr>"
  have "agree (Connection c) LittleEndian FLAG_FROM_CLIENT" by (simp add: agree_def con)
  with Next_frame [of "Connection c" LittleEndian 2 FLAG_FROM_CLIENT cmd bs rest] cmd
  obtain msg where msg: "Next (Connection c) = (Inr msg, ?k)" "MessageCommand (Header msg) = cmd" "Data msg = bs" "msg_reader msg = None"
    by (auto simp: con call_def decoder_def)
  moreover have "at (c\<lparr>Connection := ?k\<rparr>) rest out" by (simp add: at_def con decoder_def en)
  ultimately show thesis by (intro that [of msg ?k]) (simp_all add: on_conn_def)
qed

lemma decode_in_at:
  assumes "cn_dec (Connection c) = decoder bo rest" and "Data msg = bs" and "msg_reader msg = None"
    and "dc (decoder bo bs) = (r, decoder bo us)"
  shows "decode_in dc msg c = (r, c)"
  using assms by (simp add: decode_in_def on_conn_def Message_Decode_def decoder_def)

lemma packet_at:
  assumes c: "at c (call cmd (ebuf e) @ rest) out" and cmd: "cmd \<noteq> APP_ECHO" "length (ebuf e) < 2 ^ 31"
    and coded: "codes m dc x" "m (encoder LittleEndian) = (Inr (), e)"
    and dispatch: "serverDispatch w cmd = Some f" and f: "\<And>msg. MessageCommand (Header msg) = cmd \<Longrightarrow> f msg = bindA (decode_in dc msg) h"
  shows "\<exists>k. at (c\<lparr>Connection := k\<rparr>) rest out \<and> handleServerOnePacket w c = h x (c\<lparr>Connection := k\<rparr>)"
proof -
  obtain msg k where msg: "on_conn Next c = (Inr msg, c\<lparr>Connection := k\<rparr>)" "MessageCommand (Header msg) = cmd" "Data msg = ebuf e"
    "msg_reader msg = None" "cn_dec k = decoder LittleEndian rest" "at (c\<lparr>Connection := k\<rparr>) rest out"
    using next_at [OF c cmd] .
  have "dc (decoder LittleEndian (ebuf e)) = (Inr x, decoder LittleEndian [])"
    using coded unfolding codes_def by (metis append_Nil2 fst_conv snd_conv)
  then have "decode_in dc msg (c\<lparr>Connection := k\<rparr>) = (Inr x, c\<lparr>Connection := k\<rparr>)"
    using msg by (intro decode_in_at) simp_all
  then have "handleServerOnePacket w c = h x (c\<lparr>Connection := k\<rparr>)"
    using msg dispatch f [OF msg(2)] by (simp add: handleServerOnePacket_def bindA_def)
  with msg(6) show ?thesis by blast
qed

section \<open>The greeting\<close>

definition greeting :: "32 word \<Rightarrow> byte list" where
  "greeting bufsize = [0xCA, 2, 0x41, 2, 0, 0, 0, 0, 0xCA, 2, 0x40, 1, 0x11, 0, 0, 0] @ put_uint LittleEndian 4 bufsize @
     [0xFF, 0x7F, 1, 9] @ bytes_of_string ''anonymous''"

lemma size_wire_small: "n < 254 \<Longrightarrow> size_wire bo (len_word n) = [word_of_nat n]"
proof -
  assume n: "n < 254"
  then have "sint (len_word n) = int n" by (intro sint_len_word) (simp add: len_ok_def)
  moreover have "ucast (word_of_nat n :: 64 word) = (word_of_nat n :: byte)"
    using n by (simp add: unsigned_of_nat take_bit_nat_eq_self)
  ultimately show ?thesis using n by (simp add: size_wire_def len_word_def)
qed

lemma greeting_encoding:
  "encoding LittleEndian (ConnectionValidationRequest_gval
     \<lparr>ServerReceiveBufferSize = bufsize, ServerIntrospectionRegistryMaxSize = 0x7fff, AuthNZ = [''anonymous'']\<rparr>) =
   Inr (put_uint LittleEndian 4 bufsize @ [0xFF, 0x7F, 1, 9] @ bytes_of_string ''anonymous'')"
proof -
  have "le_bytes 2 (0x7fff :: 16 word) = [0xFF, 0x7F]" by code_simp
  moreover have "enc_field (''AuthNZ'', [], strings_gval False [''anonymous'']) s =
      (Inr False, emit ([1, 9] @ bytes_of_string ''anonymous'') s)" if "\<not> eucbs s" for s
    using that enc_prims [of False PVString "[''anonymous'']"]
    by (simp add: enc_field_simps strings_gval_def enc_pv.simps act_simps without_ecbs_def array_len_enc_def PVSize_enc
        record_changed_def string_wire_def size_wire_small)
  ultimately show ?thesis
    by (simp add: encoding_def encode_struct_fields ConnectionValidationRequest_gval_def act_simps enc_field_plain
        record_changed_def scalar_enc_defs)
qed

lemma serve_start_at:
  "\<exists>k. serve_start bufsize (newConn input) = (Inr (), (newConn input)\<lparr>Connection := k\<rparr>) \<and>
    at ((newConn input)\<lparr>Connection := k\<rparr>) input (greeting bufsize)"
proof -
  have words: "le_bytes 4 (0 :: 32 word) = [0, 0, 0, 0]" "le_bytes 4 (17 :: 32 word) = [0x11, 0, 0, 0]" by code_simp+
  let ?c = "(newConn input)\<lparr>Connection := (New FLAG_FROM_SERVER input)\<lparr>cn_Version := 2,
      cn_enc := emit (ctrl_frame LittleEndian 2 0x41 CTRL_SET_BYTE_ORDER 0) (encoder LittleEndian)\<rparr>\<rparr>"
  have ctrl: "seqA (on_conn (set_version 2)) (on_conn (SendCtrl CTRL_SET_BYTE_ORDER 0)) (newConn input) = (Inr (), ?c)"
    by (simp add: newConn_def New_def on_conn_def set_version_def SendCtrl_frame act_simps header_flags_def)
  have "at ?c input (ctrl_frame LittleEndian 2 0x41 CTRL_SET_BYTE_ORDER 0)" by (simp add: at_def newConn_def New_def)
  from logged_send_at [OF this disjI1 [OF greeting_encoding [of bufsize]], of APP_CONNECTION_VALIDATION] ctrl
  show ?thesis
    by (auto simp: serve_start_def seqA_def bindA_def greeting_encoding greeting_def reply_def ctrl_frame_def frame_def words
        split: prod.splits sum.splits)
qed

text \<open>Serving a connection begins by fixing the byte order and asking for validation: the bytes are
  these, whatever the client sends, and when the client has sent nothing the connection is closed
  without another byte.\<close>

theorem serve_greeting:
  "\<exists>c d. serve_start bufsize (newConn input) = (Inr (), c) \<and> serve_start bufsize (newConn []) = (Inr (), d) \<and>
    at c input (greeting bufsize) \<and> at d [] (greeting bufsize) \<and> srv_step d (Packet w) Closed d"
proof -
  have "srv_step d (Packet w) Closed d" if "at d [] out" for d out
    using that by (auto simp: srv_step_iff handleServerOnePacket_def bindA_def on_conn_def outcome_of_def at_def Next.simps
        next_round_def on_dec_def PVAccessHeader_PVDecode_def read_byte_def)
  with serve_start_at [of bufsize input] serve_start_at [of bufsize "[]"] show ?thesis by blast
qed

section \<open>Exchanges\<close>

text \<open>What runs when the scheduler picks these events, one after the other.\<close>

fun run_events :: "event list \<Rightarrow> serverConn \<Rightarrow> outcome \<times> serverConn" where
  "run_events [] c = (Serving, c)"
| "run_events (ev # evs) c =
     (if \<not> enabled ev c then run_events evs c
      else case step_action ev c of (r, d) \<Rightarrow>
        if outcome_of ev r = Serving then run_events evs d else (outcome_of ev r, d))"

lemma run_events_served: "served input bufsize c \<Longrightarrow> run_events evs c = (Serving, d) \<Longrightarrow> served input bufsize d"
proof (induction evs arbitrary: c)
  case (Cons ev evs)
  show ?case
  proof (cases "enabled ev c")
    case True
    obtain r u where u: "step_action ev c = (r, u)" by (cases "step_action ev c")
    with True Cons.prems(2) have "outcome_of ev r = Serving" "run_events evs u = (Serving, d)" by (auto split: if_splits)
    moreover from this u True have "srv_step c ev Serving u" using srv_step.step [OF True u] by simp
    ultimately show ?thesis using Cons served.onward by blast
  qed (use Cons in simp)
qed simp

lemma run_events_step:
  assumes "enabled ev c" and "step_action ev c = (Inr (), d)"
  shows "run_events (ev # evs) c = run_events evs d"
  using assms by (simp add: outcome_of_def)

text \<open>The reply to the creation of a channel.\<close>

definition created_wire :: "32 word \<Rightarrow> byte list" where
  "created_wire cid = put_uint LittleEndian 4 cid @ put_uint LittleEndian 4 cid @ [0xFF, 0, 0]"

lemma ok_status_wire: "status_wire bo zero_status = [0xFF]"
  "\<not> status_failed zero_status"
  by (simp_all add: status_wire_def zero_status_def status_failed_def)

lemma created_encoding: "encoding LittleEndian (create_response cid cid zero_status) = Inr (created_wire cid)"
proof -
  have "le_bytes 2 (0 :: 16 word) = [0, 0]" by code_simp
  then show ?thesis
    by (simp add: encoding_def encode_struct_fields create_response_def CreateChannelResponse_gval_def act_simps enc_field_plain
      enc_field_status record_changed_def scalar_enc_defs PVStatus_enc ok_status_wire created_wire_def)
qed

lemma create_exchange:
  assumes c: "at c (call APP_CHANNEL_CREATE (ebuf e) @ rest) out"
    and e: "CreateChannelRequest_PVEncode [\<lparr>cc_ClientChannelID = cid, cc_ChannelName = name\<rparr>] (encoder LittleEndian) = (Inr (), e)"
    and len: "length (ebuf e) < 2 ^ 31" "length name \<le> 500"
    and new: "channels c cid = None"
    and ch: "found_channel (map (\<lambda>i. CreateChannel (providers w ! i) name) (arrivals w)) None = Some ch"
  shows "\<exists>k. handleServerOnePacket w c = (Inr (), c\<lparr>Connection := k, channels := (channels c)(cid \<mapsto> Some ch)\<rparr>) \<and>
    at (c\<lparr>Connection := k\<rparr>) rest (out @ reply APP_CHANNEL_CREATE (created_wire cid))"
proof -
  let ?req = "[\<lparr>cc_ClientChannelID = cid, cc_ChannelName = name\<rparr>]"
  let ?h = "\<lambda>req. bindA (case req of [ch] \<Rightarrow> create_one w ch | _ \<Rightarrow> retA (create_response 0 0 (error_status ''wrong number of channels'')))
       (send APP_CHANNEL_CREATE)"
  have codes: "codes (CreateChannelRequest_PVEncode ?req) CreateChannelRequest_PVDecode ?req"
    by (rule trips_codes, rule trip_create_request) (simp_all add: len)
  obtain k where k: "at (c\<lparr>Connection := k\<rparr>) rest out" "handleServerOnePacket w c = ?h ?req (c\<lparr>Connection := k\<rparr>)"
    using packet_at [OF c _ len(1) codes e, of w "handleCreateChannelRequest w" ?h]
    by (auto simp: serverDispatch_def handleCreateChannelRequest_def)
  let ?c = "c\<lparr>Connection := k, channels := (channels c)(cid \<mapsto> Some ch)\<rparr>"
  have "at ?c rest out" using k(1) at_cong [of ?c "c\<lparr>Connection := k\<rparr>"] by simp
  from send_at [OF this created_encoding] obtain k' where
    "send APP_CHANNEL_CREATE (create_response cid cid zero_status) ?c = (Inr (), ?c\<lparr>Connection := k'\<rparr>)"
    "at (?c\<lparr>Connection := k'\<rparr>) rest (out @ reply APP_CHANNEL_CREATE (created_wire cid))" by blast
  moreover have "?h ?req (c\<lparr>Connection := k\<rparr>) = send APP_CHANNEL_CREATE (create_response cid cid zero_status) ?c"
    using new ch by (simp add: bindA_def create_one_def createChannel_def Let_def)
  ultimately show ?thesis using k(2) at_cong [of "?c\<lparr>Connection := k'\<rparr>" "c\<lparr>Connection := k'\<rparr>"]
    by (intro exI [of _ k']) simp
qed

text \<open>The reply to the initialization of a get: a description can always be encoded.\<close>

definition init_wire :: "32 word \<Rightarrow> byte \<Rightarrow> fdesc \<Rightarrow> byte list" where
  "init_wire rid sub fd = put_uint LittleEndian 4 rid @ [sub, 0xFF] @ fdesc_wire LittleEndian fd"

lemma init_encoding: "encoding LittleEndian (ChannelGetResponseInit_gval
    \<lparr>ri_RequestID = rid, ri_Subcommand = sub, ri_Status = zero_status, PVStructureIF = fd\<rparr>) = Inr (init_wire rid sub fd)"
proof -
  have "enc_field (n, [], GDesc fd) s = bindA record_changed (\<lambda>_. bindA (FieldDesc_PVEncode fd) (\<lambda>_. retA False)) s" for n s
  proof -
    have "enc_pv HDirect (GDesc fd) = FieldDesc_PVEncode fd" by (rule ext) (simp add: enc_pv.simps)
    then show ?thesis by (simp add: enc_field_simps)
  qed
  then show ?thesis
    by (simp add: encoding_def encode_struct_fields ChannelGetResponseInit_gval_def act_simps enc_field_plain enc_field_status
      record_changed_def scalar_enc_defs PVStatus_enc ok_status_wire FieldDesc_enc init_wire_def)
qed

text \<open>A get message becomes a task.\<close>

lemma get_packet:
  assumes c: "at c (call APP_CHANNEL_GET (ebuf e) @ rest) out"
    and e: "ChannelGetRequest_PVEncode req (encoder LittleEndian) = (Inr (), e)" and len: "length (ebuf e) < 2 ^ 31"
    and ok: "if gq_Subcommand req AND CHANNEL_GET_INIT = CHANNEL_GET_INIT then any_ok (gq_PVRequest req) else gq_PVRequest req = None"
  shows "\<exists>k. handleServerOnePacket w c = (Inr (), c\<lparr>Connection := k, tasks := tasks c @ [GetBody req]\<rparr>) \<and>
    at (c\<lparr>Connection := k\<rparr>) rest out"
proof -
  have codes: "codes (ChannelGetRequest_PVEncode req) ChannelGetRequest_PVDecode req"
    by (rule trips_codes, rule trip_get_request) (rule ok)
  show ?thesis
    using packet_at [OF c _ len codes e, of w handleChannelGet "\<lambda>req. go (GetBody req)"]
    by (auto simp: serverDispatch_def handleChannelGet_def go_def)
qed

text \<open>The two bodies and the execution of a get.\<close>

lemma get_body_init:
  assumes ch: "channels c (gq_ServerChannelID req) = Some (Some ch)"
    and sub: "gq_Subcommand req = CHANNEL_GET_INIT" and args: "gq_PVRequest req = Some (GPVStructure i st)"
    and can: "is_ChannelGeter w ch" "\<not> is_ChannelGetCreator w ch" and new: "requests c (gq_RequestID req) = None"
  shows "get_body w req c = (Inr (), c\<lparr>heap := heap c @ [new_request (Object ch)],
      requests := (requests c)(gq_RequestID req \<mapsto> length (heap c)), tasks := tasks c @ [GetInitReply req ch]\<rparr>)"
  using assms by (simp add: get_body_def reply_error_def getChannel_def get_init_def arguments_def addRequest_def go_def
      liftA_def bindA_def seqA_def retA_def)

lemma get_init_reply_at:
  assumes c: "at c rest out" and sub: "gq_Subcommand req = CHANNEL_GET_INIT"
    and val: "ChannelGet w ch False = (v, None)" "structure_desc v = Inr fd"
  shows "\<exists>k. get_init_reply w req ch c = (Inr (), c\<lparr>Connection := k\<rparr>) \<and>
    at (c\<lparr>Connection := k\<rparr>) rest (out @ reply APP_CHANNEL_GET (init_wire (gq_RequestID req) CHANNEL_GET_INIT fd))"
proof -
  obtain k where "send APP_CHANNEL_GET (ChannelGetResponseInit_gval \<lparr>ri_RequestID = gq_RequestID req,
        ri_Subcommand = CHANNEL_GET_INIT, ri_Status = zero_status, PVStructureIF = fd\<rparr>) c = (Inr (), c\<lparr>Connection := k\<rparr>)"
    and "at (c\<lparr>Connection := k\<rparr>) rest (out @ reply APP_CHANNEL_GET (init_wire (gq_RequestID req) CHANNEL_GET_INIT fd))"
    using send_at [OF c init_encoding] by blast
  then show ?thesis using val sub
    by (intro exI [of _ k]) (simp add: get_init_reply_def reply_error_def liftA_def bindA_def checked_def)
qed

lemma get_body_exec:
  assumes ch: "channels c (gq_ServerChannelID req) = Some (Some ch)" and sub: "gq_Subcommand req \<noteq> CHANNEL_GET_INIT"
    and r: "requests c (gq_RequestID req) = Some r" "r < length (heap c)" "status (heap c ! r) = READY"
      "doer (heap c ! r) = Object g" and can: "is_ChannelGeter w g"
  shows "get_body w req c = (Inr (), c\<lparr>ctx_done := ctx_done c @ [False],
     heap := (heap c)[r := (heap c ! r)\<lparr>status := REQUEST_IN_PROGRESS, cancel := Some (length (ctx_done c))\<rparr>],
     tasks := tasks c @ [GetExec req r g (length (ctx_done c))]\<rparr>)"
  using assms by (simp add: get_body_def reply_error_def getChannel_def bindA_def get_exec_def ready_request_def
      begin_request_def with_cancel_def update_request_def go_def)

text \<open>The goroutine of a get sends one response and then ends the execution.\<close>

lemma get_execution_at:
  assumes c: "at c rest out" and call: "ChannelGet w g (ctx_done c ! ctx) = (v, err)"
    and bs: "encoding LittleEndian (ChannelGetResponse_gval \<lparr>gr_RequestID = gq_RequestID req, gr_Subcommand = gq_Subcommand req,
        gr_Status = errorToStatus w err, gr_Value = v\<rparr>) = Inr bs"
  shows "\<exists>k. get_execution w req r g ctx c = (Inr (), c\<lparr>Connection := k,
      tasks := tasks c @ [Finish r (gq_RequestID req) (flagged (gq_Subcommand req) CHANNEL_GET_DESTROY)]\<rparr>) \<and>
    at (c\<lparr>Connection := k\<rparr>) rest (out @ reply APP_CHANNEL_GET bs)"
  using logged_send_at [OF c disjI1 [OF bs], of APP_CHANNEL_GET] bs
  by (auto simp: get_execution_def call seqA_def bindA_def go_def)

section \<open>A session\<close>

definition get_request :: "32 word \<Rightarrow> 32 word \<Rightarrow> byte \<Rightarrow> gval option \<Rightarrow> ChannelGetRequest" where
  "get_request cid rid sub args =
     \<lparr>gq_ServerChannelID = cid, gq_RequestID = rid, gq_Subcommand = sub, gq_PVRequest = args\<rparr>"

lemma run_events_append: "run_events (evs @ evs') c =
    (case run_events evs c of (Serving, d) \<Rightarrow> run_events evs' d | (out, d) \<Rightarrow> (out, d))"
  by (induction evs arbitrary: c) (auto split: prod.splits outcome.splits)

text \<open>The connection of the session, with the one channel.\<close>

definition session :: "conn \<Rightarrow> 32 word \<Rightarrow> nat \<Rightarrow> task list \<Rightarrow> request list \<Rightarrow> (32 word \<rightharpoonup> nat) \<Rightarrow> bool list \<Rightarrow> serverConn" where
  "session k cid ch t h q x = \<lparr>requests = q, heap = h, ctx_done = x, Connection = k,
     channels = [cid \<mapsto> Some ch], monitors = [], tasks = t\<rparr>"

lemma session_at: "at d rest out \<Longrightarrow> at (session (Connection d) cid ch t h q x) rest out"
  by (simp add: at_def session_def)

lemma session_Connection [simp]: "Connection (session k cid ch t h q x) = k"
  by (simp add: session_def)

text \<open>
  One exchange of a get: the channel \<open>ch\<close> that the providers have under the name, what it answers and
  how that is described, the three messages of the client and the two replies.
\<close>

definition get_exchange :: "world \<Rightarrow> string \<Rightarrow> nat \<Rightarrow> gval option \<Rightarrow> fdesc \<Rightarrow> 32 word \<Rightarrow> 32 word \<Rightarrow> byte \<Rightarrow> pvstructure \<Rightarrow>
    estate \<Rightarrow> estate \<Rightarrow> estate \<Rightarrow> byte list \<Rightarrow> bool" where
  "get_exchange w name ch v fd cid rid sub args e1 e2 e3 bs \<longleftrightarrow>
     found_channel (map (\<lambda>i. CreateChannel (providers w ! i) name) (arrivals w)) None = Some ch \<and>
     is_ChannelGeter w ch \<and> \<not> is_ChannelGetCreator w ch \<and> ChannelGet w ch False = (v, None) \<and> structure_desc v = Inr fd \<and>
     CreateChannelRequest_PVEncode [\<lparr>cc_ClientChannelID = cid, cc_ChannelName = name\<rparr>] (encoder LittleEndian) = (Inr (), e1) \<and>
     length (ebuf e1) < 2 ^ 31 \<and> length name \<le> 500 \<and>
     ChannelGetRequest_PVEncode (get_request cid rid CHANNEL_GET_INIT (Some (GPVStructure (fst args) (snd args)))) (encoder LittleEndian) =
       (Inr (), e2) \<and>
     length (ebuf e2) < 2 ^ 31 \<and> any_ok (Some (GPVStructure (fst args) (snd args))) \<and>
     ChannelGetRequest_PVEncode (get_request cid rid sub None) (encoder LittleEndian) = (Inr (), e3) \<and> length (ebuf e3) < 2 ^ 31 \<and>
     \<not> flagged sub CHANNEL_GET_INIT \<and> \<not> flagged sub CHANNEL_GET_DESTROY \<and>
     encoding LittleEndian (ChannelGetResponse_gval
        \<lparr>gr_RequestID = rid, gr_Subcommand = sub, gr_Status = zero_status, gr_Value = v\<rparr>) = Inr bs"

definition client_input :: "estate \<Rightarrow> estate \<Rightarrow> estate \<Rightarrow> byte list" where
  "client_input e1 e2 e3 = call APP_CHANNEL_CREATE (ebuf e1) @ call APP_CHANNEL_GET (ebuf e2) @ call APP_CHANNEL_GET (ebuf e3)"

text \<open>Up to the point where the get is being executed.\<close>

lemma session_running:
  assumes "get_exchange w name ch v fd cid rid sub args e1 e2 e3 bs"
  shows "\<exists>c k. serve_start bufsize (newConn (client_input e1 e2 e3 @ extra)) = (Inr (), c) \<and>
     run_events [Packet w, Packet w, Task w 0, Task w 0, Packet w, Task w 0] c = (Serving, session k cid ch
       [GetExec (get_request cid rid sub None) 0 ch 0]
       [\<lparr>doer = Object ch, cancel = Some 0, status = REQUEST_IN_PROGRESS\<rparr>] [rid \<mapsto> 0] [False]) \<and>
     at (session k cid ch [] [] Map.empty []) extra (greeting bufsize @ reply APP_CHANNEL_CREATE (created_wire cid) @ reply APP_CHANNEL_GET (init_wire rid CHANNEL_GET_INIT fd))"
proof -
  obtain i st where args: "args = (i, st)" by fastforce
  note hyps = assms [unfolded get_exchange_def args fst_conv snd_conv]
  have ch: "found_channel (map (\<lambda>i. CreateChannel (providers w ! i) name) (arrivals w)) None = Some ch"
    and can: "is_ChannelGeter w ch" "\<not> is_ChannelGetCreator w ch" using hyps by blast+
  let ?input = "client_input e1 e2 e3 @ extra"
  let ?i3 = "call APP_CHANNEL_GET (ebuf e3) @ extra"
  let ?r2 = "get_request cid rid CHANNEL_GET_INIT (Some (GPVStructure i st))" and ?r3 = "get_request cid rid sub None"
  let ?st = "\<lambda>k t h q x. session k cid ch t h q x"
  let ?o1 = "greeting bufsize @ reply APP_CHANNEL_CREATE (created_wire cid)"
  let ?o3 = "?o1 @ reply APP_CHANNEL_GET (init_wire rid CHANNEL_GET_INIT fd)"
  let ?h = "[new_request (Object ch)]" and ?q = "[rid \<mapsto> 0 :: nat]"
  note req = get_request_def
  obtain k0 where k0: "serve_start bufsize (newConn ?input) = (Inr (), (newConn ?input)\<lparr>Connection := k0\<rparr>)"
    "at ((newConn ?input)\<lparr>Connection := k0\<rparr>) ?input (greeting bufsize)" using serve_start_at by blast
  let ?c0 = "(newConn ?input)\<lparr>Connection := k0\<rparr>"
  obtain k1 where k1: "handleServerOnePacket w ?c0 = (Inr (), ?st k1 [] [] Map.empty [])"
    "at (?c0\<lparr>Connection := k1\<rparr>) (call APP_CHANNEL_GET (ebuf e2) @ ?i3) ?o1"
    using create_exchange [OF k0(2) [unfolded client_input_def append.assoc], of cid name w ch] hyps by (auto simp: newConn_def session_def client_input_def)
  have at1: "at (?st k1 t h q x) (call APP_CHANNEL_GET (ebuf e2) @ ?i3) ?o1" for t h q x using session_at [OF k1(2)] by simp
  obtain k2 where k2: "handleServerOnePacket w (?st k1 [] [] Map.empty []) = (Inr (), ?st k2 [GetBody ?r2] [] Map.empty [])"
    "at (?st k2 [] [] Map.empty []) ?i3 ?o1"
    using get_packet [of "?st k1 [] [] Map.empty []" e2 ?i3 ?o1 ?r2 w] at1 hyps by (auto simp: session_def req)
  have k3': "get_body w ?r2 (?st k2 [] [] Map.empty []) = (Inr (), ?st k2 [GetInitReply ?r2 ch] ?h ?q [])"
    using get_body_init [of "?st k2 [] [] Map.empty []" ?r2 ch i st w] hyps by (auto simp: session_def req)
  have at2: "at (?st k2 [] ?h ?q []) ?i3 ?o1" using session_at [OF k2(2)] by simp
  obtain k3 where k3: "get_init_reply w ?r2 ch (?st k2 [] ?h ?q []) = (Inr (), ?st k3 [] ?h ?q [])" "at (?st k3 [] ?h ?q []) ?i3 ?o3"
    using get_init_reply_at [OF at2, of ?r2 w ch v fd] hyps by (auto simp: session_def req)
  have at3: "at (?st k3 t h q x) ?i3 ?o3" for t h q x using session_at [OF k3(2)] by simp
  obtain k4 where k4: "handleServerOnePacket w (?st k3 [] ?h ?q []) = (Inr (), ?st k4 [GetBody ?r3] ?h ?q [])" "at (?st k4 [] ?h ?q []) extra ?o3"
    using get_packet [of "?st k3 [] ?h ?q []" e3 extra ?o3 ?r3 w] at3 hyps by (auto simp: session_def req flagged_def)
  have "sub \<noteq> CHANNEL_GET_INIT" using hyps by (auto simp: flagged_def)
  then have k5: "get_body w ?r3 (?st k4 [] ?h ?q []) = (Inr (), ?st k4 [GetExec ?r3 0 ch 0]
      [\<lparr>doer = Object ch, cancel = Some 0, status = REQUEST_IN_PROGRESS\<rparr>] ?q [False])"
    using get_body_exec [of "?st k4 [] ?h ?q []" ?r3 ch 0 ch w] can by (simp add: session_def req new_request_def)
  have "run_events [Packet w, Packet w, Task w 0, Task w 0, Packet w, Task w 0] ?c0 = (Serving, ?st k4 [GetExec ?r3 0 ch 0]
      [\<lparr>doer = Object ch, cancel = Some 0, status = REQUEST_IN_PROGRESS\<rparr>] ?q [False])"
    using k1(1) k2(1) k3' k3(1) k4(1) k5 by (simp add: outcome_of_def take_task_def run_task_def session_def)
  with k0(1) session_at [OF k4(2)] show ?thesis by auto
qed

text \<open>Up to the point where it has been answered, and to the end.\<close>

lemma session_replied:
  assumes "get_exchange w name ch v fd cid rid sub args e1 e2 e3 bs"
  shows "\<exists>c k. serve_start bufsize (newConn (client_input e1 e2 e3)) = (Inr (), c) \<and>
     run_events ([Packet w, Packet w, Task w 0, Task w 0, Packet w, Task w 0] @ [Task w 0]) c = (Serving, session k cid ch
       [Finish 0 rid False] [\<lparr>doer = Object ch, cancel = Some 0, status = REQUEST_IN_PROGRESS\<rparr>] [rid \<mapsto> 0] [False]) \<and>
     at (session k cid ch [] [] Map.empty []) [] (greeting bufsize @ reply APP_CHANNEL_CREATE (created_wire cid) @
       reply APP_CHANNEL_GET (init_wire rid CHANNEL_GET_INIT fd) @ reply APP_CHANNEL_GET bs)"
proof -
  let ?r3 = "get_request cid rid sub None"
  let ?h = "[\<lparr>doer = Object ch, cancel = Some 0, status = REQUEST_IN_PROGRESS\<rparr>]"
  let ?out = "greeting bufsize @ reply APP_CHANNEL_CREATE (created_wire cid) @ reply APP_CHANNEL_GET (init_wire rid CHANNEL_GET_INIT fd)"
  obtain c k where c: "serve_start bufsize (newConn (client_input e1 e2 e3)) = (Inr (), c)"
    and run: "run_events [Packet w, Packet w, Task w 0, Task w 0, Packet w, Task w 0] c =
      (Serving, session k cid ch [GetExec ?r3 0 ch 0] ?h [rid \<mapsto> 0] [False])"
    and at: "at (session k cid ch [] [] Map.empty []) [] ?out"
    using session_running [OF assms, of bufsize "[]"] by auto
  have at': "at (session k cid ch [] ?h [rid \<mapsto> 0] [False]) [] ?out" using session_at [OF at] by simp
  obtain k6 where k6: "get_execution w ?r3 0 ch 0 (session k cid ch [] ?h [rid \<mapsto> 0] [False]) =
      (Inr (), session k6 cid ch [Finish 0 rid False] ?h [rid \<mapsto> 0] [False])"
    "at (session k6 cid ch [] ?h [rid \<mapsto> 0] [False]) [] (?out @ reply APP_CHANNEL_GET bs)"
    using get_execution_at [OF at', of w ch 0 v None ?r3 bs 0] assms
    by (auto simp: session_def get_request_def get_exchange_def)
  have "run_events ([Packet w, Packet w, Task w 0, Task w 0, Packet w, Task w 0] @ [Task w 0]) c =
      (Serving, session k6 cid ch [Finish 0 rid False] ?h [rid \<mapsto> 0] [False])"
    using run k6(1) by (simp only: run_events_append) (simp add: outcome_of_def take_task_def run_task_def session_def)
  with c session_at [OF k6(2)] show ?thesis by (intro exI [of _ c] exI [of _ k6]) simp
qed

section \<open>Conversations\<close>

text \<open>
  A client that waits: its script says which bytes it must have received before it sends the next
  message. A conversation interleaves the client with the connection in any order; the loop of
  \<open>serve\<close> blocks while there is nothing to read.
\<close>

type_synonym script = "(byte list \<times> byte list) list"

definition unread :: "serverConn \<Rightarrow> byte list" where
  "unread c = dbuf (cn_dec (Connection c))"

definition written :: "serverConn \<Rightarrow> byte list" where
  "written c = ebuf (cn_enc (Connection c))"

definition arrive :: "byte list \<Rightarrow> serverConn \<Rightarrow> serverConn" where
  "arrive bs c = (let k = Connection c in c\<lparr>Connection := k\<lparr>cn_dec := (cn_dec k)\<lparr>dbuf := unread c @ bs\<rparr>\<rparr>\<rparr>)"

inductive talk_step :: "world \<Rightarrow> serverConn \<times> script \<Rightarrow> outcome \<Rightarrow> serverConn \<times> script \<Rightarrow> bool" for w where
  says: "prefix awaited (written c) \<Longrightarrow> talk_step w (c, (awaited, msg) # sc) Serving (arrive msg c, sc)"
| reads: "unread c \<noteq> [] \<Longrightarrow> srv_step c (Packet w) out d \<Longrightarrow> talk_step w (c, sc) out (d, sc)"
| runs: "srv_step c (Task w i) out d \<Longrightarrow> talk_step w (c, sc) out (d, sc)"
| rounds: "srv_step c (Round w i) out d \<Longrightarrow> talk_step w (c, sc) out (d, sc)"

inductive_cases talk_stepE: "talk_step w (c, sc) out y"

text \<open>\<open>n\<close> steps after each of which the connection is still served.\<close>

inductive talks :: "world \<Rightarrow> serverConn \<times> script \<Rightarrow> nat \<Rightarrow> serverConn \<times> script \<Rightarrow> bool" for w x where
  begins: "talks w x 0 x"
| goes_on: "talks w x n y \<Longrightarrow> talk_step w y Serving z \<Longrightarrow> talks w x (Suc n) z"

lemma at_streams: "at c rest out \<Longrightarrow> unread c = rest \<and> written c = out"
  by (auto simp: at_def unread_def written_def)

lemma at_arrive: "at c rest out \<Longrightarrow> at (arrive bs c) (rest @ bs) out"
  by (auto simp: at_def arrive_def unread_def Let_def)

lemma arrive_session: "arrive bs (session k cid ch t h q x) = session (Connection (arrive bs (session k cid ch t h q x))) cid ch t h q x"
  by (simp add: arrive_def session_def unread_def Let_def)

text \<open>States of a conversation in which only one step is possible.\<close>

definition waiting :: "byte list \<Rightarrow> script \<Rightarrow> bool" where
  "waiting out sc \<longleftrightarrow> (case sc of [] \<Rightarrow> True | (awaited, msg) # sc' \<Rightarrow> \<not> prefix awaited out)"

definition only_step :: "world \<Rightarrow> serverConn \<times> script \<Rightarrow> serverConn \<times> script \<Rightarrow> bool" where
  "only_step w x y \<longleftrightarrow> (\<forall>out z. talk_step w x out z = (out = Serving \<and> z = y))"

lemma only_stepD: "only_step w x y \<Longrightarrow> talk_step w x out z \<Longrightarrow> out = Serving \<and> z = y"
  unfolding only_step_def by blast

lemma only_step_enabled: "only_step w x y \<Longrightarrow> talk_step w x Serving y"
  unfolding only_step_def by blast

lemma only_says:
  assumes "at c [] out" and "tasks c = []" "monitors c = []" and "prefix awaited out"
  shows "only_step w (c, (awaited, msg) # sc) (arrive msg c, sc)"
  using assms at_streams [OF assms(1)] by (auto simp: only_step_def srv_step_iff elim!: talk_stepE intro: talk_step.says)

lemma only_reads:
  assumes "at c rest out" and "rest \<noteq> []" and "tasks c = []" "monitors c = []" and "waiting out sc"
    and "handleServerOnePacket w c = (Inr (), d)"
  shows "only_step w (c, sc) (d, sc)"
  unfolding only_step_def
proof (intro allI iffI)
  fix o' z assume "talk_step w (c, sc) o' z"
  then show "o' = Serving \<and> z = (d, sc)"
    using assms at_streams [OF assms(1)] by (auto simp: srv_step_iff outcome_of_def waiting_def elim!: talk_stepE)
next
  fix o' z assume "o' = Serving \<and> z = (d, sc)"
  moreover have "srv_step c (Packet w) Serving d" using assms(6) by (auto simp: srv_step_iff outcome_of_def)
  ultimately show "talk_step w (c, sc) o' z" using at_streams [OF assms(1)] assms(2) by (auto intro: talk_step.reads)
qed

lemma only_runs:
  assumes "at c [] out" and "tasks c = [t]" "monitors c = []" and "waiting out sc"
    and "run_task w t (c\<lparr>tasks := []\<rparr>) = (Inr (), d)"
  shows "only_step w (c, sc) (d, sc)"
  unfolding only_step_def
proof (intro allI iffI)
  have task: "step_action (Task w 0) c = (Inr (), d)" using assms(2,5) by (simp add: take_task_def)
  {
    fix o' z assume "talk_step w (c, sc) o' z"
    then show "o' = Serving \<and> z = (d, sc)"
      using assms(2,3,4) task at_streams [OF assms(1)]
      by (auto simp: srv_step_iff outcome_of_def waiting_def elim!: talk_stepE simp del: step_action.simps)
  next
    fix o' z assume "o' = Serving \<and> z = (d, sc)"
    moreover have "srv_step c (Task w 0) Serving d" using task assms(2)
      by (auto simp: srv_step_iff outcome_of_def simp del: step_action.simps)
    ultimately show "talk_step w (c, sc) o' z" by (auto intro: talk_step.runs)
  }
qed

lemma no_step:
  assumes "at c [] out" and "tasks c = []" "monitors c = []"
  shows "\<not> talk_step w (c, []) o' y"
  using assms(2,3) at_streams [OF assms(1)] by (auto simp: srv_step_iff elim!: talk_stepE)

text \<open>A conversation with only one step in every state goes through these states.\<close>

fun only_path :: "world \<Rightarrow> (serverConn \<times> script) list \<Rightarrow> bool" where
  "only_path w (x # y # ys) = (only_step w x y \<and> only_path w (y # ys))"
| "only_path w ys = True"

lemma only_path_nth: "only_path w ys \<Longrightarrow> Suc i < length ys \<Longrightarrow> only_step w (ys ! i) (ys ! Suc i)"
proof (induction w ys arbitrary: i rule: only_path.induct)
  case (1 w x y ys)
  then show ?case by (cases i) simp_all
qed simp_all

lemma only_path_talks:
  assumes "only_path w ys" and "ys \<noteq> []" and "\<And>out z. \<not> talk_step w (last ys) out z" and "talks w (hd ys) n y"
  shows "n < length ys \<and> y = ys ! n"
  using assms(4)
proof (induction rule: talks.induct)
  case begins
  then show ?case using assms(2) by (simp add: hd_conv_nth)
next
  case (goes_on n y z)
  have "Suc n < length ys"
  proof (rule ccontr)
    assume "\<not> Suc n < length ys"
    with goes_on.IH have "n = length ys - 1" by linarith
    then have "ys ! n = last ys" using assms(2) by (simp add: last_conv_nth)
    then show False using goes_on assms(3) by simp
  qed
  moreover have "talk_step w (ys ! n) Serving z" using goes_on by simp
  then have "z = ys ! Suc n" using only_stepD [OF only_path_nth [OF assms(1) calculation]] by blast
  ultimately show ?case by simp
qed

text \<open>The client of a get, and what it gets.\<close>

definition created_output :: "32 word \<Rightarrow> 32 word \<Rightarrow> byte list" where
  "created_output bufsize cid = greeting bufsize @ reply APP_CHANNEL_CREATE (created_wire cid)"

definition init_output :: "32 word \<Rightarrow> 32 word \<Rightarrow> 32 word \<Rightarrow> fdesc \<Rightarrow> byte list" where
  "init_output bufsize cid rid fd = created_output bufsize cid @ reply APP_CHANNEL_GET (init_wire rid CHANNEL_GET_INIT fd)"

definition get_script :: "32 word \<Rightarrow> 32 word \<Rightarrow> 32 word \<Rightarrow> fdesc \<Rightarrow> estate \<Rightarrow> estate \<Rightarrow> estate \<Rightarrow> script" where
  "get_script bufsize cid rid fd e1 e2 e3 =
     [(greeting bufsize, call APP_CHANNEL_CREATE (ebuf e1)),
      (created_output bufsize cid, call APP_CHANNEL_GET (ebuf e2)),
      (init_output bufsize cid rid fd, call APP_CHANNEL_GET (ebuf e3))]"

lemma frames_not_empty: "call cmd bs \<noteq> []" "reply cmd bs \<noteq> []"
  by (simp_all add: call_def reply_def frame_def)

lemma not_prefix_longer: "ys \<noteq> [] \<Longrightarrow> \<not> prefix (xs @ ys) xs"
  by (auto dest: prefix_length_le)

lemma arrive_new: "arrive bs ((newConn i)\<lparr>Connection := k\<rparr>) = (newConn i)\<lparr>Connection := Connection (arrive bs ((newConn i)\<lparr>Connection := k\<rparr>))\<rparr>"
  by (simp add: arrive_def unread_def Let_def)

text \<open>The three exchanges.\<close>

lemma create_path:
  assumes ex: "get_exchange w name ch v fd cid rid sub args e1 e2 e3 bs"
    and c: "at ((newConn [])\<lparr>Connection := k\<rparr>) [] out" and sc: "waiting out sc"
  obtains y k' where "only_path w [((newConn [])\<lparr>Connection := k\<rparr>, (out, call APP_CHANNEL_CREATE (ebuf e1)) # sc), y,
      (session k' cid ch [] [] Map.empty [], sc)]"
    and "written (fst y) = out" and "at (session k' cid ch [] [] Map.empty []) [] (out @ reply APP_CHANNEL_CREATE (created_wire cid))"
proof -
  let ?m = "call APP_CHANNEL_CREATE (ebuf e1)"
  obtain k1 where arr: "arrive ?m ((newConn [])\<lparr>Connection := k\<rparr>) = (newConn [])\<lparr>Connection := k1\<rparr>" using arrive_new by blast
  let ?c1 = "(newConn [])\<lparr>Connection := k1\<rparr>"
  have at1: "at ?c1 (?m @ []) out" using at_arrive [OF c, of ?m] arr by simp
  obtain k2 where h: "handleServerOnePacket w ?c1 = (Inr (), session k2 cid ch [] [] Map.empty [])"
    and at2: "at ((newConn [])\<lparr>Connection := k2\<rparr>) [] (out @ reply APP_CHANNEL_CREATE (created_wire cid))"
    using create_exchange [OF at1, of cid name w ch] ex by (auto simp: newConn_def session_def get_exchange_def)
  have idle: "tasks ((newConn [])\<lparr>Connection := k\<rparr>) = []" "monitors ((newConn [])\<lparr>Connection := k\<rparr>) = []" for k
    by (simp_all add: newConn_def)
  have "only_step w ((newConn [])\<lparr>Connection := k\<rparr>, (out, ?m) # sc) (?c1, sc)"
    using only_says [OF c idle, of out w ?m sc] arr by simp
  moreover have "only_step w (?c1, sc) (session k2 cid ch [] [] Map.empty [], sc)"
    by (rule only_reads [OF at1 _ idle sc h]) (simp add: frames_not_empty)
  ultimately show thesis using session_at [OF at2] at_streams [OF at1] by (intro that [of "(?c1, sc)" k2]) simp_all
qed

lemma session_idle:
  "tasks (session k cid ch t h q x) = t" "monitors (session k cid ch t h q x) = []"
  "(session k cid ch t h q x)\<lparr>tasks := t'\<rparr> = session k cid ch t' h q x"
  by (simp_all add: session_def)

lemma session_any: "at (session k cid ch t' h' q' x') rest out \<Longrightarrow> at (session k cid ch t h q x) rest out"
  using session_at [of "session k cid ch t' h' q' x'"] by simp

lemma init_path:
  assumes ex: "get_exchange w name ch v fd cid rid sub args e1 e2 e3 bs"
    and c: "at (session k cid ch [] [] Map.empty []) [] out" and sc: "waiting out sc"
  obtains y1 y2 y3 k' where "only_path w [(session k cid ch [] [] Map.empty [], (out, call APP_CHANNEL_GET (ebuf e2)) # sc), y1, y2, y3,
      (session k' cid ch [] [new_request (Object ch)] [rid \<mapsto> 0] [], sc)]"
    and "written (fst y1) = out" "written (fst y2) = out" "written (fst y3) = out"
    and "at (session k' cid ch [] [new_request (Object ch)] [rid \<mapsto> 0] []) [] (out @ reply APP_CHANNEL_GET (init_wire rid CHANNEL_GET_INIT fd))"
proof -
  obtain i st where args: "args = (i, st)" by fastforce
  note hyps = ex [unfolded get_exchange_def args fst_conv snd_conv]
  let ?m = "call APP_CHANNEL_GET (ebuf e2)" and ?st = "\<lambda>k t h q. session k cid ch t h q []"
  let ?req = "get_request cid rid CHANNEL_GET_INIT (Some (GPVStructure i st))"
  let ?h = "[new_request (Object ch)]" and ?q = "[rid \<mapsto> 0 :: nat]"
  obtain k1 where arr: "arrive ?m (?st k [] [] Map.empty) = ?st k1 [] [] Map.empty" using arrive_session by blast
  have at1: "at (?st k1 [] [] Map.empty) (?m @ []) out" using at_arrive [OF c, of ?m] arr by simp
  obtain k2 where h2: "handleServerOnePacket w (?st k1 [] [] Map.empty) = (Inr (), ?st k2 [GetBody ?req] [] Map.empty)"
    and at2': "at (?st k2 [] [] Map.empty) [] out"
    using get_packet [OF at1, of ?req w] hyps by (auto simp: session_def get_request_def)
  note at2 = session_any [OF at2']
  have h3: "get_body w ?req (?st k2 [] [] Map.empty) = (Inr (), ?st k2 [GetInitReply ?req ch] ?h ?q)"
    using get_body_init [of "?st k2 [] [] Map.empty" ?req ch i st w] hyps by (auto simp: session_def get_request_def)
  obtain k4 where h4: "get_init_reply w ?req ch (?st k2 [] ?h ?q) = (Inr (), ?st k4 [] ?h ?q)"
    and at4: "at (?st k4 [] ?h ?q) [] (out @ reply APP_CHANNEL_GET (init_wire rid CHANNEL_GET_INIT fd))"
    using get_init_reply_at [OF at2, of ?req w ch v fd "[]" ?h ?q "[]"] hyps by (auto simp: session_def get_request_def)
  have "only_step w (?st k [] [] Map.empty, (out, ?m) # sc) (?st k1 [] [] Map.empty, sc)"
    using only_says [OF c session_idle(1,2), of out w ?m sc] arr by simp
  moreover have "only_step w (?st k1 [] [] Map.empty, sc) (?st k2 [GetBody ?req] [] Map.empty, sc)"
    by (rule only_reads [OF at1 _ session_idle(1,2) sc h2]) (simp add: frames_not_empty)
  moreover have "only_step w (?st k2 [GetBody ?req] [] Map.empty, sc) (?st k2 [GetInitReply ?req ch] ?h ?q, sc)"
    by (rule only_runs [OF at2 session_idle(1,2) sc]) (simp add: session_idle run_task_def h3)
  moreover have "only_step w (?st k2 [GetInitReply ?req ch] ?h ?q, sc) (?st k4 [] ?h ?q, sc)"
    by (rule only_runs [OF at2 session_idle(1,2) sc]) (simp add: session_idle run_task_def h4)
  ultimately show thesis using at4 at_streams [OF at1] at_streams [OF at2]
    by (intro that [of "(?st k1 [] [] Map.empty, sc)" "(?st k2 [GetBody ?req] [] Map.empty, sc)" "(?st k2 [GetInitReply ?req ch] ?h ?q, sc)" k4]) simp_all
qed

lemma exec_path:
  assumes ex: "get_exchange w name ch v fd cid rid sub args e1 e2 e3 bs"
    and c: "at (session k cid ch [] [new_request (Object ch)] [rid \<mapsto> 0] []) [] out" and sc: "waiting out sc" "waiting (out @ reply APP_CHANNEL_GET bs) sc"
  obtains y1 y2 y3 y4 d where "only_path w [(session k cid ch [] [new_request (Object ch)] [rid \<mapsto> 0] [], (out, call APP_CHANNEL_GET (ebuf e3)) # sc),
      y1, y2, y3, y4, (d, sc)]"
    and "written (fst y1) = out" "written (fst y2) = out" "written (fst y3) = out" "written (fst y4) = out @ reply APP_CHANNEL_GET bs"
    and "at d [] (out @ reply APP_CHANNEL_GET bs)" "live d = [rid \<mapsto> READY]" "tasks d = []" "monitors d = []"
proof -
  note hyps = ex [unfolded get_exchange_def]
  have sub: "sub \<noteq> CHANNEL_GET_INIT" using hyps by (auto simp: flagged_def)
  let ?m = "call APP_CHANNEL_GET (ebuf e3)" and ?req = "get_request cid rid sub None"
  let ?h = "[new_request (Object ch)]" and ?h' = "[\<lparr>doer = Object ch, cancel = Some 0, status = REQUEST_IN_PROGRESS\<rparr>]"
  let ?st = "\<lambda>k t h x. session k cid ch t h [rid \<mapsto> 0 :: nat] x"
  obtain k1 where arr: "arrive ?m (?st k [] ?h []) = ?st k1 [] ?h []" using arrive_session by blast
  have at1: "at (?st k1 [] ?h []) (?m @ []) out" using at_arrive [OF c, of ?m] arr by simp
  obtain k2 where h2: "handleServerOnePacket w (?st k1 [] ?h []) = (Inr (), ?st k2 [GetBody ?req] ?h [])" and at2': "at (?st k2 [] ?h []) [] out"
    using get_packet [OF at1, of ?req w] hyps by (auto simp: session_def get_request_def flagged_def)
  note at2 = session_any [OF at2']
  have at3: "at (?st k2 [] ?h' [False]) [] out" by (rule at2)
  have h3: "get_body w ?req (?st k2 [] ?h []) = (Inr (), ?st k2 [GetExec ?req 0 ch 0] ?h' [False])"
    using get_body_exec [of "?st k2 [] ?h []" ?req ch 0 ch w] hyps sub by (simp add: session_def get_request_def new_request_def)
  obtain k4 where h4: "get_execution w ?req 0 ch 0 (?st k2 [] ?h' [False]) = (Inr (), ?st k4 [Finish 0 rid False] ?h' [False])"
    and at4': "at (?st k4 [] ?h' [False]) [] (out @ reply APP_CHANNEL_GET bs)"
    using get_execution_at [OF at3, of w ch 0 v None ?req bs 0] hyps by (auto simp: session_def get_request_def)
  note at4 = session_any [OF at4']
  let ?d = "end_request 0 rid False (?st k4 [] ?h' [False])"
  have h5: "finish_execution 0 rid False (?st k4 [] ?h' [False]) = (Inr (), ?d)" by (simp add: finish_execution_def)
  have at5: "at ?d [] (out @ reply APP_CHANNEL_GET bs)"
    using at_cong [of ?d "?st k4 [] ?h' [False]"] at4 by (simp add: end_request_def update_request_def)
  have d: "live ?d = [rid \<mapsto> READY]" "tasks ?d = []" "monitors ?d = []"
    by (auto simp: live_def end_request_simps end_request_def update_request_def session_def fun_eq_iff)
  have "only_step w (?st k [] ?h [], (out, ?m) # sc) (?st k1 [] ?h [], sc)"
    using only_says [OF c session_idle(1,2), of out w ?m sc] arr by simp
  moreover have "only_step w (?st k1 [] ?h [], sc) (?st k2 [GetBody ?req] ?h [], sc)"
    by (rule only_reads [OF at1 _ session_idle(1,2) sc(1) h2]) (simp add: frames_not_empty)
  moreover have "only_step w (?st k2 [GetBody ?req] ?h [], sc) (?st k2 [GetExec ?req 0 ch 0] ?h' [False], sc)"
    by (rule only_runs [OF at2 session_idle(1,2) sc(1)]) (simp add: session_idle run_task_def h3)
  moreover have "only_step w (?st k2 [GetExec ?req 0 ch 0] ?h' [False], sc) (?st k4 [Finish 0 rid False] ?h' [False], sc)"
    by (rule only_runs [OF at2 session_idle(1,2) sc(1)]) (simp add: session_idle run_task_def h4)
  moreover have "only_step w (?st k4 [Finish 0 rid False] ?h' [False], sc) (?d, sc)"
    by (rule only_runs [OF at4 session_idle(1,2) sc(2)]) (simp add: session_idle run_task_def h5)
  ultimately show thesis using at5 d at_streams [OF at1] at_streams [OF at2] at_streams [OF at4]
    by (intro that [of "(?st k1 [] ?h [], sc)" "(?st k2 [GetBody ?req] ?h [], sc)" "(?st k2 [GetExec ?req 0 ch 0] ?h' [False], sc)"
        "(?st k4 [Finish 0 rid False] ?h' [False], sc)" ?d]) simp_all
qed

text \<open>Together they are the whole conversation.\<close>

lemma get_path:
  assumes ex: "get_exchange w name ch v fd cid rid sub args e1 e2 e3 bs"
    and start: "serve_start bufsize (newConn []) = (Inr (), c0)"
  obtains ys d where "length ys = 11" and "only_path w (ys @ [(d, [])])" and "hd ys = (c0, get_script bufsize cid rid fd e1 e2 e3)"
    and "list_all (\<lambda>y. prefix (written (fst y)) (init_output bufsize cid rid fd @ reply APP_CHANNEL_GET bs)) ys"
    and "at d [] (init_output bufsize cid rid fd @ reply APP_CHANNEL_GET bs)" "live d = [rid \<mapsto> READY]" "tasks d = []" "monitors d = []"
proof -
  let ?o0 = "greeting bufsize" and ?o1 = "created_output bufsize cid" and ?o2 = "init_output bufsize cid rid fd"
  let ?o3 = "?o2 @ reply APP_CHANNEL_GET bs"
  let ?s2 = "[(?o2, call APP_CHANNEL_GET (ebuf e3))]" let ?s1 = "(?o1, call APP_CHANNEL_GET (ebuf e2)) # ?s2"
  have wait: "waiting ?o0 ?s1" "waiting ?o1 ?s2" "waiting out []" for out
    by (simp_all add: waiting_def created_output_def init_output_def not_prefix_longer frames_not_empty)
  obtain k0 where c0: "c0 = (newConn [])\<lparr>Connection := k0\<rparr>" and at0: "at ((newConn [])\<lparr>Connection := k0\<rparr>) [] ?o0"
    using serve_start_at [of bufsize "[]"] start by auto
  obtain y k where p1: "only_path w [(c0, (?o0, call APP_CHANNEL_CREATE (ebuf e1)) # ?s1), y, (session k cid ch [] [] Map.empty [], ?s1)]"
    "written (fst y) = ?o0" "at (session k cid ch [] [] Map.empty []) [] ?o1"
    using create_path [OF ex at0 wait(1)] unfolding c0 created_output_def by blast
  obtain y1 y2 y3 k' where p2: "only_path w [(session k cid ch [] [] Map.empty [], ?s1), y1, y2, y3,
      (session k' cid ch [] [new_request (Object ch)] [rid \<mapsto> 0] [], ?s2)]"
    "written (fst y1) = ?o1" "written (fst y2) = ?o1" "written (fst y3) = ?o1" "at (session k' cid ch [] [new_request (Object ch)] [rid \<mapsto> 0] []) [] ?o2"
    using init_path [OF ex p1(3) wait(2)] unfolding init_output_def by blast
  obtain z1 z2 z3 z4 d where p3: "only_path w [(session k' cid ch [] [new_request (Object ch)] [rid \<mapsto> 0] [], ?s2), z1, z2, z3, z4, (d, [])]"
    "written (fst z1) = ?o2" "written (fst z2) = ?o2" "written (fst z3) = ?o2" "written (fst z4) = ?o3"
    "at d [] ?o3" "live d = [rid \<mapsto> READY]" "tasks d = []" "monitors d = []"
    using exec_path [OF ex p2(5) wait(3) wait(3)] by blast
  let ?ys = "[(c0, get_script bufsize cid rid fd e1 e2 e3), y, (session k cid ch [] [] Map.empty [], ?s1), y1, y2, y3,
    (session k' cid ch [] [new_request (Object ch)] [rid \<mapsto> 0] [], ?s2), z1, z2, z3, z4]"
  show thesis
  proof (rule that [of ?ys d])
    show "only_path w (?ys @ [(d, [])])" using p1(1) p2(1) p3(1) by (simp add: get_script_def)
    have "written c0 = ?o0" using at_streams [OF at0] c0 by simp
    then show "list_all (\<lambda>y. prefix (written (fst y)) ?o3) ?ys"
      using p1(2) p2(2-4) p3(2-5) at_streams [OF p1(3)] at_streams [OF p2(5)]
      by (simp add: created_output_def init_output_def)
  qed (use p3 in simp_all)
qed

lemma path_talks: "only_path w ys \<Longrightarrow> i < length ys \<Longrightarrow> talks w (hd ys) i (ys ! i)"
proof (induction i)
  case 0
  then show ?case using talks.begins [of w "hd ys"] by (simp add: hd_conv_nth)
next
  case (Suc i)
  then show ?case using only_step_enabled [OF only_path_nth] by (auto intro: talks.goes_on)
qed

lemma get_talks:
  assumes "get_exchange w name ch v fd cid rid sub args e1 e2 e3 bs"
  obtains c0 c where "serve_start bufsize (newConn []) = (Inr (), c0)"
    and "talks w (c0, get_script bufsize cid rid fd e1 e2 e3) 11 (c, [])"
proof -
  obtain c0 where c0: "serve_start bufsize (newConn []) = (Inr (), c0)" using serve_start_at [of bufsize "[]"] by blast
  obtain ys d where ys: "length ys = 11" "only_path w (ys @ [(d, [])])" "hd ys = (c0, get_script bufsize cid rid fd e1 e2 e3)"
    using get_path [OF assms c0] by blast
  have "talks w (hd ys) 11 (d, [])" using path_talks [OF ys(2), of 11] ys(1) by (cases ys) (simp_all add: nth_append)
  then show thesis using that [OF c0] ys(3) by simp
qed

section \<open>An example\<close>

text \<open>One provider with one channel, whose value is a structure with the number 7.\<close>

definition example_pv :: gval where
  "example_pv = GPtr (GStruct [] [(''Value'', ''value'', GPrim True (PVInt 7))])"

definition example_world :: world where
  "example_world = \<lparr>search = \<lparr>GUID = replicate 12 7, ServerIP = [10, 0, 0, 1], ServerPort = 5075\<rparr>,
     providers = [\<lparr>CreateChannel = (\<lambda>name. Inr (if name = ''pv'' then Some 0 else None)), ChannelList = None, ChannelFind = None\<rparr>],
     arrivals = [0], Name = (\<lambda>x. ''pv''),
     is_ChannelGetCreator = (\<lambda>x. False), is_ChannelGeter = (\<lambda>x. True), is_ChannelRPCCreator = (\<lambda>x. False), is_ChannelRPCer = (\<lambda>x. False),
     is_ChannelMonitorCreator = (\<lambda>x. False), CreateChannelGet = (\<lambda>x a. Inl NotAStruct),
     ChannelGet = (\<lambda>x done. (Some (example_pv), None)),
     CreateChannelRPC = (\<lambda>x a. Inl NotAStruct), ChannelRPC = (\<lambda>x a done. (None, None)),
     CreateChannelMonitor = (\<lambda>x a. Inl NotAStruct), Nexter_Next = (\<lambda>x done. Inl NotAStruct),
     render = (\<lambda>e. []), quote = (\<lambda>s. s), type_name = (\<lambda>v. [])\<rparr>"

definition example_fd :: fdesc where
  "example_fd = struct_desc [] [(''value'', prim_desc (PVInt 7))]"

lemma example_create: "CreateChannelRequest_PVEncode [\<lparr>cc_ClientChannelID = 1, cc_ChannelName = ''pv''\<rparr>] (encoder LittleEndian) =
    (Inr (), emit ([1, 0, 1, 0, 0, 0, 2] @ bytes_of_string ''pv'') (encoder LittleEndian))"
proof -
  have w: "le_bytes 2 (1 :: 16 word) = [1, 0]" "le_bytes 4 (1 :: 32 word) = [1, 0, 0, 0]" by code_simp+
  show ?thesis
  by (simp add: CreateChannelRequest_PVEncode_def CreateChannelRequest_Channel_gval_def encode_struct_fields act_simps
    enc_field_plain enc_field_simps parse_tag_bound enc_pv.simps record_changed_def scalar_enc_defs w PVString_enc string_wire_def
    size_wire_small PVBoundedString_PVEncode_def)
qed

lemma example_get: "ChannelGetRequest_PVEncode (get_request 1 5 0x40 None) (encoder LittleEndian) =
    (Inr (), emit [1, 0, 0, 0, 5, 0, 0, 0, 0x40] (encoder LittleEndian))"
proof -
  have w: "le_bytes 4 (5 :: 32 word) = [5, 0, 0, 0]" "le_bytes 4 (1 :: 32 word) = [1, 0, 0, 0]" by code_simp+
  show ?thesis
  by (simp add: ChannelGetRequest_PVEncode_def get_request_def act_simps scalar_enc_defs w)
qed

lemma example_init: "ChannelGetRequest_PVEncode (get_request 1 5 0x08 (Some (GPVStructure [] (GStruct [] [])))) (encoder LittleEndian) =
    (Inr (), emit [1, 0, 0, 0, 5, 0, 0, 0, 0x08, 0x80, 0, 0] (encoder LittleEndian))"
proof -
  have w: "le_bytes 4 (5 :: 32 word) = [5, 0, 0, 0]" "le_bytes 4 (1 :: 32 word) = [1, 0, 0, 0]" by code_simp+
  have d: "fdesc_wire LittleEndian (struct_desc [] []) = [0x80, 0, 0]"
    by (simp add: struct_desc_def zero_head_def head_wire_def has_size_def string_wire_def size_wire_small bytes_of_string_def)
  show ?thesis
  by (simp add: ChannelGetRequest_PVEncode_def get_request_def act_simps scalar_enc_defs w encode_struct_def enc_value.simps enc_pv.simps
    FieldDesc_enc d)
qed

lemma example_args: "any_ok (Some (GPVStructure [] (GStruct [] [])))"
  by (simp add: any_ok_def trips_simps struct_desc_def zero_head_def wf_head_def has_size_def size_norm_def createZero.simps prim_of_code.simps struct_of_def string_ok_def len_ok_def)

lemma example_desc: "structure_desc (Some (example_pv)) = Inr example_fd"
  by (simp add: structure_desc_def example_pv_def example_fd_def field_omitted_def omitted_def field_name_def wrap_field_def parse_tag_name)

lemma example_reply: "\<exists>bs. encoding LittleEndian (ChannelGetResponse_gval
        \<lparr>gr_RequestID = 5, gr_Subcommand = 0x40, gr_Status = zero_status, gr_Value = Some (example_pv)\<rparr>) = Inr bs"
  by (simp add: encoding_def ChannelGetResponse_gval_def example_pv_def encode_struct_fields act_simps enc_field_plain enc_field_status 
    record_changed_def scalar_enc_defs PVStatus_enc ok_status_wire enc_field_simps enc_pv.simps diff_enc_def enc_value.simps parse_tag_name
    PVBitSet_enc write_bytes_def)

definition example_msg :: "nat \<Rightarrow> estate" where
  "example_msg n = [emit ([1, 0, 1, 0, 0, 0, 2] @ bytes_of_string ''pv'') (encoder LittleEndian),
     emit [1, 0, 0, 0, 5, 0, 0, 0, 0x08, 0x80, 0, 0] (encoder LittleEndian),
     emit [1, 0, 0, 0, 5, 0, 0, 0, 0x40] (encoder LittleEndian)] ! n"

lemma example_exchange: "\<exists>bs. get_exchange example_world ''pv'' 0 (Some example_pv) example_fd 1 5 0x40 ([], GStruct [] [])
     (example_msg 0) (example_msg 1) (example_msg 2) bs"
  using example_create example_init example_get example_args example_desc example_reply
  by (simp add: get_exchange_def example_world_def example_pv_def flagged_def example_msg_def)

text \<open>The connection while the get of the example is executed.\<close>

definition example_state :: "conn \<Rightarrow> serverConn" where
  "example_state k = session k 1 0 [GetExec (get_request 1 5 0x40 None) 0 0 0]
     [\<lparr>doer = Object 0, cancel = Some 0, status = REQUEST_IN_PROGRESS\<rparr>] [5 \<mapsto> 0] [False]"

lemma example_served: "\<exists>input k. served input 32768 (example_state k)"
proof -
  obtain bs where ex: "get_exchange example_world ''pv'' 0 (Some example_pv) example_fd 1 5 0x40 ([], GStruct [] [])
     (example_msg 0) (example_msg 1) (example_msg 2) bs"
    using example_exchange by blast
  obtain c k where c: "serve_start 32768 (newConn (client_input (example_msg 0) (example_msg 1) (example_msg 2))) = (Inr (), c)"
    and run: "run_events [Packet example_world, Packet example_world, Task example_world 0, Task example_world 0, Packet example_world,
        Task example_world 0] c =
      (Serving, example_state k)"
    using session_running [OF ex, of 32768 "[]"] by (auto simp: example_state_def)
  from run_events_served [OF served.start [OF c] run] show ?thesis by blast
qed

lemma example_state_simps: "requests (example_state k) 5 = Some 0" "0 < length (tasks (example_state k))"
    "execution (tasks (example_state k) ! 0) = Some (0, 5)"
  by (simp_all add: example_state_def session_def get_request_def)

section \<open>Executions and registered requests\<close>

lemma conn_executions:
  assumes "server_ok c" and "i < length (tasks c)" and "execution (tasks c ! i) = Some (r, rid)"
  shows "{j. j < length (tasks c) \<and> r \<in> fst ` set_option (execution (tasks c ! j))} = {i} \<and>
    r < length (heap c) \<and> status (heap c ! r) \<noteq> READY \<and> {x. requests c x = Some r} \<subseteq> {rid}"
proof -
  have ok: "execs_ok c" using assms(1) by (simp add: server_ok_def)
  have "(r, rid) \<in> set (executing (tasks c))" using assms(2,3) nth_mem by (force simp: executing_def List.map_filter_def)
  then have "exec_ok c (r, rid)" using ok by (auto simp: execs_ok_def)
  then have e: "r < length (heap c)" "status (heap c ! r) \<noteq> READY" "{x. requests c x = Some r} \<subseteq> {rid}"
    by (auto simp: exec_ok_def)
  have unique: "j = i" if "j < length (tasks c)" "execution (tasks c ! j) = Some (r, x)" for j x
    using executing_distinct [of "tasks c" i j r rid x] ok assms(2,3) that by (simp add: execs_ok_def)
  have "{j. j < length (tasks c) \<and> r \<in> fst ` set_option (execution (tasks c ! j))} = {i}" (is "?E = _")
  proof
    show "?E \<subseteq> {i}"
    proof
      fix j assume "j \<in> ?E"
      then obtain x where "j < length (tasks c)" "execution (tasks c ! j) = Some (r, x)" by auto
      from unique [OF this] show "j \<in> {i}" by simp
    qed
    show "{i} \<subseteq> ?E" using assms(2,3) by simp
  qed
  with e show ?thesis by (intro conjI)
qed

lemma conn_requests:
  assumes "server_ok c" and "requests c rid = Some r"
  shows "r < length (heap c) \<and> status (heap c ! r) \<noteq> DESTROYED \<and> {x. requests c x = Some r} = {rid}"
proof -
  have ok: "table_ok c" using assms(1) by (simp add: server_ok_def)
  have "{x. requests c x = Some r} = {rid}"
  proof
    show "{x. requests c x = Some r} \<subseteq> {rid}"
    proof
      fix x assume "x \<in> {x. requests c x = Some r}"
      then have "requests c x = Some r" by simp
      from table_ok_inj [OF ok assms(2) this] show "x \<in> {rid}" by simp
    qed
    show "{rid} \<subseteq> {x. requests c x = Some r}" using assms(2) by simp
  qed
  with table_okD [OF ok assms(2)] show ?thesis by (intro conjI) simp_all
qed

section \<open>Properties\<close>

text \<open>C23: A client that waits for each reply gets its value, whatever the scheduler does. The client awaits
  the greeting and creates a channel, awaits the reply and initializes a get, awaits the reply and
  executes it; in between the loop of \<open>serve\<close>, the tasks and the monitors' loops may run in any
  order. Then the connection never fails or crashes, has at any time written a prefix of the
  greeting and the three replies (the channel is created, the description of the value, the value),
  and as long as not all of that has happened something can run; after eleven steps everything is written,
  nothing can run, and the request is ready again. A client that does not wait may crash the server:
  see \<open>hasty_get_crashes\<close>.\<close>

theorem get_session:
  assumes "get_exchange w name ch v fd cid rid sub args e1 e2 e3 bs"
    and "serve_start bufsize (newConn []) = (Inr (), c0)"
    and "talks w (c0, get_script bufsize cid rid fd e1 e2 e3) n (c, sc)"
  shows "prefix (written c) (init_output bufsize cid rid fd @ reply APP_CHANNEL_GET bs) \<and>
    (\<nexists>out y. talk_step w (c, sc) out y \<and> out \<noteq> Serving) \<and>
    (n < 11 \<and> (\<exists>y. talk_step w (c, sc) Serving y) \<or>
     n = 11 \<and> (\<nexists>out y. talk_step w (c, sc) out y) \<and> written c = init_output bufsize cid rid fd @ reply APP_CHANNEL_GET bs \<and>
       sc = [] \<and> unread c = [] \<and> live c = [rid \<mapsto> READY] \<and> tasks c = [])"
proof -
  let ?out = "init_output bufsize cid rid fd @ reply APP_CHANNEL_GET bs"
  obtain ys d where ys: "length ys = 11" "only_path w (ys @ [(d, [])])" "hd ys = (c0, get_script bufsize cid rid fd e1 e2 e3)"
    "list_all (\<lambda>y. prefix (written (fst y)) ?out) ys"
    and d: "at d [] ?out" "live d = [rid \<mapsto> READY]" "tasks d = []" "monitors d = []"
    using get_path [OF assms(1,2)] by blast
  have stop: "\<not> talk_step w (d, []) out z" for out z using no_step [OF d(1,3,4)] .
  have "n < 12 \<and> (c, sc) = (ys @ [(d, [])]) ! n"
    using only_path_talks [OF ys(2), of n "(c, sc)"] stop ys(1,3) assms(3) by (cases ys) auto
  then consider "n < 11" "(c, sc) = ys ! n" | "n = 11" "(c, sc) = (d, [])" using ys(1) by (cases "n = 11") (auto simp: nth_append)
  then show ?thesis
  proof cases
    case 1
    then have "prefix (written c) ?out" using ys(1,4) by (metis fst_conv list_all_length)
    moreover have only: "only_step w (c, sc) ((ys @ [(d, [])]) ! Suc n)"
      using only_path_nth [OF ys(2), of n] 1 ys(1) by (simp add: nth_append)
    ultimately show ?thesis using 1 only_stepD [OF only] only_step_enabled [OF only] by blast
  next
    case 2
    then show ?thesis using at_streams [OF d(1)] d stop by auto
  qed
qed

theorem get_session_witness:
  "\<exists>e1 e2 e3 bs c0 c. serve_start 32768 (newConn []) = (Inr (), c0) \<and>
     talks example_world (c0, get_script 32768 1 5 example_fd e1 e2 e3) 11 (c, []) \<and>
     written c = init_output 32768 1 5 example_fd @ reply APP_CHANNEL_GET bs \<and> live c = [5 \<mapsto> READY]"
proof -
  obtain bs where ex: "get_exchange example_world ''pv'' 0 (Some example_pv) example_fd 1 5 0x40 ([], GStruct [] [])
     (example_msg 0) (example_msg 1) (example_msg 2) bs"
    using example_exchange by blast
  obtain c0 c where "serve_start 32768 (newConn []) = (Inr (), c0)"
    "talks example_world (c0, get_script 32768 1 5 example_fd (example_msg 0) (example_msg 1) (example_msg 2)) 11 (c, [])"
    using get_talks [OF ex] by blast
  with get_session [OF ex this] show ?thesis by (intro exI [of _ "example_msg 0"] exI [of _ "example_msg 1"] exI [of _ "example_msg 2"]) blast
qed

end
