(* ===== verification/PV_Faults.thy ===== *)
theory PV_Faults
  imports PV_Session
begin

text \<open>
  What goes wrong for a client or for the server: errors of a body are answered, messages that end too
  early close the connection, and the cases where the code does not do what it means to.
\<close>

lemma task_step: "i < length (tasks c) \<Longrightarrow> run_task w (tasks c ! i) (take_task i c) = (r, d) \<Longrightarrow>
    srv_step c (Task w i) (outcome_of (Task w i) r) d"
  by (auto simp: srv_step_iff)

lemma take_task_simps [simp]: "requests (take_task i c) = requests c" "heap (take_task i c) = heap c"
    "channels (take_task i c) = channels c" "monitors (take_task i c) = monitors c" "ctx_done (take_task i c) = ctx_done c"
    "Connection (take_task i c) = Connection c"
  by (simp_all add: take_task_def)

section \<open>Errors are answered\<close>

text \<open>The bytes of \<open>ChannelResponseError\<close>.\<close>

definition error_wire :: "32 word \<Rightarrow> byte \<Rightarrow> pvstatus \<Rightarrow> byte list" where
  "error_wire rid sub st = put_uint LittleEndian 4 rid @ [sub] @ status_wire LittleEndian st"

lemma response_error_encoding: "encoding LittleEndian (response_error rid sub st) = Inr (error_wire rid sub st)"
  by (simp add: encoding_def encode_struct_fields response_error_def ChannelResponseError_gval_def act_simps enc_field_plain
    enc_field_status record_changed_def scalar_enc_defs PVStatus_enc error_wire_def)

lemma reply_error_at:
  assumes "body c = (Inl e, d)" and "\<not> is_panic e" and "at d rest out"
    and "encoding LittleEndian (response (errorToStatus w (Some e))) = Inr bs"
  shows "\<exists>k. reply_error w cmd response body c = (Inr (), d\<lparr>Connection := k\<rparr>) \<and> at (d\<lparr>Connection := k\<rparr>) rest (out @ reply cmd bs)"
  using send_at [OF assms(3,4), of cmd] assms(1,2) by (auto simp: reply_error_def)

text \<open>A text of package errors is a fatal status.\<close>

definition fatal :: "string \<Rightarrow> pvstatus" where
  "fatal m = \<lparr>st_Type = 3, st_Message = m, st_CallTree = []\<rparr>"

lemma errorToStatus_text: "errorToStatus w (Some (OtherError m)) = fatal m"
  by (simp add: fatal_def)

lemma unknown_channel_status: "errorToStatus w (Some (unknown_channel cid)) = fatal (''unknown channel ID '' @ int_text 16 (sint cid))"
  unfolding unknown_channel_def by (rule errorToStatus_text)

text \<open>The client, the channel and the request that a body is about.\<close>

fun body_of :: "task \<Rightarrow> (byte \<times> 32 word \<times> 32 word \<times> byte) option" where
  "body_of (GetBody req) = Some (APP_CHANNEL_GET, gq_ServerChannelID req, gq_RequestID req, gq_Subcommand req)"
| "body_of (MonitorBody req) = Some (APP_CHANNEL_MONITOR, mq_ServerChannelID req, mq_RequestID req, mq_Subcommand req)"
| "body_of _ = None"

lemma getChannel_unknown:
  assumes "case channels c cid of Some (Some ch) \<Rightarrow> False | _ \<Rightarrow> True"
  shows "getChannel cid c = (Inl (unknown_channel cid), c)"
  using assms by (auto simp: getChannel_def split: option.splits)

lemma unknown_channel_body:
  assumes "at c rest out" and "case channels c cid of Some (Some ch) \<Rightarrow> False | _ \<Rightarrow> True"
    and "body_of t = Some (cmd, cid, rid, sub)"
  shows "\<exists>k. run_task w t c = (Inr (), c\<lparr>Connection := k\<rparr>) \<and>
    at (c\<lparr>Connection := k\<rparr>) rest (out @ reply cmd (error_wire rid sub (fatal (''unknown channel ID '' @ int_text 16 (sint cid)))))"
proof -
  have unknown: "bindA (getChannel cid) f c = (Inl (unknown_channel cid), c)" for f :: "nat \<Rightarrow> unit sact"
    using getChannel_unknown [OF assms(2)] by (simp add: bindA_def)
  have "\<not> is_panic (unknown_channel cid)" by (simp add: unknown_channel_def)
  have *: "\<exists>k. reply_error w cmd (response_error rid sub) (bindA (getChannel cid) f) c = (Inr (), c\<lparr>Connection := k\<rparr>) \<and>
      at (c\<lparr>Connection := k\<rparr>) rest (out @ reply cmd (error_wire rid sub (fatal (''unknown channel ID '' @ int_text 16 (sint cid)))))" for f
    using reply_error_at [where response = "response_error rid sub" and w = w and cmd = cmd and body = "bindA (getChannel cid) f" and c = c,
        OF unknown \<open>\<not> is_panic (unknown_channel cid)\<close> assms(1) response_error_encoding]
    unfolding unknown_channel_status .
  show ?thesis
  proof (cases t)
    case (GetBody req)
    with assms(3) show ?thesis using * by (simp add: run_task_def get_body_def)
  next
    case (MonitorBody req)
    with assms(3) show ?thesis using * by (simp add: run_task_def monitor_body_def)
  qed (use assms(3) in simp_all)
qed

text \<open>C26: A get or monitor message for a channel that is not there is answered with the error that it is
  unknown, and changes nothing else.\<close>

theorem unknown_channel_replied:
  assumes "at c rest out" and "i < length (tasks c)" and "body_of (tasks c ! i) = Some (cmd, cid, rid, sub)"
    and "channels c cid \<notin> Some ` range Some"
  shows "\<exists>k. srv_step c (Task w i) Serving ((take_task i c)\<lparr>Connection := k\<rparr>) \<and>
    at ((take_task i c)\<lparr>Connection := k\<rparr>) rest
      (out @ reply cmd (error_wire rid sub (fatal (''unknown channel ID '' @ int_text 16 (sint cid)))))"
proof -
  have "at (take_task i c) rest out" using assms(1) at_cong [of "take_task i c" c] by simp
  moreover have "case channels (take_task i c) cid of Some (Some ch) \<Rightarrow> False | _ \<Rightarrow> True"
    using assms(4) by (auto split: option.splits)
  ultimately obtain k where "run_task w (tasks c ! i) (take_task i c) = (Inr (), (take_task i c)\<lparr>Connection := k\<rparr>)"
    "at ((take_task i c)\<lparr>Connection := k\<rparr>) rest
      (out @ reply cmd (error_wire rid sub (fatal (''unknown channel ID '' @ int_text 16 (sint cid)))))"
    using unknown_channel_body [of "take_task i c" rest out cid "tasks c ! i" cmd rid sub w] assms(3) by blast
  with task_step [OF assms(2) this(1)] show ?thesis by (auto simp: outcome_of_def)
qed

section \<open>Messages that end too early\<close>

lemma read_nothing: "read_full (Suc n) (decoder bo []) = (Inl EOF, decoder bo [])"
    "PVInt_PVDecode (decoder bo []) = (Inl EOF, decoder bo [])" "PVUInt_PVDecode (decoder bo []) = (Inl EOF, decoder bo [])"
    "PVShort_PVDecode (decoder bo []) = (Inl EOF, decoder bo [])"
  by (simp_all add: scalar_dec_defs ReadUint32_def ReadUint16_def read_uint_def read_full_def bindA_def decoder_def)

lemma dec_field_nothing:
  assumes "dec_prim p (decoder bo []) = (Inl EOF, decoder bo [])"
  shows "dec_value (Some (GPtr (GStruct i ((n, [], GPrim named p) # fs)))) (decoder bo []) = (Inl EOF, decoder bo [])"
proof -
  have "dec_field True (n, [], GPrim named p) (decoder bo []) = (Inl EOF, decoder bo [])"
    using assms by (simp add: dec_field.simps dec_pv.simps bindA_def seqA_def next_field_def field_selected_def ifA_def
        field_options_def decoder_def)
  moreover have "full_struct (decoder bo [])" by (simp add: full_struct_def decoder_def)
  ultimately show ?thesis by (simp add: dec_value.simps iface_var_def dec_pv.simps bindA_def)
qed

lemma decode_nothing:
  "Decode_ConnectionValidationResponse (decoder bo []) = (Inl EOF, decoder bo [])"
  "CreateChannelRequest_PVDecode (decoder bo []) = (Inl EOF, decoder bo [])"
  "Decode_DestroyChannel (decoder bo []) = (Inl EOF, decoder bo [])"
  "ChannelGetRequest_PVDecode (decoder bo []) = (Inl EOF, decoder bo [])"
  "ChannelMonitorRequest_PVDecode (decoder bo []) = (Inl EOF, decoder bo [])"
  "Decode_ChannelRPCRequest (decoder bo []) = (Inl EOF, decoder bo [])"
  "Decode_CancelDestroyRequest (decoder bo []) = (Inl EOF, decoder bo [])"
  "Decode_SearchRequest (decoder bo []) = (Inl EOF, decoder bo [])"
  by (simp_all add: Decode_msg_defs zero_msg_defs decode_msg_def decode_struct_def bindA_def read_nothing
      ConnectionValidationResponse_gval_def DestroyChannel_gval_def ChannelRPCRequest_gval_def CancelDestroyRequest_gval_def
      SearchRequest_gval_def dec_field_nothing CreateChannelRequest_PVDecode_def ChannelGetRequest_PVDecode_def
      ChannelMonitorRequest_PVDecode_def)

lemma handlers_nothing:
  assumes c: "cn_dec (Connection c) = decoder bo rest" and msg: "Data msg = []" "msg_reader msg = None"
    and f: "serverDispatch w cmd = Some f"
  shows "f msg c = (Inl EOF, c)"
proof -
  have eof: "bindA (decode_in dc msg) h c = (Inl EOF, c)" if "dc (decoder bo []) = (Inl EOF, decoder bo [])" for dc :: "'a dec" and h :: "'a \<Rightarrow> unit sact"
    using decode_in_at [where dc = dc and c = c and msg = msg and bs = "[]" and us = "[]" and r = "Inl EOF", OF c msg that] by (simp add: bindA_def)
  show ?thesis using f
    by (auto simp: serverDispatch_def handleConnectionValidation_def handleCreateChannelRequest_def handleChannelDestroy_def
        handleChannelGet_def handleChannelMonitor_def handleChannelRPC_def handleRequestCancelDestroy_def handleSearchRequest_def
        eof decode_nothing split: if_splits)
qed

section \<open>Requests\<close>

text \<open>The status of a request while a message for it is handled.\<close>

definition not_ready :: pvstatus where
  "not_ready = \<lparr>st_Type = 2, st_Message = ''request not READY'', st_CallTree = []\<rparr>"

lemma ready_request_busy:
  assumes "requests c rid = Some r" and "status (heap c ! r) \<noteq> READY"
  shows "ready_request rid c = (Inl (StatusErr not_ready), c)"
  using assms by (simp add: ready_request_def not_ready_def)

text \<open>A body that executes a request which is not ready answers so, and changes nothing else.\<close>

fun executes :: "world \<Rightarrow> task \<Rightarrow> (byte \<times> 32 word \<times> 32 word \<times> byte) option" where
  "executes w (GetBody req) = (if gq_Subcommand req = CHANNEL_GET_INIT then None
     else Some (APP_CHANNEL_GET, gq_ServerChannelID req, gq_RequestID req, gq_Subcommand req))"
| "executes w (MonitorBody req) = (if flagged (mq_Subcommand req) CHANNEL_MONITOR_INIT then None
     else Some (APP_CHANNEL_MONITOR, mq_ServerChannelID req, mq_RequestID req, mq_Subcommand req))"
| "executes w (RPCBody req) = (case arguments w ''RPC'' (rq_PVRequest req) of
       Inl e \<Rightarrow> None
     | Inr args \<Rightarrow> if rq_Subcommand req = CHANNEL_RPC_INIT then None
         else Some (APP_CHANNEL_RPC, rq_ServerChannelID req, rq_RequestID req, CHANNEL_RPC_INIT))"
| "executes w _ = None"

lemma rpc_error_encoding: "encoding LittleEndian (rpc_response_init req st) = Inr (error_wire (rq_RequestID req) CHANNEL_RPC_INIT st)"
  by (simp add: encoding_def rpc_response_init_def rpc_init_bytes reply_wire_def error_wire_def)

lemma executes_body:
  assumes t: "executes w t = Some (cmd, cid, rid, sub)" and ch: "channels c cid = Some (Some ch)"
    and r: "ready_request rid c = (Inl e, c)"
  obtains response body where "run_task w t c = reply_error w cmd response body c" "body c = (Inl e, c)"
    "\<And>st. encoding LittleEndian (response st) = Inr (error_wire rid sub st)"
proof -
  have ch': "getChannel cid c = (Inr ch, c)" using ch by (simp add: getChannel_def)
  show thesis
  proof (cases t)
    case (GetBody req)
    with t r ch' show thesis
      by (intro that [of "response_error rid sub" "bindA (getChannel cid) (\<lambda>channel. get_exec w req)"])
        (auto simp: run_task_def get_body_def reply_error_def bindA_def get_exec_def response_error_encoding split: if_splits)
  next
    case (MonitorBody req)
    with t r ch' show thesis
      by (intro that [of "response_error rid sub" "bindA (getChannel cid) (\<lambda>channel. monitor_exec req)"])
        (auto simp: run_task_def monitor_body_def reply_error_def bindA_def monitor_exec_def response_error_encoding split: if_splits)
  next
    case (RPCBody req)
    with t obtain args where args: "arguments w ''RPC'' (rq_PVRequest req) = Inr args" "rq_Subcommand req \<noteq> CHANNEL_RPC_INIT"
      "cmd = APP_CHANNEL_RPC" "cid = rq_ServerChannelID req" "rid = rq_RequestID req" "sub = CHANNEL_RPC_INIT"
      by (auto split: sum.splits if_splits)
    with RPCBody r ch' show thesis
      by (intro that [of "rpc_response_init req" "bindA (getChannel cid) (\<lambda>channel. rpc_exec w req args)"])
        (auto simp: run_task_def handleChannelRPCBody_def reply_error_def bindA_def liftA_def rpc_exec_def rpc_error_encoding)
  qed (use t in simp_all)
qed

text \<open>C27: While a request is executed, even when the response is out already, every message that
  executes it is answered with the error that the request is not ready, and changes nothing.\<close>

theorem pending_execution_rejected:
  assumes "served input bufsize c" and "at c rest out"
    and "i < length (tasks c)" and "execution (tasks c ! i) = Some (r, rid)" and "requests c rid = Some r"
    and "j < length (tasks c)" and "executes w (tasks c ! j) = Some (cmd, cid, rid, sub)" and "channels c cid = Some (Some ch)"
  shows "\<exists>k. srv_step c (Task w j) Serving ((take_task j c)\<lparr>Connection := k\<rparr>) \<and>
    at ((take_task j c)\<lparr>Connection := k\<rparr>) rest (out @ reply cmd (error_wire rid sub not_ready))"
proof -
  have "execs_ok c" using served_ok [OF assms(1)] by (simp add: server_ok_def)
  moreover have "(r, rid) \<in> set (executing (tasks c))"
    using assms(3,4) nth_mem [OF assms(3)] by (force simp: executing_def List.map_filter_def)
  ultimately have "status (heap c ! r) \<noteq> READY" by (auto simp: execs_ok_def exec_ok_def)
  with assms(5) have "ready_request rid (take_task j c) = (Inl (StatusErr not_ready), take_task j c)"
    by (intro ready_request_busy) simp_all
  then obtain response body where run: "run_task w (tasks c ! j) (take_task j c) = reply_error w cmd response body (take_task j c)"
    "body (take_task j c) = (Inl (StatusErr not_ready), take_task j c)"
    "\<And>st. encoding LittleEndian (response st) = Inr (error_wire rid sub st)"
    using executes_body [OF assms(7), of "take_task j c" ch] assms(8) by auto
  have "at (take_task j c) rest out" using assms(2) at_cong [of "take_task j c" c] by simp
  from reply_error_at [where body = body and response = response and w = w and cmd = cmd, OF run(2) _ this run(3)]
  obtain k where "run_task w (tasks c ! j) (take_task j c) = (Inr (), (take_task j c)\<lparr>Connection := k\<rparr>)"
    "at ((take_task j c)\<lparr>Connection := k\<rparr>) rest (out @ reply cmd (error_wire rid sub not_ready))"
    using run(1) by auto
  with task_step [OF assms(6) this(1)] show ?thesis by (auto simp: outcome_of_def)
qed

text \<open>A message for a request that is not registered: the pointer that the table returns is nil.\<close>

lemma unknown_request_step:
  assumes "i < length (tasks c)" and "executes w (tasks c ! i) = Some (cmd, cid, rid, sub)"
    and "channels c cid = Some (Some ch)" and "requests c rid = None"
  shows "step_action (Task w i) c = (Inl (Panic NilDereference), take_task i c)"
proof -
  have none: "ready_request rid (take_task i c) = (Inl (Panic NilDereference), take_task i c)" using assms(4) by (simp add: ready_request_def)
  have ch: "channels (take_task i c) cid = Some (Some ch)" using assms(3) by simp
  obtain response body where "run_task w (tasks c ! i) (take_task i c) = reply_error w cmd response body (take_task i c)"
    "body (take_task i c) = (Inl (Panic NilDereference), take_task i c)"
    "\<And>st. encoding LittleEndian (response st) = Inr (error_wire rid sub st)"
    by (rule executes_body [OF assms(2) ch none]) blast
  then show ?thesis by (simp add: reply_error_def)
qed

text \<open>C28: Two messages crash the server: a client that creates a channel and executes a get on it without
  having initialized a request ends the program with a nil pointer, whatever the request ID. (The
  lemma \<open>unknown_request_step\<close> is the same for the executions of monitors and RPCs.)\<close>

theorem two_messages_crash_server:
  assumes "found_channel (map (\<lambda>i. CreateChannel (providers w ! i) name) (arrivals w)) None = Some ch"
    and "CreateChannelRequest_PVEncode [\<lparr>cc_ClientChannelID = cid, cc_ChannelName = name\<rparr>] (encoder LittleEndian) = (Inr (), e1)"
    and "length (ebuf e1) < 2 ^ 31" and "length name \<le> 500"
    and "ChannelGetRequest_PVEncode (get_request cid rid sub None) (encoder LittleEndian) = (Inr (), e2)"
    and "length (ebuf e2) < 2 ^ 31" and "\<not> flagged sub CHANNEL_GET_INIT"
  shows "\<exists>c d. serve_start bufsize (newConn (call APP_CHANNEL_CREATE (ebuf e1) @ call APP_CHANNEL_GET (ebuf e2))) = (Inr (), c) \<and>
    run_events [Packet w, Packet w, Task w 0] c = (Crashed NilDereference, d)"
proof -
  let ?in = "call APP_CHANNEL_CREATE (ebuf e1) @ call APP_CHANNEL_GET (ebuf e2) @ []" and ?req = "get_request cid rid sub None"
  obtain k where k: "serve_start bufsize (newConn ?in) = (Inr (), (newConn ?in)\<lparr>Connection := k\<rparr>)"
    "at ((newConn ?in)\<lparr>Connection := k\<rparr>) ?in (greeting bufsize)" using serve_start_at by blast
  let ?c = "(newConn ?in)\<lparr>Connection := k\<rparr>"
  obtain k1 where k1: "handleServerOnePacket w ?c = (Inr (), ?c\<lparr>Connection := k1, channels := (channels ?c)(cid \<mapsto> Some ch)\<rparr>)"
    "at (?c\<lparr>Connection := k1\<rparr>) (call APP_CHANNEL_GET (ebuf e2) @ []) (greeting bufsize @ reply APP_CHANNEL_CREATE (created_wire cid))"
    using create_exchange [OF k(2) assms(2,3,4) _ assms(1)] by (auto simp: newConn_def)
  let ?d = "?c\<lparr>Connection := k1, channels := (channels ?c)(cid \<mapsto> Some ch)\<rparr>"
  have "at ?d (call APP_CHANNEL_GET (ebuf e2) @ []) (greeting bufsize @ reply APP_CHANNEL_CREATE (created_wire cid))"
    using k1(2) at_cong [of ?d "?c\<lparr>Connection := k1\<rparr>"] by simp
  then obtain k2 where k2: "handleServerOnePacket w ?d = (Inr (), ?d\<lparr>Connection := k2, tasks := tasks ?d @ [GetBody ?req]\<rparr>)"
    using get_packet [OF _ assms(5,6), of ?d "[]" _ w] assms(7) by (auto simp: get_request_def flagged_def)
  let ?e = "?d\<lparr>Connection := k2, tasks := tasks ?d @ [GetBody ?req]\<rparr>"
  have "executes w (tasks ?e ! 0) = Some (APP_CHANNEL_GET, cid, rid, sub)"
    using assms(7) by (auto simp: newConn_def get_request_def flagged_def)
  from unknown_request_step [OF _ this, of ch]
  have "step_action (Task w 0) ?e = (Inl (Panic NilDereference), take_task 0 ?e)" by (simp add: newConn_def)
  then have "run_events [Packet w, Packet w, Task w 0] ?c = (Crashed NilDereference, take_task 0 ?e)"
    using k1(1) k2 by (simp add: outcome_of_def newConn_def)
  with k(1) show ?thesis by auto
qed

text \<open>
  The handlers' goroutines are not ordered, so a client need not even be wrong: it only has to send
  its execution before the reply to the initialization. All of \<open>get_session\<close> but the waiting, with
  the task of the second get before that of the first.
\<close>

lemma hasty_get_crashes:
  assumes "get_exchange w name ch v fd cid rid sub args e1 e2 e3 bs"
  shows "\<exists>c d. serve_start bufsize (newConn (client_input e1 e2 e3)) = (Inr (), c) \<and>
    run_events [Packet w, Packet w, Packet w, Task w 1] c = (Crashed NilDereference, d)"
proof -
  obtain i st where args: "args = (i, st)" by fastforce
  note hyps = assms [unfolded get_exchange_def args fst_conv snd_conv]
  let ?i3 = "call APP_CHANNEL_GET (ebuf e3) @ []"
  let ?i2 = "call APP_CHANNEL_GET (ebuf e2) @ ?i3" and ?in = "client_input e1 e2 e3"
  let ?r2 = "get_request cid rid CHANNEL_GET_INIT (Some (GPVStructure i st))" and ?r3 = "get_request cid rid sub None"
  let ?st = "\<lambda>k t. session k cid ch t [] Map.empty []"
  obtain k where k: "serve_start bufsize (newConn ?in) = (Inr (), (newConn ?in)\<lparr>Connection := k\<rparr>)"
    "at ((newConn ?in)\<lparr>Connection := k\<rparr>) ?in (greeting bufsize)" using serve_start_at by blast
  let ?c = "(newConn ?in)\<lparr>Connection := k\<rparr>"
  have "at ?c (call APP_CHANNEL_CREATE (ebuf e1) @ ?i2) (greeting bufsize)" using k(2) by (simp add: client_input_def)
  from create_exchange [OF this, of cid name w ch] hyps obtain k1 where
    k1: "handleServerOnePacket w ?c = (Inr (), ?st k1 [])" "at (?c\<lparr>Connection := k1\<rparr>) ?i2 (created_output bufsize cid)"
    by (auto simp: newConn_def session_def created_output_def)
  have "at (?st k1 []) ?i2 (created_output bufsize cid)" using session_at [OF k1(2)] by simp
  from get_packet [OF this, of ?r2 w] hyps obtain k2 where
    k2: "handleServerOnePacket w (?st k1 []) = (Inr (), ?st k2 [GetBody ?r2])" "at (?st k2 []) ?i3 (created_output bufsize cid)"
    by (auto simp: session_def get_request_def)
  have "at (?st k2 [GetBody ?r2]) ?i3 (created_output bufsize cid)" by (rule session_any [OF k2(2)])
  from get_packet [OF this, of ?r3 w] hyps obtain k3 where
    k3: "handleServerOnePacket w (?st k2 [GetBody ?r2]) = (Inr (), ?st k3 [GetBody ?r2, GetBody ?r3])"
    by (auto simp: session_def get_request_def flagged_def)
  let ?d = "?st k3 [GetBody ?r2, GetBody ?r3]"
  have "sub \<noteq> CHANNEL_GET_INIT" using hyps by (auto simp: flagged_def)
  then have "executes w (tasks ?d ! 1) = Some (APP_CHANNEL_GET, cid, rid, sub)"
    by (simp add: session_def get_request_def)
  from unknown_request_step [OF _ this, of ch] have "step_action (Task w 1) ?d = (Inl (Panic NilDereference), take_task 1 ?d)"
    by (simp add: session_def)
  then have "run_events [Packet w, Packet w, Packet w, Task w 1] ?c = (Crashed NilDereference, take_task 1 ?d)"
    using k1(1) k2(1) k3 by (simp add: outcome_of_def session_idle del: step_action.simps(2))
  with k(1) show ?thesis by blast
qed

text \<open>Cancelling does not last: a request that is cancelled while its execution is under way is ready
  again when that ends, and can be executed.\<close>

theorem cancelled_request_ready_again:
  assumes "served input bufsize c" and "i < length (tasks c)" and "tasks c ! i = Finish r rid False" and "requests c rid = Some r"
  shows "\<exists>d e. cancelRequestLocked rid c = (Inr (), d) \<and> live d rid = Some CANCELLED \<and>
    srv_step d (Task w i) Serving e \<and> live e rid = Some READY"
proof -
  have ok: "table_ok c" "execs_ok c" using served_ok [OF assms(1)] by (simp_all add: server_ok_def)
  note r = table_okD [OF ok(1) assms(4)]
  have le: "max (status (heap c ! r)) CANCELLED = CANCELLED" using r by (cases "status (heap c ! r)") (auto simp: max_def status_less_defs)
  let ?d = "call_cancel r (update_request r (raise_status CANCELLED) c)"
  have d: "cancelRequestLocked rid c = (Inr (), ?d)" using assms(4) by (simp add: cancelRequestLocked_def)
  have "live ?d rid = Some CANCELLED" using r assms(4) by (simp add: live_def update_request_def le)
  moreover have "srv_step ?d (Task w i) Serving (end_request r rid False (take_task i ?d))"
    using task_step [of i ?d w "Inr ()" "end_request r rid False (take_task i ?d)"] assms(2,3)
    by (simp add: run_task_def finish_execution_def outcome_of_def)
  moreover have "live (end_request r rid False (take_task i ?d)) rid = Some READY"
    using r assms(4) by (simp add: live_def end_request_simps)
  ultimately show ?thesis using d by blast
qed

section \<open>Other faults\<close>

text \<open>A message whose payload is missing closes the connection as if the client had gone: the end of
  the message is taken for the end of the stream.\<close>

theorem empty_message_closes:
  assumes "at c (call cmd [] @ rest) out" and "serverDispatch w cmd \<noteq> None"
  shows "\<exists>d. srv_step c (Packet w) Closed d \<and> at d rest out"
proof -
  obtain f where f: "serverDispatch w cmd = Some f" using assms(2) by blast
  then have "cmd \<noteq> APP_ECHO" by (auto simp: serverDispatch_def)
  then obtain msg k where msg: "on_conn Next c = (Inr msg, c\<lparr>Connection := k\<rparr>)" "MessageCommand (Header msg) = cmd" "Data msg = []"
    "msg_reader msg = None" "cn_dec k = decoder LittleEndian rest" "at (c\<lparr>Connection := k\<rparr>) rest out"
    by (rule next_at [OF assms(1)]) simp_all
  have "f msg (c\<lparr>Connection := k\<rparr>) = (Inl EOF, c\<lparr>Connection := k\<rparr>)"
    using handlers_nothing [OF _ msg(3,4) f, of "c\<lparr>Connection := k\<rparr>" LittleEndian rest] msg(5) by simp
  then have "handleServerOnePacket w c = (Inl EOF, c\<lparr>Connection := k\<rparr>)"
    using f msg(1,2) by (simp add: handleServerOnePacket_def bindA_def)
  with msg(6) show ?thesis by (auto simp: srv_step_iff outcome_of_def)
qed

text \<open>The ID of a channel that no provider has is taken nevertheless: the channel is unknown, and a
  second attempt is refused because it exists.\<close>

theorem unknown_name_takes_id:
  assumes "createChannel w cid name c = (Inr None, d)"
  shows "getChannel cid d = (Inl (unknown_channel cid), d) \<and>
    createChannel w' cid name' d = (Inl (OtherError (''channel '' @ int_text 10 (sint cid) @ '' already created'')), d)"
  using assms by (auto simp: createChannel_def getChannel_def Let_def split: option.splits)

text \<open>An RPC that returns no data, as one that fails may, crashes the server.\<close>

theorem rpc_without_data_crashes:
  assumes "i < length (tasks c)" and "tasks c ! i = RPCExec req args r rpcer ctx"
    and "ChannelRPC w rpcer args (ctx_done c ! ctx) = (None, err)"
  shows "srv_step c (Task w i) (Crashed ZeroReflectValue) (take_task i c)"
proof -
  have "run_task w (tasks c ! i) (take_task i c) = (Inl (Panic ZeroReflectValue), take_task i c)"
    using assms(2,3) by (simp add: run_task_def rpc_execution_def NewPVAny_def liftA_def bindA_def)
  from task_step [OF assms(1) this] show ?thesis by (simp add: outcome_of_def)
qed

text \<open>A round of a monitor that runs, with a new value.\<close>

lemma watch_round_at:
  assumes c: "at c rest out" and i: "i < length (monitors c)" and x: "monitors c ! i = x"
    and on: "w_alive x" "\<not> cancelled (w_monitor x)" "running (w_monitor x)" "\<not> pipeline (w_monitor x)"
    and v: "Nexter_Next w (w_nexter x) False = Inr (Some v)"
    and bs: "encoding LittleEndian (ChannelMonitorResponse_gval
      \<lparr>mr_RequestID = w_request x, mr_Subcommand = 0, mr_Value = Some v, OverrunBitSet = []\<rparr>) = Inr bs"
  shows "\<exists>d. srv_step c (Round w i) Serving d \<and> at d rest (out @ reply APP_CHANNEL_MONITOR bs) \<and>
    requests d = requests c \<and> length (monitors d) = length (monitors c) \<and>
    w_monitor (monitors d ! i) = Monitor_Send (Some v) (w_monitor x)"
proof -
  let ?m = "Monitor_Send (Some v) (w_monitor x)"
  let ?c = "c\<lparr>monitors := (monitors c)[i := x\<lparr>w_alive := True\<rparr>]\<rparr>"
  let ?d = "?c\<lparr>monitors := (monitors ?c)[i := x\<lparr>w_alive := True, w_monitor := ?m\<rparr>]\<rparr>"
  have m: "sendValue ?m = sendValue (w_monitor x) @ [v]"
    using on by (simp add: Monitor_Send_def Monitor_drain_def Let_def)
  have "at ?d rest out" using c at_cong [of ?d c] by simp
  from logged_send_at [OF this disjI1 [OF bs], of APP_CHANNEL_MONITOR]
  obtain k where k: "send_value (w_request x) v ?d = (Inr (), ?d\<lparr>Connection := k\<rparr>)"
    "at (?d\<lparr>Connection := k\<rparr>) rest (out @ reply APP_CHANNEL_MONITOR bs)" using bs by (auto simp: send_value_def)
  have "Monitor_Watch_round (\<lambda>done s. Some (Nexter_Next w (w_nexter x) done, s)) ((), w_monitor x, w_alive x) = ((), ?m, True)"
    using on v by (simp add: Monitor_Watch_round_def)
  then have "watch_round w i c = on_monitor i (\<lambda>_. ?m) ?c" by (simp add: watch_round_def Let_def x)
  also have "\<dots> = (Inr (), ?d\<lparr>Connection := k\<rparr>)"
    using i m k(1) by (simp add: on_monitor_def Let_def seqA_def bindA_def retA_def)
  finally have "srv_step c (Round w i) (outcome_of (Round w i) (Inr ())) (?d\<lparr>Connection := k\<rparr>)"
    using i by (auto simp: srv_step_iff)
  then show ?thesis using k(2) i by (intro exI [of _ "?d\<lparr>Connection := k\<rparr>"]) (simp add: outcome_of_def)
qed

text \<open>C29: A monitor outlives its request: destroying the request of a monitor that runs takes it out of
  the table, but the next value is sent all the same.\<close>

theorem destroyed_monitor_sends:
  assumes "at c rest out" and "i < length (monitors c)"
    and "requests c (w_request (monitors c ! i)) = Some r"
    and "w_alive (monitors c ! i)" and "\<not> cancelled (w_monitor (monitors c ! i))"
    and "running (w_monitor (monitors c ! i))" and "\<not> pipeline (w_monitor (monitors c ! i))"
    and "Nexter_Next w (w_nexter (monitors c ! i)) False = Inr (Some v)"
    and "encoding LittleEndian (ChannelMonitorResponse_gval
      \<lparr>mr_RequestID = w_request (monitors c ! i), mr_Subcommand = 0, mr_Value = Some v, OverrunBitSet = []\<rparr>) = Inr bs"
  shows "\<exists>d e. destroyRequestLocked (w_request (monitors c ! i)) c = (Inr (), d) \<and> requests d (w_request (monitors c ! i)) = None \<and>
    srv_step d (Round w i) Serving e \<and> at e rest (out @ reply APP_CHANNEL_MONITOR bs)"
proof -
  let ?u = "call_cancel r (update_request r (raise_status DESTROYED) c)"
  let ?d = "?u\<lparr>requests := (requests ?u)(w_request (monitors c ! i) := None)\<rparr>"
  have same: "monitors ?u = monitors c" "Connection ?u = Connection c"
    by (auto simp: call_cancel_def update_request_def split: option.splits)
  then have "at ?d rest out" using assms(1) at_cong [of ?d c] by simp
  from watch_round_at [OF this _ refl, of i w v bs] obtain e where
    "srv_step ?d (Round w i) Serving e" "at e rest (out @ reply APP_CHANNEL_MONITOR bs)"
    using assms same by auto
  moreover have "destroyRequestLocked (w_request (monitors c ! i)) c = (Inr (), ?d)"
    using assms(3) by (simp add: destroyRequestLocked_def Let_def)
  ultimately show ?thesis by (intro exI [of _ ?d] exI [of _ e]) simp
qed

section \<open>Examples\<close>

text \<open>A connection that has sent its greeting, with other state as it may be.\<close>

definition greeted :: "conn \<Rightarrow> (32 word \<rightharpoonup> nat option) \<Rightarrow> task list \<Rightarrow> watched list \<Rightarrow> serverConn" where
  "greeted k chs ts ms = \<lparr>requests = [5 \<mapsto> 0], heap = [new_request (Watching 0)], ctx_done = [], Connection = k,
     channels = chs, monitors = ms, tasks = ts\<rparr>"

lemma example_greeted: "\<exists>k. \<forall>chs ts ms. at (greeted k chs ts ms) input (greeting 32768)"
proof -
  obtain k where "at ((newConn input)\<lparr>Connection := k\<rparr>) input (greeting 32768)" using serve_start_at by blast
  then have "at (greeted k chs ts ms) input (greeting 32768)" for chs ts ms
    using at_cong [of "greeted k chs ts ms" "(newConn input)\<lparr>Connection := k\<rparr>"] by (simp add: greeted_def newConn_def)
  then show ?thesis by blast
qed

theorem unknown_channel_replied_witness:
  "\<exists>c d. srv_step c (Task example_world 0) Serving d \<and>
    at d [] (greeting 32768 @ reply APP_CHANNEL_GET (error_wire 5 0x40 (fatal ''unknown channel ID 1'')))"
proof -
  obtain k where k: "\<forall>chs ts ms. at (greeted k chs ts ms) [] (greeting 32768)" using example_greeted by blast
  let ?c = "greeted k Map.empty [GetBody (get_request 1 5 0x40 None)] []"
  have c: "at ?c [] (greeting 32768)" using k by blast
  have "0 < length (tasks ?c)" "body_of (tasks ?c ! 0) = Some (APP_CHANNEL_GET, 1, 5, 0x40)" "channels ?c 1 \<notin> Some ` range Some"
    by (simp_all add: greeted_def get_request_def)
  from unknown_channel_replied [OF c this, of example_world] obtain k' where
    "srv_step ?c (Task example_world 0) Serving ((take_task 0 ?c)\<lparr>Connection := k'\<rparr>)"
    "at ((take_task 0 ?c)\<lparr>Connection := k'\<rparr>) [] (greeting 32768 @ reply APP_CHANNEL_GET (error_wire 5 0x40
      (fatal (''unknown channel ID '' @ int_text 16 (sint (1 :: 32 word))))))"
    by blast
  moreover have "int_text 16 (sint (1 :: 32 word)) = ''1''" by code_simp
  ultimately show ?thesis by auto
qed

theorem empty_message_closes_witness:
  "\<exists>c d. srv_step c (Packet example_world) Closed d \<and> at d [] (greeting 32768)"
proof -
  obtain k where k: "\<forall>chs ts ms. at (greeted k chs ts ms) (call APP_CHANNEL_GET [] @ []) (greeting 32768)" using example_greeted by blast
  then have "at (greeted k Map.empty [] []) (call APP_CHANNEL_GET [] @ []) (greeting 32768)" by blast
  moreover have "serverDispatch example_world APP_CHANNEL_GET \<noteq> None" by (simp add: serverDispatch_def)
  ultimately show ?thesis using empty_message_closes by blast
qed

theorem unknown_name_takes_id_witness:
  "\<exists>d. createChannel example_world 1 ''other'' (newConn []) = (Inr None, d) \<and> getChannel 1 d = (Inl (unknown_channel 1), d) \<and>
    createChannel example_world 1 ''pv'' d = (Inl (OtherError (''channel '' @ int_text 10 (sint (1 :: 32 word)) @ '' already created'')), d)"
proof -
  have d: "createChannel example_world 1 ''other'' (newConn []) = (Inr None, (newConn [])\<lparr>channels := [1 \<mapsto> None]\<rparr>)"
    by (simp add: createChannel_def newConn_def example_world_def)
  from unknown_name_takes_id [OF d, of example_world "''pv''"] d show ?thesis by blast
qed

theorem rpc_without_data_crashes_witness:
  "\<exists>c. srv_step c (Task example_world 0) (Crashed ZeroReflectValue) (take_task 0 c)"
proof -
  let ?c = "(newConn [])\<lparr>tasks := [RPCExec \<lparr>rq_ServerChannelID = 1, rq_RequestID = 5, rq_Subcommand = 0, rq_PVRequest = None\<rparr>
    ([], GStruct [] []) 0 0 0]\<rparr>"
  have "0 < length (tasks ?c)" "ChannelRPC example_world 0 ([], GStruct [] []) (ctx_done ?c ! 0) = (None, None)"
    by (simp_all add: example_world_def)
  with rpc_without_data_crashes [of 0 ?c _ _ 0 0 0 example_world None] show ?thesis by (intro exI [of _ ?c]) simp
qed

theorem two_messages_crash_server_witness:
  "\<exists>(e1 :: estate) (e2 :: estate) c d. serve_start 32768 (newConn (call APP_CHANNEL_CREATE (ebuf e1) @ call APP_CHANNEL_GET (ebuf e2))) = (Inr (), c) \<and>
    run_events [Packet example_world, Packet example_world, Task example_world 0] c = (Crashed NilDereference, d)"
proof -
  obtain bs where "get_exchange example_world ''pv'' 0 (Some example_pv) example_fd 1 5 0x40 ([], GStruct [] [])
     (example_msg 0) (example_msg 1) (example_msg 2) bs"
    using example_exchange by blast
  then have "found_channel (map (\<lambda>i. CreateChannel (providers example_world ! i) ''pv'') (arrivals example_world)) None = Some 0"
    "CreateChannelRequest_PVEncode [\<lparr>cc_ClientChannelID = 1, cc_ChannelName = ''pv''\<rparr>] (encoder LittleEndian) = (Inr (), example_msg 0)"
    "length (ebuf (example_msg 0)) < 2 ^ 31" "length ''pv'' \<le> 500"
    "ChannelGetRequest_PVEncode (get_request 1 5 0x40 None) (encoder LittleEndian) = (Inr (), example_msg 2)"
    "length (ebuf (example_msg 2)) < 2 ^ 31" "\<not> flagged 0x40 CHANNEL_GET_INIT"
    unfolding get_exchange_def by blast+
  from two_messages_crash_server [OF this, of 32768] show ?thesis
    by - (rule exI [of _ "example_msg 0"], rule exI [of _ "example_msg 2"])
qed

text \<open>The get of the example while it is executed, with the same message behind it.\<close>

definition example_busy :: "conn \<Rightarrow> serverConn" where
  "example_busy k = session k 1 0 [GetExec (get_request 1 5 0x40 None) 0 0 0, GetBody (get_request 1 5 0x40 None)]
     [\<lparr>doer = Object 0, cancel = Some 0, status = REQUEST_IN_PROGRESS\<rparr>] [5 \<mapsto> 0] [False]"

lemma example_busy_served: "\<exists>input k out. served input 32768 (example_busy k) \<and> at (example_busy k) [] out"
proof -
  obtain bs where ex: "get_exchange example_world ''pv'' 0 (Some example_pv) example_fd 1 5 0x40 ([], GStruct [] [])
     (example_msg 0) (example_msg 1) (example_msg 2) bs"
    using example_exchange by blast
  let ?more = "call APP_CHANNEL_GET (ebuf (example_msg 2)) @ []" and ?r = "get_request 1 5 0x40 None"
  let ?s = "\<lambda>k ts. session k 1 0 ts [\<lparr>doer = Object 0, cancel = Some 0, status = REQUEST_IN_PROGRESS\<rparr>] [5 \<mapsto> 0] [False]"
  obtain c k out where c: "serve_start 32768 (newConn (client_input (example_msg 0) (example_msg 1) (example_msg 2) @ ?more)) = (Inr (), c)"
    and run: "run_events [Packet example_world, Packet example_world, Task example_world 0, Task example_world 0, Packet example_world,
      Task example_world 0] c = (Serving, ?s k [GetExec ?r 0 0 0])"
    and at: "at (session k 1 0 [] [] Map.empty []) ?more out"
    using session_running [OF ex, of 32768 ?more] by blast
  have s: "served (client_input (example_msg 0) (example_msg 1) (example_msg 2) @ ?more) 32768 (?s k [GetExec ?r 0 0 0])"
    by (rule run_events_served [OF served.start [OF c] run])
  have "ChannelGetRequest_PVEncode ?r (encoder LittleEndian) = (Inr (), example_msg 2)" "length (ebuf (example_msg 2)) < 2 ^ 31"
    using ex unfolding get_exchange_def by blast+
  moreover have "if gq_Subcommand ?r AND CHANNEL_GET_INIT = CHANNEL_GET_INIT then any_ok (gq_PVRequest ?r) else gq_PVRequest ?r = None"
    by (simp add: get_request_def)
  ultimately obtain k' where k': "handleServerOnePacket example_world (?s k [GetExec ?r 0 0 0]) =
      (Inr (), (?s k [GetExec ?r 0 0 0])\<lparr>Connection := k', tasks := tasks (?s k [GetExec ?r 0 0 0]) @ [GetBody ?r]\<rparr>)"
    "at ((?s k [GetExec ?r 0 0 0])\<lparr>Connection := k'\<rparr>) [] out"
    using get_packet [of "?s k [GetExec ?r 0 0 0]" "example_msg 2" "[]" out ?r example_world] session_at [OF at] by auto
  have eq: "(?s k [GetExec ?r 0 0 0])\<lparr>Connection := k', tasks := tasks (?s k [GetExec ?r 0 0 0]) @ [GetBody ?r]\<rparr> = example_busy k'"
    by (simp add: session_def example_busy_def)
  have "srv_step (?s k [GetExec ?r 0 0 0]) (Packet example_world) Serving (example_busy k')"
    using k'(1) unfolding eq by (auto simp: srv_step_iff outcome_of_def)
  with s have "served (client_input (example_msg 0) (example_msg 1) (example_msg 2) @ ?more) 32768 (example_busy k')" by (rule served.onward)
  moreover have "at (example_busy k') [] out"
    using k'(2) at_cong [of "example_busy k'" "(?s k [GetExec ?r 0 0 0])\<lparr>Connection := k'\<rparr>"] by (simp add: example_busy_def)
  ultimately show ?thesis by blast
qed

theorem pending_execution_rejected_witness:
  "\<exists>input out c d. served input 32768 c \<and> at c [] out \<and> srv_step c (Task example_world 1) Serving d \<and>
    at d [] (out @ reply APP_CHANNEL_GET (error_wire 5 0x40 not_ready))"
proof -
  obtain input k out where c: "served input 32768 (example_busy k)" "at (example_busy k) [] out" using example_busy_served by blast
  have "0 < length (tasks (example_busy k))" "execution (tasks (example_busy k) ! 0) = Some (0, 5)" "requests (example_busy k) 5 = Some 0"
    "1 < length (tasks (example_busy k))" "executes example_world (tasks (example_busy k) ! 1) = Some (APP_CHANNEL_GET, 1, 5, 0x40)"
    "channels (example_busy k) 1 = Some (Some 0)"
    by (simp_all add: example_busy_def session_def get_request_def)
  from pending_execution_rejected [OF c this] c show ?thesis by blast
qed

theorem cancelled_request_ready_again_witness:
  "\<exists>input c d e. served input 32768 c \<and> cancelRequestLocked 5 c = (Inr (), d) \<and> live d 5 = Some CANCELLED \<and>
    srv_step d (Task example_world 0) Serving e \<and> live e 5 = Some READY"
proof -
  obtain bs where ex: "get_exchange example_world ''pv'' 0 (Some example_pv) example_fd 1 5 0x40 ([], GStruct [] [])
     (example_msg 0) (example_msg 1) (example_msg 2) bs"
    using example_exchange by blast
  let ?s = "\<lambda>k. session k 1 0 [Finish 0 5 False] [\<lparr>doer = Object 0, cancel = Some 0, status = REQUEST_IN_PROGRESS\<rparr>] [5 \<mapsto> 0] [False]"
  obtain c k where c: "serve_start 32768 (newConn (client_input (example_msg 0) (example_msg 1) (example_msg 2))) = (Inr (), c)"
    and run: "run_events ([Packet example_world, Packet example_world, Task example_world 0, Task example_world 0, Packet example_world,
      Task example_world 0] @ [Task example_world 0]) c = (Serving, ?s k)"
    using session_replied [OF ex, of 32768] by blast
  have s: "served (client_input (example_msg 0) (example_msg 1) (example_msg 2)) 32768 (?s k)"
    by (rule run_events_served [OF served.start [OF c] run])
  have "0 < length (tasks (?s k))" "tasks (?s k) ! 0 = Finish 0 5 False" "requests (?s k) 5 = Some 0"
    by (simp_all add: session_def)
  from cancelled_request_ready_again [OF s this, of example_world] s show ?thesis by blast
qed

theorem destroyed_monitor_sends_witness:
  "\<exists>c d e bs. destroyRequestLocked 5 c = (Inr (), d) \<and> requests d 5 = None \<and>
    srv_step d (Round (example_world\<lparr>Nexter_Next := \<lambda>x done. Inr (Some example_pv)\<rparr>) 0) Serving e \<and>
    at e [] (greeting 32768 @ reply APP_CHANNEL_MONITOR bs)"
proof -
  let ?w = "example_world\<lparr>Nexter_Next := \<lambda>x done. Inr (Some example_pv)\<rparr>"
  let ?m = "\<lparr>w_request = 5, w_nexter = 0, w_monitor = (Monitor_New (GStruct [] []))\<lparr>running := True, pipeline := False\<rparr>, w_alive = True\<rparr>"
  have "\<exists>bs. encoding LittleEndian (ChannelMonitorResponse_gval \<lparr>mr_RequestID = 5, mr_Subcommand = 0, mr_Value = Some example_pv,
      OverrunBitSet = []\<rparr>) = Inr bs"
    by (simp add: encoding_def ChannelMonitorResponse_gval_def example_pv_def encode_struct_fields act_simps enc_field_plain enc_field_status
      record_changed_def scalar_enc_defs enc_field_simps enc_pv.simps diff_enc_def enc_value.simps parse_tag_name PVBitSet_enc write_bytes_def)
  then obtain bs where bs: "encoding LittleEndian (ChannelMonitorResponse_gval \<lparr>mr_RequestID = 5, mr_Subcommand = 0,
      mr_Value = Some example_pv, OverrunBitSet = []\<rparr>) = Inr bs" by blast
  obtain k where k: "\<forall>chs ts ms. at (greeted k chs ts ms) [] (greeting 32768)" using example_greeted by blast
  let ?c = "greeted k Map.empty [] [?m]"
  have "at ?c [] (greeting 32768)" using k by blast
  moreover have m: "monitors ?c ! 0 = ?m" "0 < length (monitors ?c)" "w_request ?m = 5" "w_alive ?m" "\<not> cancelled (w_monitor ?m)"
    "running (w_monitor ?m)" "\<not> pipeline (w_monitor ?m)" "requests ?c 5 = Some 0" "Nexter_Next ?w (w_nexter ?m) False = Inr (Some example_pv)"
    by (simp_all add: greeted_def Monitor_New_def)
  ultimately have "\<exists>d e. destroyRequestLocked 5 ?c = (Inr (), d) \<and> requests d 5 = None \<and>
      srv_step d (Round ?w 0) Serving e \<and> at e [] (greeting 32768 @ reply APP_CHANNEL_MONITOR bs)"
    using destroyed_monitor_sends [of ?c "[]" "greeting 32768" 0 0 ?w example_pv bs, unfolded m(1) m(3)] m(2-) bs by blast
  then show ?thesis by blast
qed

end
