(* ===== verification/PV_Listening.thy ===== *)
theory PV_Listening
  imports PV_Session
begin

text \<open>
  The server as a whole (\<open>Serve\<close> and \<open>handleConnection\<close> in server.go): the listener, the group of
  goroutines of every connection, and how they end.
\<close>

section \<open>A connection and its group\<close>

text \<open>
  The goroutines of a connection are an \<open>errgroup\<close> with a context: one runs \<open>serve\<close>, one closes the socket
  when the context is done, which is when the server stops or as soon as one of them has returned an
  error. The loops of the monitors are not in the group.
\<close>

record tcp_conn =
  tc :: serverConn
  serving :: bool
  group_err :: "gerr option"
  socket_open :: bool

datatype conn_event = Run event | Cut | Shut

definition failed :: "gerr \<Rightarrow> tcp_conn \<Rightarrow> tcp_conn" where
  "failed e t = (if group_err t = None then t\<lparr>group_err := Some e\<rparr> else t)"

definition handle_start :: "byte list \<Rightarrow> 32 word \<Rightarrow> tcp_conn" where
  "handle_start input bufsize =
     (case serve_start bufsize (newConn input) of
        (Inr u, c) \<Rightarrow> \<lparr>tc = c, serving = True, group_err = None, socket_open = True\<rparr>
      | (Inl e, c) \<Rightarrow> \<lparr>tc = c, serving = False, group_err = Some e, socket_open = True\<rparr>)"

definition is_packet :: "event \<Rightarrow> bool" where
  "is_packet ev = (case ev of Packet w \<Rightarrow> True | _ \<Rightarrow> False)"

definition is_round :: "event \<Rightarrow> bool" where
  "is_round ev = (case ev of Round w i \<Rightarrow> True | _ \<Rightarrow> False)"

fun conn_enabled :: "bool \<Rightarrow> conn_event \<Rightarrow> tcp_conn \<Rightarrow> bool" where
  "conn_enabled stopped (Run ev) t = (enabled ev (tc t) \<and> (is_packet ev \<longrightarrow> serving t))"
| "conn_enabled stopped Cut t = (serving t \<and> \<not> socket_open t)"
| "conn_enabled stopped Shut t = (socket_open t \<and> (stopped \<or> group_err t \<noteq> None))"

text \<open>
  \<open>serve\<close> returns nil when the client has gone, and an error otherwise; a read of a closed socket is an
  error (\<open>Cut\<close>). A panic ends the program.
\<close>

fun conn_do :: "conn_event \<Rightarrow> tcp_conn \<Rightarrow> panic + tcp_conn" where
  "conn_do (Run ev) t = (case step_action ev (tc t) of (r, d) \<Rightarrow> (case outcome_of ev r of
      Serving \<Rightarrow> Inr (t\<lparr>tc := d\<rparr>)
    | Closed \<Rightarrow> Inr (t\<lparr>tc := d, serving := False\<rparr>)
    | Failed e \<Rightarrow>
        if is_round ev then Inr (t\<lparr>tc := d\<rparr>)
        else Inr (failed e (t\<lparr>tc := d, serving := serving t \<and> \<not> is_packet ev\<rparr>))
    | Crashed p \<Rightarrow> Inl p))"
| "conn_do Cut t = Inr (failed (OtherError ''use of closed network connection'') (t\<lparr>serving := False\<rparr>))"
| "conn_do Shut t = Inr (t\<lparr>socket_open := False\<rparr>)"

text \<open>\<open>g.Wait\<close> in \<open>handleConnection\<close> returns.\<close>

definition group_done :: "tcp_conn \<Rightarrow> bool" where
  "group_done t \<longleftrightarrow> \<not> serving t \<and> tasks (tc t) = [] \<and> \<not> socket_open t"

section \<open>The server\<close>

record tcp_server =
  search :: search_server
  stopped :: bool
  ln_open :: bool
  accepting :: bool
  connections :: "tcp_conn list"
  crashed :: "panic option"

datatype server_event = Accept "byte list" "32 word" | AcceptFails bool | Stop | CloseListener | Conn nat conn_event

definition server_start :: "byte list \<Rightarrow> int \<Rightarrow> tcp_server" where
  "server_start ip port = \<lparr>search = \<lparr>GUID = replicate 12 0, ServerIP = ip, ServerPort = port\<rparr>, stopped = False,
     ln_open = True, accepting = True, connections = [], crashed = None\<rparr>"

definition ListenAndServe :: "gerr + byte list \<times> int \<Rightarrow> gerr + tcp_server" where
  "ListenAndServe ln = bindE ln (\<lambda>(ip, port). Inr (server_start ip port))"

text \<open>
  A step of the server, where the event is possible: a client connects, with the bytes it is going to
  send; accepting fails, for a while or for good; the context of the server is done; the listener is
  closed; a step of one of the connections.
\<close>

definition server_do :: "server_event \<Rightarrow> tcp_server \<Rightarrow> tcp_server option" where
  "server_do ev s = (if crashed s \<noteq> None then None else (case ev of
     Accept input bufsize \<Rightarrow>
       if accepting s \<and> ln_open s then Some (s\<lparr>connections := connections s @ [handle_start input bufsize]\<rparr>) else None
   | AcceptFails temporary \<Rightarrow> if accepting s then Some (if temporary then s else s\<lparr>accepting := False\<rparr>) else None
   | Stop \<Rightarrow> Some (s\<lparr>stopped := True\<rparr>)
   | CloseListener \<Rightarrow> if stopped s \<and> ln_open s then Some (s\<lparr>ln_open := False\<rparr>) else None
   | Conn i e \<Rightarrow>
       if i < length (connections s) \<and> conn_enabled (stopped s) e (connections s ! i)
       then (case conn_do e (connections s ! i) of
           Inl p \<Rightarrow> Some (s\<lparr>crashed := Some p\<rparr>)
         | Inr t \<Rightarrow> Some (s\<lparr>connections := (connections s)[i := t]\<rparr>))
       else None))"

fun server_run :: "server_event list \<Rightarrow> tcp_server \<Rightarrow> tcp_server option" where
  "server_run [] s = Some s"
| "server_run (ev # evs) s = (case server_do ev s of None \<Rightarrow> None | Some s' \<Rightarrow> server_run evs s')"

text \<open>\<open>Serve\<close> returns when all its goroutines have.\<close>

definition Serve_returns :: "tcp_server \<Rightarrow> bool" where
  "Serve_returns s \<longleftrightarrow> crashed s = None \<and> \<not> accepting s \<and> stopped s \<and> \<not> ln_open s \<and> list_all group_done (connections s)"

section \<open>What every connection keeps\<close>

lemma server_run_append: "server_run (evs @ evs') s = (case server_run evs s of None \<Rightarrow> None | Some s' \<Rightarrow> server_run evs' s')"
  by (induction evs arbitrary: s) (auto split: option.splits)

lemma server_run_induct [consumes 1, case_names start onward]:
  assumes "server_run evs s = Some s'" and "P s" and "\<And>ev s s'. P s \<Longrightarrow> server_do ev s = Some s' \<Longrightarrow> ev \<in> set evs \<Longrightarrow> P s'"
  shows "P s'"
  using assms
proof (induction evs arbitrary: s)
  case (Cons ev evs)
  from Cons.prems(1) obtain u where u: "server_do ev s = Some u" "server_run evs u = Some s'" by (auto split: option.splits)
  show ?case by (rule Cons.IH [OF u(2)]) (use Cons.prems(2,3) u(1) in \<open>auto\<close>)
qed simp

lemma conn_do_ok:
  assumes "server_ok (tc t)" and "conn_enabled st e t" and "conn_do e t = Inr t'"
  shows "server_ok (tc t')"
proof (cases e)
  case (Run ev)
  obtain r d where r: "step_action ev (tc t) = (r, d)" by fastforce
  have "srv_step (tc t) ev (outcome_of ev r) d" using r assms(2) Run by (intro srv_step.step) simp_all
  from step_ok [OF assms(1) this] have "server_ok d" .
  moreover have "tc t' = d" using assms(3) r Run by (auto simp: failed_def split: outcome.splits if_splits)
  ultimately show ?thesis by simp
qed (use assms in \<open>auto simp: failed_def\<close>)

lemma handle_start_ok: "server_ok (tc (handle_start input bufsize))"
  by (auto simp: handle_start_def dest: serve_start_ok split: prod.splits sum.splits)

lemma running_ok:
  assumes "server_run evs (server_start ip port) = Some s"
  shows "list_all (\<lambda>t. server_ok (tc t)) (connections s)"
  using assms
proof (induction rule: server_run_induct)
  case start
  show ?case by (simp add: server_start_def)
next
  case (onward ev s s')
  show ?case
  proof (cases ev)
    case (Conn i e)
    with onward(2) consider p where "s' = s\<lparr>crashed := Some p\<rparr>"
      | t where "i < length (connections s)" "conn_enabled (stopped s) e (connections s ! i)" "conn_do e (connections s ! i) = Inr t"
          "s' = s\<lparr>connections := (connections s)[i := t]\<rparr>"
      by (auto simp: server_do_def split: if_splits sum.splits)
    then show ?thesis
    proof cases
      case 2
      from onward(1) 2(1) have "server_ok (tc (connections s ! i))" by (simp add: list_all_length)
      from conn_do_ok [OF this 2(2,3)] onward(1) 2(1) show ?thesis by (simp add: 2(4) list_all_length nth_list_update)
    qed (use onward(1) in simp)
  qed (use onward handle_start_ok in \<open>auto simp: server_do_def split: if_splits\<close>)
qed

text \<open>A connection on its own is a connection of a server that serves no other.\<close>

lemma served_running:
  assumes "served input bufsize c"
  shows "\<exists>evs s. server_run evs (server_start ip port) = Some s \<and> crashed s = None \<and> \<not> stopped s \<and>
    connections s = [\<lparr>tc = c, serving = True, group_err = None, socket_open = True\<rparr>]"
  using assms
proof (induction rule: served.induct)
  case (start c)
  then show ?case
    by (intro exI [of _ "[Accept input bufsize]"]) (simp add: server_do_def server_start_def handle_start_def)
next
  case (onward c ev d)
  from onward.IH obtain evs s where s: "server_run evs (server_start ip port) = Some s" "crashed s = None" "\<not> stopped s"
    "connections s = [\<lparr>tc = c, serving = True, group_err = None, socket_open = True\<rparr>]" by blast
  from onward.hyps(2) obtain r where r: "enabled ev c" "step_action ev c = (r, d)" "outcome_of ev r = Serving"
    by (auto simp: srv_step_iff)
  have "server_do (Conn 0 (Run ev)) s = Some (s\<lparr>connections := [\<lparr>tc = d, serving = True, group_err = None, socket_open = True\<rparr>]\<rparr>)"
    using r by (simp add: server_do_def s(2-4))
  with s show ?case
    by (intro exI [of _ "evs @ [Conn 0 (Run ev)]"]) (simp add: server_run_append)
qed

section \<open>How a connection ends\<close>

lemma round_tasks: "watch_round w i c = (r, d) \<Longrightarrow> tasks d = tasks c"
proof -
  have one: "send_value rid v c = (r, d) \<Longrightarrow> tasks d = tasks c" for rid v c r d
    by (auto simp: send_value_def logged_def send_def on_conn_def split: prod.splits sum.splits if_splits)
  have each: "eachA (send_value rid) vs c = (r, d) \<Longrightarrow> tasks d = tasks c" for rid vs c r d
    by (induction vs arbitrary: c) (auto simp: act_simps dest: one split: prod.splits sum.splits)
  show "watch_round w i c = (r, d) \<Longrightarrow> tasks d = tasks c"
    by (auto simp: watch_round_def on_monitor_def Let_def dest!: each split: prod.splits)
qed

text \<open>\<open>serve\<close> has returned nil, and no other goroutine of the group is left but the one that waits.\<close>

definition idle :: "tcp_conn \<Rightarrow> bool" where
  "idle t \<longleftrightarrow> \<not> serving t \<and> group_err t = None \<and> tasks (tc t) = [] \<and> socket_open t"

lemma idle_step:
  assumes "idle t" and "conn_enabled False e t" and "conn_do e t = Inr t'"
  shows "idle t'"
proof (cases e)
  case (Run ev)
  with assms(1,2) obtain w i where ev: "ev = Round w i" by (cases ev) (auto simp: idle_def is_packet_def)
  obtain r d where r: "watch_round w i (tc t) = (r, d)" by fastforce
  have "tasks d = []" using round_tasks [OF r] assms(1) by (simp add: idle_def)
  then show ?thesis
    using assms(1,3) r Run ev by (auto simp: idle_def outcome_of_def is_round_def split: sum.splits if_splits)
qed (use assms in \<open>auto simp: idle_def\<close>)

lemma idle_stays:
  assumes "server_run later s = Some s'" and "i < length (connections s)" and "idle (connections s ! i)" and "\<not> stopped s"
    and "Stop \<notin> set later"
  shows "i < length (connections s') \<and> idle (connections s' ! i) \<and> \<not> stopped s'"
  using assms(1)
proof (induction rule: server_run_induct)
  case (onward ev s s')
  show ?case
  proof (cases ev)
    case (Conn j e)
    with onward(2) consider p where "s' = s\<lparr>crashed := Some p\<rparr>"
      | t where "j < length (connections s)" "conn_enabled (stopped s) e (connections s ! j)" "conn_do e (connections s ! j) = Inr t"
          "s' = s\<lparr>connections := (connections s)[j := t]\<rparr>"
      by (auto simp: server_do_def split: if_splits sum.splits)
    then show ?thesis
      by cases (use onward(1) idle_step in \<open>auto simp: nth_list_update\<close>)
  qed (use onward assms(5) in \<open>auto simp: server_do_def nth_append split: if_splits\<close>)
qed (use assms in simp)

lemma gone_idle:
  assumes "srv_step c (Packet w) Closed d" and "tasks d = []"
  shows "\<exists>t. conn_do (Run (Packet w)) \<lparr>tc = c, serving = True, group_err = None, socket_open = True\<rparr> = Inr t \<and> idle t"
proof -
  from assms(1) obtain r where "step_action (Packet w) c = (r, d)" "outcome_of (Packet w) r = Closed" by (auto simp: srv_step_iff)
  with assms(2) show ?thesis by (simp add: idle_def)
qed

section \<open>How the server ends\<close>

definition cleanup :: "server_event set" where
  "cleanup = {CloseListener, AcceptFails False} \<union> (\<Union>i. {Conn i Shut, Conn i Cut})"

lemma close_one:
  assumes "crashed s = None" and "stopped s" and "i < length (connections s)" and "tasks (tc (connections s ! i)) = []"
  shows "\<exists>later t. server_run later s = Some (s\<lparr>connections := (connections s)[i := t]\<rparr>) \<and> set later \<subseteq> cleanup \<and> group_done t"
proof -
  let ?t = "connections s ! i"
  let ?u = "?t\<lparr>socket_open := False\<rparr>"
  let ?s = "s\<lparr>connections := (connections s)[i := ?u]\<rparr>"
  obtain evs where evs: "server_run evs s = Some ?s" "set evs \<subseteq> cleanup"
  proof (cases "socket_open ?t")
    case True
    then have "server_run [Conn i Shut] s = Some ?s" using assms(1-3) by (simp add: server_do_def)
    with that [of "[Conn i Shut]"] show ?thesis by (simp add: cleanup_def)
  next
    case False
    then have "?u = ?t" by simp
    then have "?s = s" by simp
    with that [of "[]"] show ?thesis by simp
  qed
  show ?thesis
  proof (cases "serving ?t")
    case True
    let ?v = "failed (OtherError ''use of closed network connection'') (?u\<lparr>serving := False\<rparr>)"
    have "server_run [Conn i Cut] ?s = Some (s\<lparr>connections := (connections s)[i := ?v]\<rparr>)"
      using True assms(1,3) by (simp add: server_do_def)
    with evs have "server_run (evs @ [Conn i Cut]) s = Some (s\<lparr>connections := (connections s)[i := ?v]\<rparr>)"
      by (simp add: server_run_append)
    moreover have "group_done ?v" using assms(4) by (simp add: group_done_def failed_def)
    moreover have "set (evs @ [Conn i Cut]) \<subseteq> cleanup" using evs(2) by (auto simp: cleanup_def)
    ultimately show ?thesis by blast
  next
    case False
    then have "group_done ?u" using assms(4) by (simp add: group_done_def)
    with evs show ?thesis by blast
  qed
qed

lemma close_all:
  assumes "crashed s = None" and "stopped s" and "list_all (\<lambda>t. tasks (tc t) = []) (connections s)" and "n \<le> length (connections s)"
  shows "\<exists>later ts. server_run later s = Some (s\<lparr>connections := ts @ drop n (connections s)\<rparr>) \<and> set later \<subseteq> cleanup \<and>
    length ts = n \<and> list_all group_done ts"
  using assms(4)
proof (induction n)
  case 0
  show ?case by (intro exI [of _ "[]"]) simp
next
  case (Suc n)
  then obtain later ts where l: "server_run later s = Some (s\<lparr>connections := ts @ drop n (connections s)\<rparr>)" "set later \<subseteq> cleanup"
    "length ts = n" "list_all group_done ts" by auto
  let ?s = "s\<lparr>connections := ts @ drop n (connections s)\<rparr>"
  have drop: "drop n (connections s) = connections s ! n # drop (Suc n) (connections s)" using Suc.prems by (simp add: Cons_nth_drop_Suc)
  have "tasks (tc (connections ?s ! n)) = []" using assms(3) Suc.prems l(3) by (simp add: drop nth_append list_all_length)
  from close_one [OF _ _ _ this] obtain mores t where m: "server_run mores ?s = Some (?s\<lparr>connections := (connections ?s)[n := t]\<rparr>)"
    "set mores \<subseteq> cleanup" "group_done t" using assms(1,2) Suc.prems l(3) by auto
  have "(connections ?s)[n := t] = (ts @ [t]) @ drop (Suc n) (connections s)" by (simp add: drop list_update_append l(3))
  with m l show ?case
    by (intro exI [of _ "later @ mores"] exI [of _ "ts @ [t]"]) (simp add: server_run_append)
qed

text \<open>A listener that fails for good ends the accepting, but \<open>Serve\<close> waits until it is told to stop.\<close>

lemma Serve_waits:
  assumes "server_run evs s = Some s'" and "\<not> stopped s" and "Stop \<notin> set evs"
  shows "\<not> Serve_returns s'"
proof -
  from assms(1) have "\<not> stopped s'"
  proof (induction rule: server_run_induct)
    case (onward ev s s')
    then show ?case using assms(3) by (auto simp: server_do_def split: server_event.splits if_splits sum.splits)
  qed (use assms(2) in simp)
  then show ?thesis by (simp add: Serve_returns_def)
qed

section \<open>Properties\<close>

text \<open>C24: No request is executed twice at a time: in every state of a server and on every connection, an
  execution is the only one of its request, the request is not ready, so no other can begin, and it is
  registered under no other ID than the one it was executed by.\<close>

theorem no_overlapping_executions:
  assumes "server_run evs (server_start ip port) = Some s" and "t \<in> set (connections s)"
    and "i < length (tasks (tc t))" and "execution (tasks (tc t) ! i) = Some (r, rid)"
  shows "{j. j < length (tasks (tc t)) \<and> r \<in> fst ` set_option (execution (tasks (tc t) ! j))} = {i} \<and>
    r < length (heap (tc t)) \<and> status (heap (tc t) ! r) \<noteq> READY \<and> {x. requests (tc t) x = Some r} \<subseteq> {rid}"
proof -
  have "server_ok (tc t)" using running_ok [OF assms(1)] assms(2) by (simp add: list_all_iff)
  from conn_executions [OF this assms(3,4)] show ?thesis .
qed

theorem no_overlapping_executions_witness:
  "\<exists>evs s t. server_run evs (server_start [10, 0, 0, 1] 5075) = Some s \<and> t \<in> set (connections s) \<and>
    execution (tasks (tc t) ! 0) = Some (0, 5) \<and>
    {j. j < length (tasks (tc t)) \<and> 0 \<in> fst ` set_option (execution (tasks (tc t) ! j))} = {0} \<and>
    0 < length (heap (tc t)) \<and> status (heap (tc t) ! 0) \<noteq> READY \<and> {x. requests (tc t) x = Some 0} \<subseteq> {5}"
proof -
  obtain input k where "served input 32768 (example_state k)" using example_served by blast
  then obtain evs s where s: "server_run evs (server_start [10, 0, 0, 1] 5075) = Some s"
    "connections s = [\<lparr>tc = example_state k, serving = True, group_err = None, socket_open = True\<rparr>]"
    using served_running by blast
  let ?t = "\<lparr>tc = example_state k, serving = True, group_err = None, socket_open = True\<rparr>"
  have t: "?t \<in> set (connections s)" "tc ?t = example_state k" by (simp_all add: s(2))
  have "0 < length (tasks (tc ?t))" "execution (tasks (tc ?t) ! 0) = Some (0, 5)" unfolding t(2) by (rule example_state_simps)+
  note no_overlapping_executions [OF s(1) t(1) this]
  with s(1) t(1) \<open>execution (tasks (tc ?t) ! 0) = Some (0, 5)\<close> show ?thesis
    by - (rule exI [of _ evs], rule exI [of _ s], rule exI [of _ ?t], intro conjI, simp_all only: simp_thms)
qed

text \<open>C25: The tables of requests stay well formed: whatever the clients send, the applications answer and the
  scheduler picks, an ID that is registered on a connection stands for an object of its heap that no
  other ID stands for and that is not destroyed.\<close>

theorem registered_requests:
  assumes "server_run evs (server_start ip port) = Some s" and "t \<in> set (connections s)" and "requests (tc t) rid = Some r"
  shows "r < length (heap (tc t)) \<and> status (heap (tc t) ! r) \<noteq> DESTROYED \<and> {x. requests (tc t) x = Some r} = {rid}"
proof -
  have "server_ok (tc t)" using running_ok [OF assms(1)] assms(2) by (simp add: list_all_iff)
  from conn_requests [OF this assms(3)] show ?thesis .
qed

theorem registered_requests_witness:
  "\<exists>evs s t. server_run evs (server_start [10, 0, 0, 1] 5075) = Some s \<and> t \<in> set (connections s) \<and> requests (tc t) 5 = Some 0 \<and>
     0 < length (heap (tc t)) \<and> status (heap (tc t) ! 0) \<noteq> DESTROYED \<and> {x. requests (tc t) x = Some 0} = {5}"
proof -
  obtain input k where "served input 32768 (example_state k)" using example_served by blast
  then obtain evs s where s: "server_run evs (server_start [10, 0, 0, 1] 5075) = Some s"
    "connections s = [\<lparr>tc = example_state k, serving = True, group_err = None, socket_open = True\<rparr>]"
    using served_running by blast
  let ?t = "\<lparr>tc = example_state k, serving = True, group_err = None, socket_open = True\<rparr>"
  have t: "?t \<in> set (connections s)" "tc ?t = example_state k" by (simp_all add: s(2))
  have "requests (tc ?t) 5 = Some 0" unfolding t(2) by (rule example_state_simps)
  note registered_requests [OF s(1) t(1) this]
  with s(1) t(1) \<open>requests (tc ?t) 5 = Some 0\<close> show ?thesis
    by - (rule exI [of _ evs], rule exI [of _ s], rule exI [of _ ?t], intro conjI, simp_all only: simp_thms)
qed

text \<open>C37: The socket of a client that has gone, and whose requests are all answered, stays open (the write of a
  pending task could still fail and end the group): \<open>serve\<close> returns nil, so the context of the group is
  not done, and whatever happens until the server is stopped, the connection is not closed.\<close>

theorem client_gone_socket_stays:
  assumes "i < length (connections s)" and "connections s ! i = \<lparr>tc = c, serving = True, group_err = None, socket_open = True\<rparr>"
    and "srv_step c (Packet w) Closed d" and "tasks d = []" and "\<not> stopped s"
    and "server_run (Conn i (Run (Packet w)) # later) s = Some s'" and "Stop \<notin> set later"
  shows "i < length (connections s') \<and> socket_open (connections s' ! i) \<and> \<not> serving (connections s' ! i) \<and>
    \<not> group_done (connections s' ! i)"
proof -
  from gone_idle [OF assms(3,4)] obtain t where
    t: "conn_do (Run (Packet w)) \<lparr>tc = c, serving = True, group_err = None, socket_open = True\<rparr> = Inr t" "idle t" by blast
  let ?s = "s\<lparr>connections := (connections s)[i := t]\<rparr>"
  have "crashed s = None" using assms(6) by (auto simp: server_do_def split: if_splits)
  then have "server_do (Conn i (Run (Packet w))) s = Some ?s" using assms(1) t(1) by (simp add: server_do_def assms(2) is_packet_def)
  then have "server_run later ?s = Some s'" using assms(6) by simp
  from idle_stays [OF this _ _ _ assms(7)] t(2) assms(1,5)
  show ?thesis by (auto simp: idle_def group_done_def)
qed

theorem client_gone_socket_stays_witness:
  "\<exists>s s'. server_run [Accept [] 32768] (server_start [10, 0, 0, 1] 5075) = Some s \<and>
     server_run [Conn 0 (Run (Packet example_world)), Accept [] 32768, AcceptFails True] s = Some s' \<and>
     socket_open (connections s' ! 0) \<and> \<not> serving (connections s' ! 0)"
proof -
  obtain c where c: "serve_start 32768 (newConn []) = (Inr (), c)" "srv_step c (Packet example_world) Closed c"
    using serve_greeting [of 32768 "[]" example_world] by blast
  have tasks: "tasks c = []" using serve_start_at [of 32768 "[]"] c(1) by (auto simp: newConn_def)
  let ?t = "\<lparr>tc = c, serving = True, group_err = None, socket_open = True\<rparr>"
  obtain s where s: "server_run [Accept [] 32768] (server_start [10, 0, 0, 1] 5075) = Some s"
    "connections s = [?t]" "\<not> stopped s" "crashed s = None" "accepting s" "ln_open s"
    using c(1) by (simp add: server_do_def server_start_def handle_start_def)
  from gone_idle [OF c(2) tasks] obtain t where "conn_do (Run (Packet example_world)) ?t = Inr t" by blast
  then obtain s' where s': "server_run [Conn 0 (Run (Packet example_world)), Accept [] 32768, AcceptFails True] s = Some s'"
    by (simp add: server_do_def s is_packet_def)
  have "0 < length (connections s)" "connections s ! 0 = ?t" "Stop \<notin> set [Accept [] 32768, AcceptFails True]" by (simp_all add: s(2))
  from client_gone_socket_stays [OF this(1,2) c(2) tasks s(3) s' this(3)] s(1) s' show ?thesis by blast
qed

text \<open>C38: A server that is told to stop can always come to its end by itself: when no task is pending, closing
  the listener and the connections, with the errors this gives to those who wait, lets \<open>Serve\<close> return.\<close>

theorem shutdown_completes:
  assumes "stopped s" and "crashed s = None" and "list_all (\<lambda>t. tasks (tc t) = []) (connections s)"
  shows "\<exists>later s'. server_run later s = Some s' \<and> set later \<subseteq> cleanup \<and> Serve_returns s'"
proof -
  from close_all [OF assms(2,1,3), of "length (connections s)"] obtain later ts where
    l: "server_run later s = Some (s\<lparr>connections := ts\<rparr>)" "set later \<subseteq> cleanup" "list_all group_done ts" by auto
  let ?last = "(if ln_open s then [CloseListener] else []) @ (if accepting s then [AcceptFails False] else [])"
  have "\<exists>s'. server_run ?last (s\<lparr>connections := ts\<rparr>) = Some s' \<and> Serve_returns s'"
    using assms(1,2) l(3) by (cases "ln_open s"; cases "accepting s") (simp_all add: server_do_def Serve_returns_def)
  then obtain s' where s': "server_run ?last (s\<lparr>connections := ts\<rparr>) = Some s'" "Serve_returns s'" by blast
  have "set (later @ ?last) \<subseteq> cleanup" using l(2) by (auto simp: cleanup_def)
  moreover have "server_run (later @ ?last) s = Some s'" using l(1) s'(1) by (simp add: server_run_append)
  ultimately show ?thesis using s'(2) by blast
qed

theorem shutdown_completes_witness:
  "\<exists>s later s'. server_run [Accept [] 32768, Stop] (server_start [10, 0, 0, 1] 5075) = Some s \<and>
     server_run later s = Some s' \<and> Serve_returns s'"
proof -
  obtain k where "serve_start 32768 (newConn []) = (Inr (), (newConn [])\<lparr>Connection := k\<rparr>)" using serve_start_at by blast
  then obtain s where s: "server_run [Accept [] 32768, Stop] (server_start [10, 0, 0, 1] 5075) = Some s" "stopped s" "crashed s = None"
    "list_all (\<lambda>t. tasks (tc t) = []) (connections s)"
    by (simp add: server_do_def server_start_def handle_start_def newConn_def)
  from shutdown_completes [OF s(2-4)] s(1) show ?thesis by blast
qed

end
