(* ===== verification/PV_StatusChannel.thy ===== *)
theory PV_StatusChannel
  imports PV_Session
begin

text \<open>
  The channel "server" that every server provides (internal/server/status/status.go): an RPC that lists
  the channels of all providers or describes the server.
\<close>

section \<open>The channel\<close>

text \<open>
  What the channel takes from outside: the providers of the server, and for the description of the
  server the name of its program, its host, the operating system and the architecture; \<open>quote\<close> is \<open>\%q\<close>.
\<close>

record status_env =
  se_Server :: "provider list"
  Args0 :: string
  Hostname :: string
  GOOS :: string
  GOARCH :: string
  se_quote :: "string \<Rightarrow> string"

definition status_Name :: string where
  "status_Name = ''server''"

text \<open>\<open>self\<close> is the object that the channel is.\<close>

definition status_CreateChannel :: "nat \<Rightarrow> string \<Rightarrow> gerr + nat option" where
  "status_CreateChannel self name = Inr (if name = status_Name then Some self else None)"

text \<open>The list of providers of a new server.\<close>

definition NewServer :: "nat \<Rightarrow> provider list" where
  "NewServer self = [\<lparr>CreateChannel = status_CreateChannel self, ChannelList = None, ChannelFind = None\<rparr>]"

definition NTScalarArray_TypeID :: string where
  "NTScalarArray_TypeID = ''epics:nt/NTScalarArray:1.0''"

definition NTScalarArray :: "string list \<Rightarrow> gval" where
  "NTScalarArray vals = GPtr (GStruct NTScalarArray_TypeID [(''Value'', ''value'', strings_gval False vals)])"

text \<open>The error status of this package, and the empty struct that comes with it.\<close>

definition invalid_argument :: "string \<Rightarrow> gerr" where
  "invalid_argument what = StatusErr \<lparr>st_Type = 2, st_Message = ''invalid argument ('' @ what @ '')'', st_CallTree = []\<rparr>"

text \<open>
  The arguments in a normative URI are its query, which has to be a \<open>PVStructure\<close> by value. The
  operation is the empty string when the field is missing or no \<open>*PVString\<close>; a nil one panics.
\<close>

definition status_query :: "pvstructure \<Rightarrow> pvstructure option" where
  "status_query args =
     (if take 17 (fst args) = ''epics:nt/NTURI:1.'' then
        (case PVStructure_Field (snd args) ''query'' of Some (HStruct True i, st) \<Rightarrow> Some (i, st) | _ \<Rightarrow> None)
      else Some args)"

definition status_op :: "pvstructure \<Rightarrow> gerr + string" where
  "status_op args =
     (case PVStructure_Field (snd args) ''op'' of
        Some (HDirect, GPrim named (PVString s)) \<Rightarrow> Inr s
      | Some (HNil, GPrim named (PVString s)) \<Rightarrow> Inl (Panic NilDereference)
      | _ \<Rightarrow> Inr [])"

fun status_channels :: "provider list \<Rightarrow> string list \<Rightarrow> string list" where
  "status_channels [] vals = vals"
| "status_channels (p # ps) vals =
     status_channels ps (case ChannelList p of Some (Inr names) \<Rightarrow> vals @ names | _ \<Rightarrow> vals)"

definition status_info :: "status_env \<Rightarrow> gval" where
  "status_info env = GPtr (GStruct [] (map (\<lambda>(name, tag, s). (name, tag, GPrim False (PVString s))) [
     (''Process'', ''process'', Args0 env), (''StartTime'', ''startTime'', ''sometime''), (''Version'', ''version'', ''1.0''),
     (''ImplLang'', ''implLang'', ''Go''), (''Host'', ''host'', Hostname env), (''OS'', ''os'', GOOS env),
     (''Arch'', ''arch'', GOARCH env)]))"

definition status_ChannelRPC :: "status_env \<Rightarrow> pvstructure \<Rightarrow> gerr + gval option \<times> gerr option" where
  "status_ChannelRPC env args =
     (case status_query args of
        None \<Rightarrow> Inr (Some (GStruct [] []), Some (invalid_argument ''missing query''))
      | Some q \<Rightarrow> bindE (status_op q) (\<lambda>op. Inr (
          if op = ''channels'' then (Some (NTScalarArray (status_channels (se_Server env) [])), None)
          else if op = ''info'' then (Some (status_info env), None)
          else (Some (GPtr (GStruct [] [])), Some (invalid_argument (''unknown op '' @ se_quote env op))))))"

section \<open>The answer on the wire\<close>

lemma status_channels_eq:
  "status_channels ps vs = vs @ concat (map (\<lambda>p. case ChannelList p of Some (Inr names) \<Rightarrow> names | _ \<Rightarrow> []) ps)"
  by (induction ps vs rule: status_channels.induct) (simp_all split: option.splits sum.splits)

definition names_wire :: "string list \<Rightarrow> byte list" where
  "names_wire names = fdesc_wire LittleEndian (struct_desc NTScalarArray_TypeID [(''value'', code_desc (STRING OR VARIABLE_ARRAY))]) @
     size_wire LittleEndian (len_word (length names)) @ concat (map (string_wire LittleEndian) names)"

definition rpc_response :: "ChannelRPCRequest \<Rightarrow> pvstatus \<Rightarrow> gval option \<Rightarrow> gval" where
  "rpc_response req st data = ChannelRPCResponse_gval
     \<lparr>rr_RequestID = rq_RequestID req, rr_Subcommand = rq_Subcommand req, rr_Status = st, PVResponseData = data\<rparr>"

text \<open>The goroutine of an RPC sends one response and then ends the execution.\<close>

lemma rpc_execution_at:
  assumes c: "at c rest out" and call: "ChannelRPC w g args (ctx_done c ! ctx) = (v, err)" "NewPVAny v = Inr data"
    and bs: "encoding LittleEndian (rpc_response req (errorToStatus w err) data) = Inr bs"
  shows "\<exists>k. rpc_execution w req args r g ctx c = (Inr (), c\<lparr>Connection := k,
      tasks := tasks c @ [Finish r (rq_RequestID req) (flagged (rq_Subcommand req) CHANNEL_RPC_DESTROY)]\<rparr>) \<and>
    at (c\<lparr>Connection := k\<rparr>) rest (out @ reply APP_CHANNEL_RPC bs)"
  using logged_send_at [OF c disjI1 [OF bs], of APP_CHANNEL_RPC] bs
  by (auto simp: rpc_execution_def rpc_response_def call liftA_def seqA_def bindA_def go_def)

lemma strings_desc: "desc_field (strings_gval False names) = Inr (array_desc False (length names) (prim_desc (PVString (case names of [] \<Rightarrow> [] | n # ns \<Rightarrow> n))))"
  by (cases names) (simp_all add: strings_gval_def prototype_def)

lemma names_desc_wire:
  "fdesc_wire bo (struct_desc i [(n, array_desc False k (prim_desc (PVString s)))]) =
   fdesc_wire bo (struct_desc i [(n, code_desc (STRING OR VARIABLE_ARRAY))])"
  by (simp add: struct_desc_def code_desc_def prim_desc_def head_wire_def has_size_def)

lemma names_desc:
  "desc_loc (GIface (Some (GPVStructure i (GStruct j [(''Value'', ''value'', strings_gval False names)])))) =
   Inr (struct_desc i [(''value'', array_desc False (length names) (prim_desc (PVString (case names of [] \<Rightarrow> [] | n # ns \<Rightarrow> n))))])"
proof -
  have "field_name (''Value'', ''value'', g) = ''value''" "\<not> field_omitted (''Value'', ''value'', g)" for g
    by (simp_all add: field_name_def parse_tag_name field_omitted_def omitted_def tag_value_def)
  then show ?thesis by (simp add: strings_desc wrap_field_def)
qed

lemma names_enc:
  assumes "\<not> eucbs s" and "eorder s = LittleEndian"
  shows "PVAny_PVEncode (Some (GPVStructure NTScalarArray_TypeID (GStruct j [(''Value'', ''value'', strings_gval False names)]))) s =
    (Inr (), emit (names_wire names) s)"
proof -
  have "field_options ''value'' = []" "\<not> has_tag (snd (parse_tag ''value'')) ''breakonerror''"
    by (simp_all add: field_options_def parse_tag_name has_tag_def)
  then have field: "enc_field (''Value'', ''value'', strings_gval False names) t =
      (Inr False, emit (size_wire (eorder t) (len_word (length names)) @ concat (map (string_wire (eorder t)) names)) t)"
    if "\<not> eucbs t" for t using enc_strings_field that by blast
  then show ?thesis
    using assms unfolding PVAny_PVEncode_eq names_desc liftA_Inr
    by (simp add: act_simps FieldDesc_enc names_desc_wire enc_value.simps enc_pv.simps names_wire_def)
qed

lemma rpc_names_encoding:
  "encoding LittleEndian (rpc_response req zero_status (Some (GPVStructure NTScalarArray_TypeID
      (GStruct NTScalarArray_TypeID [(''Value'', ''value'', strings_gval False names)])))) =
   Inr (put_uint LittleEndian 4 (rq_RequestID req) @ [rq_Subcommand req, 0xFF] @ names_wire names)"
proof -
  have any: "enc_field (n, [], GAny d) s = bindA record_changed (\<lambda>_. bindA (PVAny_PVEncode d) (\<lambda>_. retA False)) s" for n d s
    by (simp add: enc_field_simps PVAny_PVEncode_def)
  show ?thesis
    by (simp add: encoding_def rpc_response_def ChannelRPCResponse_gval_def encode_struct_fields act_simps enc_field_plain
      enc_field_status record_changed_def scalar_enc_defs PVStatus_enc ok_status_wire any names_enc)
qed

lemma rpc_failed_encoding:
  assumes "status_failed st"
  shows "encoding LittleEndian (rpc_response req st data) =
    Inr (put_uint LittleEndian 4 (rq_RequestID req) @ [rq_Subcommand req] @ status_wire LittleEndian st)"
  using failed_struct_bytes [OF assms, of "rq_RequestID req" "rq_Subcommand req" "[(''PVResponseData'', [], GAny data)]" LittleEndian]
  by (simp add: encoding_def rpc_response_def ChannelRPCResponse_gval_def reply_wire_def)

text \<open>C30: The RPC of the channel "server" lists, in one response, the channels of the providers that can
  list them, in the order of the providers and without those that fail; an operation it does not know
  is answered with an error, and so is a normative URI without a query.\<close>

theorem status_rpc_answers:
  assumes "at c rest out" and "status_ChannelRPC env args = Inr (ChannelRPC w g args (ctx_done c ! ctx))"
    and "map_option status_op (status_query args) \<in> {None, Some (Inr op)}" and "op \<noteq> ''info''"
  shows "\<exists>k. rpc_execution w req args r g ctx c = (Inr (), c\<lparr>Connection := k,
      tasks := tasks c @ [Finish r (rq_RequestID req) (flagged (rq_Subcommand req) CHANNEL_RPC_DESTROY)]\<rparr>) \<and>
    at (c\<lparr>Connection := k\<rparr>) rest (out @ reply APP_CHANNEL_RPC (put_uint LittleEndian 4 (rq_RequestID req) @ [rq_Subcommand req] @
      (if status_query args = None then status_wire LittleEndian \<lparr>st_Type = 2, st_Message = ''invalid argument (missing query)'', st_CallTree = []\<rparr>
       else if op = ''channels'' then [0xFF] @ names_wire (concat (map (\<lambda>p. case ChannelList p of Some (Inr names) \<Rightarrow> names | _ \<Rightarrow> []) (se_Server env)))
       else status_wire LittleEndian \<lparr>st_Type = 2, st_Message = ''invalid argument (unknown op '' @ se_quote env op @ '')'', st_CallTree = []\<rparr>)))"
proof -
  let ?names = "concat (map (\<lambda>p. case ChannelList p of Some (Inr names) \<Rightarrow> names | _ \<Rightarrow> []) (se_Server env))"
  let ?any = "Some (GPVStructure NTScalarArray_TypeID (GStruct NTScalarArray_TypeID [(''Value'', ''value'', strings_gval False ?names)]))"
  have failed: "status_failed \<lparr>st_Type = 2, st_Message = m, st_CallTree = []\<rparr>" for m by (simp add: status_failed_def)
  have channels: "NewPVAny (Some (NTScalarArray ?names)) = Inr ?any" by (simp add: NewPVAny_def NTScalarArray_def)
  have empty: "NewPVAny (Some (GStruct [] [])) = Inr (Some (GPVStructure [] (GStruct [] [])))"
    "NewPVAny (Some (GPtr (GStruct [] []))) = Inr (Some (GPVStructure [] (GStruct [] [])))"
    by (simp_all add: NewPVAny_def)
  have call: "\<exists>k. rpc_execution w req args r g ctx c = (Inr (), c\<lparr>Connection := k,
      tasks := tasks c @ [Finish r (rq_RequestID req) (flagged (rq_Subcommand req) CHANNEL_RPC_DESTROY)]\<rparr>) \<and>
    at (c\<lparr>Connection := k\<rparr>) rest (out @ reply APP_CHANNEL_RPC bs)"
    if "status_ChannelRPC env args = Inr (v, err)" "NewPVAny v = Inr data" "encoding LittleEndian (rpc_response req (errorToStatus w err) data) = Inr bs"
    for v err data bs
  proof -
    have "ChannelRPC w g args (ctx_done c ! ctx) = (v, err)" using assms(2) that(1) by simp
    from rpc_execution_at [OF assms(1) this that(2,3)] show ?thesis .
  qed
  consider "status_query args = None" | q where "status_query args = Some q" "status_op q = Inr op" using assms(3) by auto
  then show ?thesis
  proof cases
    case 1
    then show ?thesis
      using call [OF _ empty(1), of "Some (invalid_argument ''missing query'')"] rpc_failed_encoding [OF failed, of req]
      by (simp add: status_ChannelRPC_def invalid_argument_def)
  next
    case (2 q)
    show ?thesis
    proof (cases "op = ''channels''")
      case True
      then have "status_ChannelRPC env args = Inr (Some (NTScalarArray ?names), None)"
        using 2 by (simp add: status_ChannelRPC_def status_channels_eq)
      from call [OF this channels] rpc_names_encoding [of req ?names] 2 True show ?thesis by simp
    next
      case False
      then have "status_ChannelRPC env args = Inr (Some (GPtr (GStruct [] [])), Some (invalid_argument (''unknown op '' @ se_quote env op)))"
        using 2 assms(4) by (simp add: status_ChannelRPC_def)
      from call [OF this empty(2)] rpc_failed_encoding [OF failed, of req] 2 False show ?thesis by (simp add: invalid_argument_def)
    qed
  qed
qed

definition example_env :: status_env where
  "example_env = \<lparr>se_Server = NewServer 0 @ [\<lparr>CreateChannel = (\<lambda>name. Inr None), ChannelList = Some (Inr [''pv'']), ChannelFind = None\<rparr>],
     Args0 = ''srv'', Hostname = ''host'', GOOS = ''linux'', GOARCH = ''amd64'', se_quote = (\<lambda>s. s)\<rparr>"

theorem status_rpc_answers_witness:
  "\<exists>w c k. rpc_execution w \<lparr>rq_ServerChannelID = 1, rq_RequestID = 5, rq_Subcommand = 0, rq_PVRequest = None\<rparr>
      ([], GStruct [] [(''Op'', ''op'', GPrim True (PVString ''channels''))]) 0 0 0 c = (Inr (), c\<lparr>Connection := k, tasks := tasks c @ [Finish 0 5 False]\<rparr>) \<and>
    at (c\<lparr>Connection := k\<rparr>) [] (greeting 32768 @ reply APP_CHANNEL_RPC ([5, 0, 0, 0, 0, 0xFF] @ names_wire [''pv'']))"
proof -
  let ?req = "\<lparr>rq_ServerChannelID = 1, rq_RequestID = 5, rq_Subcommand = 0, rq_PVRequest = None\<rparr>"
  let ?args = "([], GStruct [] [(''Op'', ''op'', GPrim True (PVString ''channels''))]) :: pvstructure"
  obtain k where c: "at ((newConn [])\<lparr>Connection := k\<rparr>) [] (greeting 32768)" using serve_start_at by blast
  have q: "status_query ?args = Some ?args" "status_op ?args = Inr ''channels''"
    by (simp_all add: status_query_def status_op_def field_name_def parse_tag_name)
  obtain x where x: "status_ChannelRPC example_env ?args = Inr x" using q by (simp add: status_ChannelRPC_def)
  let ?w = "example_world\<lparr>ChannelRPC := \<lambda>g args done. x\<rparr>"
  have "le_bytes 4 (5 :: 32 word) = [5, 0, 0, 0]" by code_simp
  with status_rpc_answers [OF c, of example_env ?args ?w 0 0 "''channels''" ?req 0] x q show ?thesis
    by (intro exI [of _ ?w] exI [of _ "(newConn [])\<lparr>Connection := k\<rparr>"]) (simp add: example_env_def NewServer_def flagged_def)
qed

end
