(* ===== verification/PV_Udp.thy ===== *)
theory PV_Udp
  imports PV_Search
begin

text \<open>
  The UDP listener (internal/udpconn/udpconn.go): which addresses it binds and taps, and connections
  that read one datagram and write to a list of addresses. Sockets are the operating system's: a
  socket is its local address, and the operating system decides whether a call succeeds.
\<close>

section \<open>Addresses\<close>

record udp_addr =
  addr_IP :: "byte list"
  addr_Port :: int
  addr_Zone :: string

definition mcastIP :: "byte list" where
  "mcastIP = [224, 0, 0, 128]"

definition udpPort :: int where
  "udpPort = 5076"

text \<open>\<open>net.IP.Equal\<close>: an IPv4 address is equal to its IPv6 form.\<close>

definition IP_Equal :: "byte list \<Rightarrow> byte list \<Rightarrow> bool" where
  "IP_Equal ip x \<longleftrightarrow>
     (if length ip = length x then ip = x
      else if length ip = 4 \<and> length x = 16 then take 12 x = v4_prefix \<and> drop 12 x = ip
      else if length ip = 16 \<and> length x = 4 then take 12 ip = v4_prefix \<and> drop 12 ip = x
      else False)"

text \<open>The broadcast address of a network; an address shorter than the mask panics.\<close>

definition bcastIP :: "byte list \<Rightarrow> byte list \<Rightarrow> gerr + byte list" where
  "bcastIP ip msk =
     (let ip' = (if length msk = 4 then To4 ip else ip)
      in mapE (\<lambda>i. if i < length ip' then Inr (ip' ! i OR NOT (msk ! i)) else Inl (Panic IndexRange)) [0..<length msk])"

section \<open>The listener\<close>

text \<open>\<open>net.Interface\<close> with its addresses; an address that is no \<open>*net.IPNet\<close> is \<open>None\<close>.\<close>

record ip_net =
  net_IP :: "byte list"
  net_Mask :: "byte list"

record interface =
  i_Name :: string
  i_Broadcast :: bool
  i_Addrs :: "gerr + ip_net option list"

text \<open>
  The operating system: its interfaces, the local address of the socket for sending, and the outcome
  of binding a socket and setting its options.
\<close>

record os =
  Interfaces :: "gerr + interface list"
  ListenUDP :: "gerr + udp_addr"
  bindUnicast :: "udp_addr \<Rightarrow> gerr option"
  bindBroadcast :: "udp_addr \<Rightarrow> gerr option"
  listenMulticast :: "udp_addr \<Rightarrow> gerr option"
  windows :: bool

record Listener =
  sendConn :: udp_addr
  broadcastSendAddresses :: "udp_addr list"
  lns :: "udp_addr list"
  tappedIPs :: "byte list list"

type_synonym 'a ln_act = "(Listener, 'a) act"

definition tap :: "byte list \<Rightarrow> unit ln_act" where
  "tap ip ln = (Inr (), ln\<lparr>tappedIPs := tappedIPs ln @ [ip]\<rparr>)"

definition addConn :: "udp_addr \<Rightarrow> unit ln_act" where
  "addConn laddr ln = (Inr (), ln\<lparr>lns := lns ln @ [laddr]\<rparr>)"

text \<open>A socket that is bound is added to the listener; its error ends the listener.\<close>

definition bound :: "gerr option \<Rightarrow> udp_addr \<Rightarrow> unit ln_act" where
  "bound err laddr = (case err of Some e \<Rightarrow> failA e | None \<Rightarrow> addConn laddr)"

text \<open>One address of an interface: the broadcast addresses it adds.\<close>

definition bind_addr :: "os \<Rightarrow> interface \<Rightarrow> ip_net option \<Rightarrow> udp_addr list ln_act" where
  "bind_addr os i a = (case a of
     None \<Rightarrow> retA []
   | Some addr \<Rightarrow>
       if To4 (net_IP addr) = [] then retA []
       else
         (let laddr = \<lparr>addr_IP = net_IP addr, addr_Port = udpPort, addr_Zone = []\<rparr> in
          seqA (tap (addr_IP laddr))
         (seqA (bound (bindUnicast os laddr) laddr)
         (ifA (i_Broadcast i)
            (bindA (liftA (bcastIP (net_IP addr) (net_Mask addr))) (\<lambda>ip.
               let baddr = \<lparr>addr_IP = ip, addr_Port = addr_Port laddr, addr_Zone = addr_Zone laddr\<rparr> in
               seqA (tap ip) (seqA (bound (bindBroadcast os baddr) baddr) (retA [baddr]))))
            (retA [])))))"

fun bind_addrs :: "os \<Rightarrow> interface \<Rightarrow> ip_net option list \<Rightarrow> udp_addr list \<Rightarrow> udp_addr list ln_act" where
  "bind_addrs os i [] bcasts ln = (Inr bcasts, ln)"
| "bind_addrs os i (a # as) bcasts ln = bindA (bind_addr os i a) (\<lambda>bs. bind_addrs os i as (bcasts @ bs)) ln"

fun bind_all :: "os \<Rightarrow> interface list \<Rightarrow> udp_addr list \<Rightarrow> udp_addr list ln_act" where
  "bind_all os [] bcasts ln = (Inr bcasts, ln)"
| "bind_all os (i # ifs) bcasts ln =
     bindA (liftA (i_Addrs i)) (\<lambda>addrs. bindA (bind_addrs os i addrs bcasts) (bind_all os ifs)) ln"

definition bindInterfaces :: "os \<Rightarrow> unit ln_act" where
  "bindInterfaces os =
     bindA (liftA (Interfaces os)) (\<lambda>interfaces. bindA (bind_all os interfaces []) (\<lambda>bcasts ln.
       (Inr (), ln\<lparr>broadcastSendAddresses := bcasts\<rparr>)))"

definition bindMulticast :: "os \<Rightarrow> unit ln_act" where
  "bindMulticast os =
     (let laddr = \<lparr>addr_IP = (if windows os then [] else mcastIP), addr_Port = udpPort, addr_Zone = []\<rparr>
      in bound (listenMulticast os laddr) laddr)"

definition Listen :: "os \<Rightarrow> gerr + Listener" where
  "Listen os = bindE (ListenUDP os) (\<lambda>laddr.
     fst (bindA (seqA (bindInterfaces os) (bindMulticast os)) (\<lambda>_ ln. (Inr ln, ln))
       \<lparr>sendConn = laddr, broadcastSendAddresses = [], lns = [laddr], tappedIPs = []\<rparr>))"

definition LocalAddr :: "Listener \<Rightarrow> udp_addr" where
  "LocalAddr ln = sendConn ln"

fun any_equal :: "byte list list \<Rightarrow> byte list \<Rightarrow> bool" where
  "any_equal [] ip = False"
| "any_equal (tip # tips) ip = (if IP_Equal tip ip then True else any_equal tips ip)"

definition IsTappedIP :: "Listener \<Rightarrow> byte list \<Rightarrow> bool" where
  "IsTappedIP ln ip = any_equal (tappedIPs ln) ip"

section \<open>Connections\<close>

text \<open>
  A connection over a \<open>udpconn.Conn\<close>: \<open>link\<close> holds what is still to be read of its datagram, \<open>werr\<close>
  the error that the \<open>bufio.Writer\<close> in front of it keeps, \<open>sent\<close> the datagrams that left.
\<close>

record udp_conn =
  link :: conn
  sendAddresses :: "udp_addr list"
  laddr :: udp_addr
  werr :: "gerr option"
  sent :: "(udp_addr \<times> byte list) list"

type_synonym net = "udp_addr \<Rightarrow> byte list \<Rightarrow> gerr option"

type_synonym 'a udp_act = "(udp_conn, 'a) act"

text \<open>What \<open>readLoop\<close> makes of a datagram of at most 1500 bytes, and the connection for beacons.\<close>

definition accepted :: "udp_addr \<Rightarrow> udp_addr \<Rightarrow> byte list \<Rightarrow> byte \<Rightarrow> udp_conn" where
  "accepted local ua pkt direction = \<lparr>link = New direction (take 1500 pkt), sendAddresses = [ua], laddr = local,
     werr = None, sent = []\<rparr>"

definition BroadcastConn :: "Listener \<Rightarrow> byte \<Rightarrow> udp_conn" where
  "BroadcastConn ln direction = \<lparr>link = New direction [], sendAddresses = broadcastSendAddresses ln, laddr = LocalAddr ln,
     werr = None, sent = []\<rparr>"

definition Addr :: "udp_conn \<Rightarrow> udp_addr" where
  "Addr u = hd (sendAddresses u)"

definition SetSendAddress :: "udp_addr \<Rightarrow> udp_conn \<Rightarrow> udp_conn" where
  "SetSendAddress addr u = u\<lparr>sendAddresses := [addr]\<rparr>"

text \<open>\<open>Conn.Write\<close>: one datagram to each address, until one fails.\<close>

fun Conn_Write :: "net \<Rightarrow> byte list \<Rightarrow> udp_addr list \<Rightarrow> gerr option \<times> (udp_addr \<times> byte list) list" where
  "Conn_Write net p [] = (None, [])"
| "Conn_Write net p (a # as) = (case net a p of
      Some e \<Rightarrow> (Some e, [])
    | None \<Rightarrow> (case Conn_Write net p as of (err, out) \<Rightarrow> (err, (a, p) # out)))"

text \<open>
  A message goes through a buffer of 4096 bytes that is flushed behind it: a longer one is two writes,
  the second of which bypasses the buffer when it is longer than that. The writer keeps its first
  error, and accepts nothing afterwards; the error of the flush itself is dropped.
\<close>

definition put_datagram :: "net \<Rightarrow> byte list \<Rightarrow> udp_conn \<Rightarrow> udp_conn" where
  "put_datagram net p u = (case werr u of
      Some e \<Rightarrow> u
    | None \<Rightarrow> (case Conn_Write net p (sendAddresses u) of (err, out) \<Rightarrow> u\<lparr>werr := err, sent := sent u @ out\<rparr>))"

definition put_message :: "net \<Rightarrow> byte list \<Rightarrow> unit udp_act" where
  "put_message net bs u =
     (case werr u of
        Some e \<Rightarrow> (if bs = [] then Inr () else Inl e, u)
      | None \<Rightarrow>
          if bs = [] then (Inr (), u)
          else if length bs \<le> 4096 then (Inr (), put_datagram net bs u)
          else
            (let v = put_datagram net (take 4096 bs) u; x = put_datagram net (drop 4096 bs) v;
                 seen = (if length bs - 4096 > 4096 then werr x else werr v)
             in (case seen of Some e \<Rightarrow> Inl e | None \<Rightarrow> Inr (), x)))"

text \<open>An operation of \<open>Connection\<close> that sends at most one message.\<close>

definition via :: "net \<Rightarrow> 'a conn_act \<Rightarrow> 'a udp_act" where
  "via net m u =
     (case m ((link u)\<lparr>cn_enc := (cn_enc (link u))\<lparr>ebuf := []\<rparr>\<rparr>) of
        (Inl e, d) \<Rightarrow> (Inl e, u\<lparr>link := d\<rparr>)
      | (Inr x, d) \<Rightarrow> (case put_message net (ebuf (cn_enc d)) (u\<lparr>link := d\<rparr>) of
          (Inl e, v) \<Rightarrow> (Inl e, v)
        | (Inr y, v) \<Rightarrow> (Inr x, v)))"

lemma put_message_link: "put_message net bs u = (r, v) \<Longrightarrow> link v = link u"
  by (auto simp: put_message_def put_datagram_def Let_def split: option.splits prod.splits if_splits)

lemma via_shorter:
  assumes "via net next_round u = (Inr x, v)"
  shows "length (dbuf (cn_dec (link v))) < length (dbuf (cn_dec (link u)))"
  using assms by (auto simp: via_def split: prod.splits sum.splits dest!: put_message_link next_round_shorter)

function udp_Next :: "net \<Rightarrow> Message udp_act" where
  "udp_Next net u = (case via net next_round u of
       (Inl e, v) \<Rightarrow> (Inl e, v)
     | (Inr None, v) \<Rightarrow> udp_Next net v
     | (Inr (Some msg), v) \<Rightarrow> (Inr msg, v))"
  by pat_completeness auto
termination
  by (relation "measure (\<lambda>(net, u). length (dbuf (cn_dec (link u))))") (auto dest: via_shorter [OF sym])

declare udp_Next.simps [simp del]

section \<open>What a listener binds\<close>

text \<open>The IPv4 addresses of the interfaces, with their interfaces.\<close>

definition addrs_of :: "interface \<Rightarrow> ip_net option list" where
  "addrs_of i = (case i_Addrs i of Inr as \<Rightarrow> as | Inl e \<Rightarrow> [])"

definition v4_of :: "interface \<Rightarrow> ip_net option \<Rightarrow> (interface \<times> ip_net) list" where
  "v4_of i a = (case a of None \<Rightarrow> [] | Some n \<Rightarrow> if To4 (net_IP n) = [] then [] else [(i, n)])"

definition v4_addrs :: "interface list \<Rightarrow> (interface \<times> ip_net) list" where
  "v4_addrs ifs = concat (map (\<lambda>i. concat (map (v4_of i) (addrs_of i))) ifs)"

definition bcast_of :: "ip_net \<Rightarrow> byte list" where
  "bcast_of a = (case bcastIP (net_IP a) (net_Mask a) of Inr ip \<Rightarrow> ip | Inl e \<Rightarrow> [])"

definition at_udpPort :: "byte list \<Rightarrow> udp_addr" where
  "at_udpPort ip = \<lparr>addr_IP = ip, addr_Port = udpPort, addr_Zone = []\<rparr>"

text \<open>What one address contributes: the addresses tapped, which are those bound.\<close>

definition taps :: "interface \<times> ip_net \<Rightarrow> byte list list" where
  "taps x = net_IP (snd x) # (if i_Broadcast (fst x) then [bcast_of (snd x)] else [])"

definition bcasts :: "interface \<times> ip_net \<Rightarrow> udp_addr list" where
  "bcasts x = (if i_Broadcast (fst x) then [at_udpPort (bcast_of (snd x))] else [])"

definition grew :: "(interface \<times> ip_net) list \<Rightarrow> Listener \<Rightarrow> Listener \<Rightarrow> bool" where
  "grew xs ln ln' \<longleftrightarrow> ln' = ln\<lparr>tappedIPs := tappedIPs ln @ concat (map taps xs),
     lns := lns ln @ map at_udpPort (concat (map taps xs))\<rparr>"

lemma grew_append: "grew xs ln ln' \<Longrightarrow> grew ys ln' ln'' \<Longrightarrow> grew (xs @ ys) ln ln''"
  by (simp add: grew_def)

lemma bind_addr_grew:
  assumes "bind_addr os i a ln = (Inr bs, ln')"
  shows "grew (v4_of i a) ln ln' \<and> bs = concat (map bcasts (v4_of i a))"
  using assms
  by (auto simp: bind_addr_def grew_def v4_of_def taps_def bcasts_def bcast_of_def at_udpPort_def Let_def act_simps
      tap_def bound_def addConn_def split: option.splits if_splits sum.splits)

lemma bind_addrs_grew:
  "bind_addrs os i as bs ln = (Inr bs', ln') \<Longrightarrow>
   grew (concat (map (v4_of i) as)) ln ln' \<and> bs' = bs @ concat (map bcasts (concat (map (v4_of i) as)))"
proof (induction os i as bs ln arbitrary: bs' ln' rule: bind_addrs.induct)
  case (2 os i a as bcs ln)
  from 2(2) obtain bs1 ln1 where one: "bind_addr os i a ln = (Inr bs1, ln1)" and rest: "bind_addrs os i as (bcs @ bs1) ln1 = (Inr bs', ln')"
    unfolding bind_addrs.simps by (rule bindA_InrE)
  from 2(1) [OF one rest] bind_addr_grew [OF one] show ?case by (auto dest: grew_append)
qed (simp add: grew_def)

lemma bind_all_grew:
  "bind_all os ifs bs ln = (Inr bs', ln') \<Longrightarrow> grew (v4_addrs ifs) ln ln' \<and> bs' = bs @ concat (map bcasts (v4_addrs ifs))"
proof (induction os ifs bs ln arbitrary: bs' ln' rule: bind_all.induct)
  case (2 os i ifs bcs ln)
  from 2(2) obtain addrs ln1 where "liftA (i_Addrs i) ln = (Inr addrs, ln1)"
    and rest: "bindA (bind_addrs os i addrs bcs) (bind_all os ifs) ln1 = (Inr bs', ln')"
    unfolding bind_all.simps by (rule bindA_InrE)
  then have addrs: "i_Addrs i = Inr addrs" "ln1 = ln" by (auto simp: liftA_def)
  from rest obtain bs1 ln2 where one: "bind_addrs os i addrs bcs ln = (Inr bs1, ln2)" and more: "bind_all os ifs bs1 ln2 = (Inr bs', ln')"
    unfolding addrs(2) by (rule bindA_InrE)
  have "liftA (i_Addrs i) ln = (Inr addrs, ln)" by (simp add: liftA_def addrs(1))
  from 2(1) [OF this one more] bind_addrs_grew [OF one] show ?case by (auto simp: v4_addrs_def addrs_of_def addrs(1) dest: grew_append)
qed (simp add: grew_def v4_addrs_def)

lemma any_equal_iff: "any_equal tips ip \<longleftrightarrow> (\<exists>tip \<in> set tips. IP_Equal tip ip)"
  by (induction tips) auto

text \<open>C31: A listener taps exactly the IPv4 addresses of the interfaces and the broadcast addresses of those
  that broadcast, in either form of an address; it has a socket for each, one to send from and one for
  the multicast group, and sends beacons to the broadcast addresses.\<close>

theorem Listen_taps:
  assumes "Listen os = Inr ln"
  shows "\<exists>ifs. Interfaces os = Inr ifs \<and>
    {ip. IsTappedIP ln ip} = (\<Union>(i, a) \<in> set (v4_addrs ifs). {ip. IP_Equal (net_IP a) ip} \<union> (if i_Broadcast i then {ip. IP_Equal (bcast_of a) ip} else {})) \<and>
    lns ln = LocalAddr ln # map at_udpPort (tappedIPs ln) @ [at_udpPort (if windows os then [] else mcastIP)] \<and>
    broadcastSendAddresses ln = concat (map bcasts (v4_addrs ifs))"
proof -
  from assms obtain laddr where l: "ListenUDP os = Inr laddr" by (auto simp: Listen_def bindE_def split: sum.splits)
  let ?ln = "\<lparr>sendConn = laddr, broadcastSendAddresses = [], lns = [laddr], tappedIPs = []\<rparr>"
  obtain r x where r: "bindA (seqA (bindInterfaces os) (bindMulticast os)) (\<lambda>_ ln. (Inr ln, ln)) ?ln = (r, x)" by fastforce
  with assms l have "r = Inr ln" by (simp add: Listen_def)
  with r obtain y where "seqA (bindInterfaces os) (bindMulticast os) ?ln = (Inr (), ln)"
    by (auto simp: bindA_def split: prod.splits sum.splits)
  then obtain m where m: "bindInterfaces os ?ln = (Inr (), m)" "bindMulticast os m = (Inr (), ln)" by (rule seqA_InrE)
  from m(1) obtain ifs bs n where ifs: "Interfaces os = Inr ifs" "bind_all os ifs [] ?ln = (Inr bs, n)" "m = n\<lparr>broadcastSendAddresses := bs\<rparr>"
    by (auto simp: bindInterfaces_def liftA_def bindA_def split: prod.splits sum.splits)
  from bind_all_grew [OF ifs(2)] have n: "n = ?ln\<lparr>tappedIPs := concat (map taps (v4_addrs ifs)),
      lns := laddr # map at_udpPort (concat (map taps (v4_addrs ifs)))\<rparr>" "bs = concat (map bcasts (v4_addrs ifs))"
    by (simp_all add: grew_def)
  have ln: "ln = m\<lparr>lns := lns m @ [at_udpPort (if windows os then [] else mcastIP)]\<rparr>"
    using m(2) by (auto simp: bindMulticast_def bound_def addConn_def failA_def at_udpPort_def Let_def split: option.splits)
  have tapped: "IsTappedIP ln ip \<longleftrightarrow> (\<exists>x \<in> set (v4_addrs ifs). \<exists>tip \<in> set (taps x). IP_Equal tip ip)" for ip
    by (auto simp: IsTappedIP_def any_equal_iff ln ifs(3) n)
  have "{ip. IsTappedIP ln ip} = (\<Union>(i, a) \<in> set (v4_addrs ifs). {ip. IP_Equal (net_IP a) ip} \<union> (if i_Broadcast i then {ip. IP_Equal (bcast_of a) ip} else {}))"
    unfolding tapped by (rule set_eqI) (simp add: taps_def case_prod_beta if_distrib [of set])
  with ifs(1) show ?thesis by (simp add: ln ifs(3) n LocalAddr_def)
qed

definition example_os :: os where
  "example_os = \<lparr>Interfaces = Inr [\<lparr>i_Name = ''lo'', i_Broadcast = False, i_Addrs = Inr [Some \<lparr>net_IP = [127, 0, 0, 1], net_Mask = [255, 0, 0, 0]\<rparr>,
       Some \<lparr>net_IP = replicate 15 0 @ [1], net_Mask = replicate 16 255\<rparr>]\<rparr>,
       \<lparr>i_Name = ''eth0'', i_Broadcast = True, i_Addrs = Inr [None, Some \<lparr>net_IP = v4_prefix @ [192, 168, 7, 9], net_Mask = [255, 255, 240, 0]\<rparr>]\<rparr>],
     ListenUDP = Inr \<lparr>addr_IP = replicate 16 0, addr_Port = 40000, addr_Zone = []\<rparr>,
     bindUnicast = Map.empty, bindBroadcast = Map.empty, listenMulticast = Map.empty, windows = False\<rparr>"

lemma example_ips:
  "To4 [127, 0, 0, 1] = [127, 0, 0, 1]" "To4 (replicate 15 0 @ [1]) = []" "To4 (v4_prefix @ [192, 168, 7, 9]) = [192, 168, 7, 9]"
  "bcastIP [127, 0, 0, 1] [255, 0, 0, 0] = Inr [127, 255, 255, 255]"
  "bcastIP (v4_prefix @ [192, 168, 7, 9]) [255, 255, 240, 0] = Inr [192, 168, 15, 255]"
  by code_simp+

lemma example_v4: "Interfaces example_os = Inr ifs \<Longrightarrow> map (\<lambda>(i, a). (i_Broadcast i, net_IP a, bcast_of a)) (v4_addrs ifs) =
    [(False, [127, 0, 0, 1], [127, 255, 255, 255]), (True, v4_prefix @ [192, 168, 7, 9], [192, 168, 15, 255])]"
  by (auto simp: example_os_def v4_addrs_def addrs_of_def v4_of_def bcast_of_def example_ips simp del: append.simps replicate.simps)

lemma example_Listen: "\<exists>ln. Listen example_os = Inr ln"
  by (simp add: Listen_def bindE_def example_os_def bindInterfaces_def bindMulticast_def bind_addr_def act_simps bound_def addConn_def tap_def
        example_ips Let_def)

theorem Listen_taps_witness:
  "\<exists>ln. Listen example_os = Inr ln \<and> IsTappedIP ln (v4_prefix @ [127, 0, 0, 1]) \<and> IsTappedIP ln [192, 168, 15, 255] \<and>
     \<not> IsTappedIP ln [192, 168, 7, 8]"
proof -
  obtain ln where ln: "Listen example_os = Inr ln" using example_Listen by blast
  from Listen_taps [OF ln] obtain ifs where ifs: "Interfaces example_os = Inr ifs" and
    taps: "{ip. IsTappedIP ln ip} = (\<Union>(i, a) \<in> set (v4_addrs ifs). {ip. IP_Equal (net_IP a) ip} \<union> (if i_Broadcast i then {ip. IP_Equal (bcast_of a) ip} else {}))"
    by blast
  have "IsTappedIP ln ip \<longleftrightarrow> (\<exists>(b, n, m) \<in> set (map (\<lambda>(i, a). (i_Broadcast i, net_IP a, bcast_of a)) (v4_addrs ifs)).
      IP_Equal n ip \<or> b \<and> IP_Equal m ip)" for ip
    using taps by (force simp: set_eq_iff split: if_splits)
  then have *: "IsTappedIP ln ip \<longleftrightarrow> IP_Equal [127, 0, 0, 1] ip \<or> IP_Equal (v4_prefix @ [192, 168, 7, 9]) ip \<or> IP_Equal [192, 168, 15, 255] ip" for ip
    unfolding example_v4 [OF ifs] by auto
  have "IP_Equal [127, 0, 0, 1] (v4_prefix @ [127, 0, 0, 1])" "IP_Equal [192, 168, 15, 255] [192, 168, 15, 255]"
    "\<not> IP_Equal [127, 0, 0, 1] [192, 168, 7, 8]" "\<not> IP_Equal (v4_prefix @ [192, 168, 7, 9]) [192, 168, 7, 8]"
    "\<not> IP_Equal [192, 168, 15, 255] [192, 168, 7, 8]" by code_simp+
  with * ln show ?thesis by blast
qed

end
