(* ===== verification/PV_Discovery.thy ===== *)
theory PV_Discovery
  imports PV_Udp
begin

text \<open>
  Discovery over UDP (internal/search/udp.go): the datagrams with search requests that a server
  receives, which it answers, and forwards to the other servers of its host.
\<close>

section \<open>Search requests\<close>

text \<open>\<open>c.Version\<close> is set to 2 behind \<open>connection.New\<close>.\<close>

definition with_version :: "byte \<Rightarrow> udp_conn \<Rightarrow> udp_conn" where
  "with_version v u = u\<lparr>link := (link u)\<lparr>cn_Version := v\<rparr>\<rparr>"

definition udp_decode :: "'a dec \<Rightarrow> Message \<Rightarrow> 'a udp_act" where
  "udp_decode m msg u = (case Message_Decode m (link u, msg) of (r, (d, msg')) \<Rightarrow> (r, u\<lparr>link := d\<rparr>))"

text \<open>\<open>ln.WriteMulticast\<close>, whose error is only logged.\<close>

definition mcast_addr :: udp_addr where
  "mcast_addr = \<lparr>addr_IP = mcastIP, addr_Port = udpPort, addr_Zone = []\<rparr>"

definition WriteMulticast :: "net \<Rightarrow> byte list \<Rightarrow> udp_conn \<Rightarrow> udp_conn" where
  "WriteMulticast net p u = (case net mcast_addr p of
      Some e \<Rightarrow> u
    | None \<Rightarrow> u\<lparr>sent := sent u @ [(mcast_addr, p)]\<rparr>)"

text \<open>
  The request as it is forwarded, and the packet: an origin tag with the local address in front, both
  sent over a connection of their own into a buffer, with version 0 and the sender's direction.
\<close>

definition forwarded :: "udp_addr \<Rightarrow> SearchRequest \<Rightarrow> SearchRequest" where
  "forwarded src req = req\<lparr>sr_Flags := sr_Flags req AND NOT SEARCH_UNICAST,
     ResponseAddress := (if IsUnspecified (ResponseAddress req) then copy_into (ResponseAddress req) (addr_IP src)
                         else ResponseAddress req)\<rparr>"

definition forward_packet :: "Listener \<Rightarrow> byte \<Rightarrow> udp_addr \<Rightarrow> SearchRequest \<Rightarrow> byte list" where
  "forward_packet ln flags src req =
     (let localAddrArray = copy_into (replicate 16 0) (To16 (addr_IP (LocalAddr ln)));
          fwd = New (flags AND FLAG_FROM_SERVER) [];
          (r1, fwd) = SendApp APP_ORIGIN_TAG (Coded (encode_struct (OriginTag_gval \<lparr>ForwarderAddress = localAddrArray\<rparr>))) fwd;
          (r2, fwd) = SendApp APP_SEARCH_REQUEST (Coded (encode_struct (SearchRequest_gval (forwarded src req)))) fwd
      in ebuf (cn_enc fwd))"

definition respond :: "search_server \<Rightarrow> provider list \<Rightarrow> Listener \<Rightarrow> net \<Rightarrow> byte \<Rightarrow> SearchRequest \<Rightarrow> unit udp_act" where
  "respond s ps ln net flags req u =
     (let u1 = (if sr_Flags req AND SEARCH_UNICAST = SEARCH_UNICAST
                then WriteMulticast net (forward_packet ln flags (Addr u) req) u else u);
          responseAddr = ResponseAddress req;
          u2 = (if length responseAddr > 0 \<and> \<not> IsUnspecified responseAddr
                then SetSendAddress \<lparr>addr_IP = responseAddr, addr_Port = uint (ResponsePort req), addr_Zone = []\<rparr> u1 else u1)
      in via net (Search s ps req) u2)"

lemma udp_Next_shorter: "udp_Next net u = (Inr msg, v) \<Longrightarrow> length (dbuf (cn_dec (link v))) < length (dbuf (cn_dec (link u)))"
proof (induction net u rule: udp_Next.induct)
  case (1 net u)
  obtain r x where x: "via net next_round u = (r, x)" by fastforce
  show ?case
  proof (cases "r = Inr None")
    case True
    then have "udp_Next net x = (Inr msg, v)" using 1(2) x by (simp add: udp_Next.simps [of net u])
    with 1(1) [OF x [symmetric], of None] True via_shorter [OF x [unfolded True]] show ?thesis by (auto split: sum.splits)
  next
    case False
    then obtain m where "r = Inr (Some m)" "x = v" using 1(2) x by (auto simp: udp_Next.simps [of net u] split: sum.splits option.splits)
    with via_shorter [of net u "Some m" x] x show ?thesis by simp
  qed
qed

lemma udp_decode_same: "udp_decode m msg u = (r, v) \<Longrightarrow> length (dbuf (cn_dec (link v))) = length (dbuf (cn_dec (link u)))"
  by (auto simp: udp_decode_def Message_Decode_def Let_def split: prod.splits)

text \<open>
  \<open>handleConnection\<close>: the messages of one datagram, up to its search request or a foreign origin tag.
  It ends because every message takes a header from the datagram.
\<close>

function udp_handle :: "search_server \<Rightarrow> provider list \<Rightarrow> Listener \<Rightarrow> net \<Rightarrow> unit udp_act" where
  "udp_handle s ps ln net u = (case udp_Next net u of
       (Inl e, v) \<Rightarrow> (Inl e, v)
     | (Inr msg, v) \<Rightarrow>
         if MessageCommand (Header msg) = APP_ORIGIN_TAG then
           (case udp_decode Decode_OriginTag msg v of
              (Inl e, x) \<Rightarrow> (Inl e, x)
            | (Inr req, x) \<Rightarrow>
                if \<not> IsUnspecified (ForwarderAddress req) \<and> \<not> IsTappedIP ln (ForwarderAddress req) then (Inr (), x)
                else udp_handle s ps ln net x)
         else if MessageCommand (Header msg) = APP_SEARCH_REQUEST then
           (case udp_decode Decode_SearchRequest msg v of
              (Inl e, x) \<Rightarrow> (Inl e, x)
            | (Inr req, x) \<Rightarrow> respond s ps ln net (Flags (Header msg)) req x)
         else udp_handle s ps ln net v)"
  by pat_completeness auto
termination
  by (relation "measure (\<lambda>(s, ps, ln, net, u). length (dbuf (cn_dec (link u))))")
    (auto dest!: udp_Next_shorter [OF sym] udp_decode_same [OF sym])

declare udp_handle.simps [simp del]

definition handleConnection :: "search_server \<Rightarrow> provider list \<Rightarrow> Listener \<Rightarrow> net \<Rightarrow> udp_conn \<Rightarrow> (gerr + unit) \<times> udp_conn" where
  "handleConnection s ps ln net conn = udp_handle s ps ln net (with_version 2 conn)"

section \<open>Sending one message\<close>

lemma via_SendApp:
  assumes "encoding (eorder (cn_enc (link u))) g = Inr bs"
  shows "\<exists>d. via net (SendApp cmd (Coded (encode_struct g))) u = put_message net (app_frame (link u) cmd bs) (u\<lparr>link := d\<rparr>) \<and>
    cn_dec d = cn_dec (link u) \<and> forceByteOrder d = forceByteOrder (link u) \<and> app_frame d = app_frame (link u) \<and>
    eorder (cn_enc d) = eorder (cn_enc (link u))"
proof -
  let ?c = "(link u)\<lparr>cn_enc := (cn_enc (link u))\<lparr>ebuf := []\<rparr>\<rparr>"
  have same: "app_frame ?c = app_frame (link u)" by (simp add: app_frame_def header_flags_def fun_eq_iff)
  obtain d where d: "SendApp cmd (Coded (encode_struct g)) ?c = (Inr (), d)" "wrote (app_frame ?c cmd bs) ?c d"
    using SendApp_encoding [of ?c g bs cmd] assms by auto
  note w = wroteD [OF d(2)]
  have "ebuf (cn_enc d) = app_frame (link u) cmd bs" using w(6) by (simp add: same)
  then have "via net (SendApp cmd (Coded (encode_struct g))) u = put_message net (app_frame (link u) cmd bs) (u\<lparr>link := d\<rparr>)"
    using d(1) by (simp add: via_def split: prod.splits sum.splits)
  with w same show ?thesis by (intro exI [of _ d]) simp
qed

lemma Conn_Write_ok: "(\<forall>a \<in> set as. net a p = None) \<Longrightarrow> Conn_Write net p as = (None, map (\<lambda>a. (a, p)) as)"
  by (induction as) auto

lemma put_message_ok:
  assumes "werr u = None" and "\<forall>a \<in> set (sendAddresses u). net a bs = None" and "bs \<noteq> []" and "length bs \<le> 4096"
  shows "put_message net bs u = (Inr (), u\<lparr>sent := sent u @ map (\<lambda>a. (a, bs)) (sendAddresses u)\<rparr>)"
  using assms by (cases u) (simp add: put_message_def put_datagram_def Conn_Write_ok)

section \<open>Receiving one datagram\<close>

text \<open>A connection with the bytes \<open>bs\<close> of its datagram still to be read.\<close>

definition reading :: "byte list \<Rightarrow> byte_order option \<Rightarrow> udp_conn \<Rightarrow> udp_conn" where
  "reading bs order u = u\<lparr>link := (link u)\<lparr>cn_dec := \<lparr>dbuf = bs, dorder = order, dcbs = [], ducbs = False, dcbsi = 0\<rparr>\<rparr>\<rparr>"

definition fresh :: "udp_conn \<Rightarrow> bool" where
  "fresh u \<longleftrightarrow> cn_enc (link u) = encoder LittleEndian \<and> \<not> forceByteOrder (link u) \<and> werr u = None \<and> sent u = []"

definition announces :: "byte \<Rightarrow> byte_order \<Rightarrow> bool" where
  "announces flags bo \<longleftrightarrow> flags AND FLAG_MSG_CTRL \<noteq> FLAG_MSG_CTRL \<and> (flags AND FLAG_BO_BE = FLAG_BO_BE) = (bo = BigEndian)"

lemma udp_Next_frame:
  assumes "fresh u" and "announces flags bo" and "cmd \<noteq> APP_ECHO" and "length data < 2 ^ 31"
  shows "\<exists>h. udp_Next net (reading (frame bo v flags cmd data @ rest) order u) =
     (Inr \<lparr>Header = h, Data = data, msg_reader = None\<rparr>, reading rest (Some bo) u) \<and> MessageCommand h = cmd \<and> Flags h = flags"
proof -
  let ?u = "reading (frame bo v flags cmd data @ rest) order u"
  have enc: "(link ?u)\<lparr>cn_enc := (cn_enc (link ?u))\<lparr>ebuf := []\<rparr>\<rparr> = link ?u"
    using assms(1) by (simp add: reading_def fresh_def encoder_def)
  have dbuf: "dbuf (cn_dec (link ?u)) = frame bo v flags cmd data @ rest" by (simp add: reading_def)
  have agree: "agree (link ?u) bo flags" using assms(1,2) by (simp add: reading_def fresh_def announces_def agree_def)
  have flag: "flags AND FLAG_MSG_CTRL \<noteq> FLAG_MSG_CTRL" using assms(2) by (simp add: announces_def)
  note round = next_round_frame [OF dbuf agree flag assms(3,4)]
  have "via net next_round ?u = (Inr (Some \<lparr>Header = \<lparr>Version = v, Flags = flags, MessageCommand = cmd,
       PayloadSize = word_of_nat (length data), ForceByteOrder = False\<rparr>, Data = data, msg_reader = None\<rparr>), reading rest (Some bo) u)"
    unfolding via_def enc round using assms(1) by (simp add: put_message_def reading_def fresh_def)
  then show ?thesis by (simp add: udp_Next.simps [of net ?u])
qed

lemma udp_decode_fresh:
  assumes "m (decoder bo data) = (Inr x, decoder bo data')"
  shows "udp_decode m \<lparr>Header = h, Data = data, msg_reader = None\<rparr> (reading rest (Some bo) u) = (Inr x, reading rest (Some bo) u)"
proof -
  have "(cn_dec (link (reading rest (Some bo) u)))\<lparr>dbuf := data\<rparr> = decoder bo data" by (simp add: reading_def decoder_def)
  with assms show ?thesis by (simp add: udp_decode_def Message_Decode_def Let_def) (simp add: reading_def decoder_def)
qed

lemma tag_decodes:
  assumes "length a = 16"
  shows "Decode_OriginTag (decoder bo a) = (Inr \<lparr>ForwarderAddress = a\<rparr>, decoder bo [])"
proof -
  have "reads False bo (mapUntilA (dec_field True) [(''ForwarderAddress'', [], bytes_gval (replicate 16 0))])
      [(''ForwarderAddress'', [], bytes_gval a)] (a @ []) 0"
    by (intro reads_fields_Cons reads_fields_Nil reads_bytes_field assms)
  from reads_struct [OF this]
  have "reads False bo (dec_pv (HStruct True []) zero_origin_tag) (OriginTag_gval \<lparr>ForwarderAddress = a\<rparr>) a 0"
    by (simp add: zero_origin_tag_def OriginTag_gval_def)
  moreover have "dec_value (Some (GPtr zero_origin_tag)) = bindA (dec_pv (HStruct True []) zero_origin_tag) (\<lambda>t. retA (Some (GPtr t)))"
    by (rule ext) (simp add: dec_value.simps iface_var_def zero_origin_tag_def OriginTag_gval_def)
  ultimately have "reads False bo (dec_value (Some (GPtr zero_origin_tag))) (Some (GPtr (OriginTag_gval \<lparr>ForwarderAddress = a\<rparr>))) a 0"
    using reads_map by fastforce
  from readsD [OF this, of "decoder bo a" "[]"] show ?thesis
    by (simp add: Decode_OriginTag_def decode_msg_def decode_struct_def act_simps bits_set_def pointed_def origin_tag.of_to)
qed

text \<open>The frames of origin tags.\<close>

definition tag_frames :: "byte_order \<Rightarrow> byte \<Rightarrow> byte \<Rightarrow> byte list list \<Rightarrow> byte list" where
  "tag_frames bo v flags tags = concat (map (frame bo v flags APP_ORIGIN_TAG) tags)"

definition local_tag :: "Listener \<Rightarrow> byte list \<Rightarrow> bool" where
  "local_tag ln a \<longleftrightarrow> length a = 16 \<and> (IsUnspecified a \<or> IsTappedIP ln a)"

lemma udp_handle_tag:
  assumes "fresh u" and "announces flags bo" and "length a = 16"
  shows "udp_handle s ps ln net (reading (frame bo v flags APP_ORIGIN_TAG a @ rest) order u) =
    (if local_tag ln a then udp_handle s ps ln net (reading rest (Some bo) u) else (Inr (), reading rest (Some bo) u))"
proof -
  obtain h where "udp_Next net (reading (frame bo v flags APP_ORIGIN_TAG a @ rest) order u) =
      (Inr \<lparr>Header = h, Data = a, msg_reader = None\<rparr>, reading rest (Some bo) u)" "MessageCommand h = APP_ORIGIN_TAG"
    using udp_Next_frame [OF assms(1,2), of APP_ORIGIN_TAG a net v rest order] assms(3) by auto
  with udp_decode_fresh [where m = Decode_OriginTag and h = h, OF tag_decodes [OF assms(3), of bo], of rest u] assms(3) show ?thesis
    by (simp add: udp_handle.simps [of s ps ln net "reading (frame bo v flags APP_ORIGIN_TAG a @ rest) order u"] local_tag_def)
qed

lemma udp_handle_tags:
  assumes "fresh u" and "announces flags bo" and "list_all (local_tag ln) tags"
  shows "\<exists>order'. udp_handle s ps ln net (reading (tag_frames bo v flags tags @ rest) order u) =
    udp_handle s ps ln net (reading rest order' u)"
  using assms(3)
proof (induction tags arbitrary: order)
  case (Cons a tags)
  from Cons.prems have a: "local_tag ln a" "list_all (local_tag ln) tags" by simp_all
  then have "length a = 16" by (simp add: local_tag_def)
  from udp_handle_tag [OF assms(1,2) this, of s ps ln net v "tag_frames bo v flags tags @ rest" order] a(1) Cons.IH [OF a(2)]
  show ?case by (simp add: tag_frames_def)
qed (auto simp: tag_frames_def)

lemma udp_handle_search:
  assumes "fresh u" and "announces flags bo" and "search_ok req" and "length (search_wire bo req @ extra) < 2 ^ 31"
  shows "udp_handle s ps ln net (reading (frame bo v flags APP_SEARCH_REQUEST (search_wire bo req @ extra) @ rest) order u) =
    respond s ps ln net flags req (reading rest (Some bo) u)"
proof -
  let ?data = "search_wire bo req @ extra"
  obtain h where "udp_Next net (reading (frame bo v flags APP_SEARCH_REQUEST ?data @ rest) order u) =
      (Inr \<lparr>Header = h, Data = ?data, msg_reader = None\<rparr>, reading rest (Some bo) u)" "MessageCommand h = APP_SEARCH_REQUEST" "Flags h = flags"
    using udp_Next_frame [OF assms(1,2) _ assms(4), of APP_SEARCH_REQUEST net v rest order] by auto
  with udp_decode_fresh [where m = Decode_SearchRequest and h = h, OF SearchRequest_decodes [OF assms(3), of bo extra], of rest u] show ?thesis
    by (simp add: udp_handle.simps [of s ps ln net "reading (frame bo v flags APP_SEARCH_REQUEST ?data @ rest) order u"])
qed

lemma accepted_reading:
  assumes "length pkt \<le> 1500"
  shows "\<exists>u. with_version 2 (accepted local ua pkt FLAG_FROM_SERVER) = reading pkt None u \<and> fresh u \<and>
    sendAddresses u = [ua] \<and> cn_Version (link u) = 2 \<and> Direction (link u) = FLAG_FROM_SERVER"
  using assms
  by (intro exI [of _ "with_version 2 (accepted local ua pkt FLAG_FROM_SERVER)"])
    (simp add: reading_def with_version_def accepted_def New_def fresh_def)

text \<open>What is sent for a request: the datagram for the multicast group, and the reply.\<close>

definition response_frame :: "search_server \<Rightarrow> provider list \<Rightarrow> SearchRequest \<Rightarrow> byte list" where
  "response_frame s ps req =
     frame LittleEndian 2 FLAG_FROM_SERVER APP_SEARCH_RESPONSE (response_wire LittleEndian (search_response s (ChannelProviders ps) req))"

definition reply_addr :: "udp_addr \<Rightarrow> SearchRequest \<Rightarrow> udp_addr" where
  "reply_addr ua req = (if IsUnspecified (ResponseAddress req) then ua
     else \<lparr>addr_IP = ResponseAddress req, addr_Port = uint (ResponsePort req), addr_Zone = []\<rparr>)"

definition answers :: "search_server \<Rightarrow> provider list \<Rightarrow> Listener \<Rightarrow> byte \<Rightarrow> udp_addr \<Rightarrow> SearchRequest \<Rightarrow> (udp_addr \<times> byte list) list" where
  "answers s ps ln flags ua req =
     (if sr_Flags req AND SEARCH_UNICAST = SEARCH_UNICAST then [(mcast_addr, forward_packet ln flags ua req)] else []) @
     (if sr_Channels req = [] \<and> sr_Flags req AND SEARCH_REPLY_REQUIRED \<noteq> SEARCH_REPLY_REQUIRED then []
      else [(reply_addr ua req, response_frame s ps req)])"

lemma search_response_ids: "SearchInstanceIDs (search_response s ps req) = [] \<longleftrightarrow> sr_Channels req = []"
  using found_instances_Nil [of ps "sr_Channels req"] by (auto simp: search_response_def Let_def)

lemma length_response_frame:
  "length (response_frame s ps r) = length (GUID s) + 37 + 4 * length (SearchInstanceIDs (search_response s ps r))"
  by (simp add: response_frame_def frame_def response_wire_def search_response_def Let_def copy_into_def string_wire_def
      size_wire_def len_word_def bytes_of_string_def length_concat comp_def sum_list_triv ChannelProviders_def)

lemma length_found: "length (found_instances ps chs) \<le> length ps * length chs"
  unfolding found_instances_eq
  by (induction ps) (auto simp: intro: add_mono)

lemma response_fits:
  assumes "length (GUID s) = 12" and "(length ps + 1) * length (sr_Channels r) \<le> 1000"
  shows "length (response_frame s ps r) \<le> 4096"
  using assms length_found [of ps "sr_Channels r"]
  by (simp add: length_response_frame search_response_def Let_def)

lemma via_Search:
  assumes "cn_enc (link u) = encoder LittleEndian" and "cn_Version (link u) = 2" and "Direction (link u) = FLAG_FROM_SERVER"
    and "werr u = None" and "\<And>a p. net a p = None" and "length (response_frame s ps req) \<le> 4096"
  shows "\<exists>v. via net (Search s ps req) u = (Inr (), v) \<and> sent v = sent u @
    (if sr_Channels req = [] \<and> sr_Flags req AND SEARCH_REPLY_REQUIRED \<noteq> SEARCH_REPLY_REQUIRED then []
     else map (\<lambda>a. (a, response_frame s ps req)) (sendAddresses u))"
proof (cases "sr_Channels req = [] \<and> sr_Flags req AND SEARCH_REPLY_REQUIRED \<noteq> SEARCH_REPLY_REQUIRED")
  case True
  with assms(4) show ?thesis
    by (simp add: Search_def Let_def search_response_ids via_def retA_def put_message_def assms(1))
next
  case False
  let ?resp = "search_response s (ChannelProviders ps) req"
  have frame: "app_frame (link u) APP_SEARCH_RESPONSE (response_wire LittleEndian ?resp) = response_frame s ps req"
    by (simp add: app_frame_def header_flags_def assms(1-3) response_frame_def)
  have "encoding (eorder (cn_enc (link u))) (SearchResponse_gval ?resp) = Inr (response_wire LittleEndian ?resp)"
    by (simp add: SearchResponse_encoding assms(1))
  from via_SendApp [OF this, of net APP_SEARCH_RESPONSE] obtain d where
    "via net (SendApp APP_SEARCH_RESPONSE (Coded (encode_struct (SearchResponse_gval ?resp)))) u =
     put_message net (response_frame s ps req) (u\<lparr>link := d\<rparr>)"
    unfolding frame by blast
  moreover have "Search s ps req = SendApp APP_SEARCH_RESPONSE (Coded (encode_struct (SearchResponse_gval ?resp)))"
    using False by (auto simp: Search_def Let_def search_response_ids)
  moreover have "response_frame s ps req \<noteq> []" by (simp add: response_frame_def frame_def)
  ultimately show ?thesis
    using False put_message_ok [of "u\<lparr>link := d\<rparr>" net "response_frame s ps req"] assms(4-6) by auto
qed

lemma respond_answers:
  assumes "fresh u" and "cn_Version (link u) = 2" and "Direction (link u) = FLAG_FROM_SERVER" and "sendAddresses u = [ua]"
    and "length (ResponseAddress req) = 16" and "\<And>a p. net a p = None" and "length (response_frame s ps req) \<le> 4096"
  shows "\<exists>v. respond s ps ln net flags req (reading rest order u) = (Inr (), v) \<and> sent v = answers s ps ln flags ua req"
proof -
  let ?r = "reading rest order u"
  obtain u1 where u1_def: "u1 = (if sr_Flags req AND SEARCH_UNICAST = SEARCH_UNICAST
      then WriteMulticast net (forward_packet ln flags (Addr ?r) req) ?r else ?r)" by blast
  obtain u2 where u2_def: "u2 = (if length (ResponseAddress req) > 0 \<and> \<not> IsUnspecified (ResponseAddress req)
      then SetSendAddress \<lparr>addr_IP = ResponseAddress req, addr_Port = uint (ResponsePort req), addr_Zone = []\<rparr> u1 else u1)" by blast
  have u1: "link u1 = link ?r" "werr u1 = None" "sendAddresses u1 = [ua]"
    "sent u1 = (if sr_Flags req AND SEARCH_UNICAST = SEARCH_UNICAST then [(mcast_addr, forward_packet ln flags ua req)] else [])"
    using assms(1,4,6) by (simp_all add: u1_def reading_def fresh_def WriteMulticast_def Addr_def)
  have u2: "link u2 = link ?r" "werr u2 = None" "sendAddresses u2 = [reply_addr ua req]" "sent u2 = sent u1"
    using assms(5) u1 by (auto simp: u2_def SetSendAddress_def reply_addr_def)
  have "cn_enc (link u2) = encoder LittleEndian" "cn_Version (link u2) = 2" "Direction (link u2) = FLAG_FROM_SERVER"
    using assms(1-3) by (simp_all add: u2(1) reading_def fresh_def)
  from via_Search [OF this u2(2) assms(6,7)]
  have "\<exists>v. via net (Search s ps req) u2 = (Inr (), v) \<and> sent v = sent u2 @
    (if sr_Channels req = [] \<and> sr_Flags req AND SEARCH_REPLY_REQUIRED \<noteq> SEARCH_REPLY_REQUIRED then []
     else map (\<lambda>a. (a, response_frame s ps req)) (sendAddresses u2))" .
  moreover have "respond s ps ln net flags req ?r = via net (Search s ps req) u2"
    unfolding respond_def Let_def u2_def u1_def ..
  ultimately show ?thesis unfolding u2(3,4) u1(4) list.map by (simp only: answers_def)
qed

lemma datagram_search:
  assumes "pkt = tag_frames bo v flags tags @ frame bo v flags APP_SEARCH_REQUEST (search_wire bo req @ extra) @ rest"
    and "length pkt \<le> 1500" and "announces flags bo" and "list_all (local_tag ln) tags" and "search_ok req"
    and "\<And>a p. net a p = None" and "length (GUID s) = 12" and "(length ps + 1) * length (sr_Channels req) \<le> 1000"
  shows "\<exists>x. handleConnection s ps ln net (accepted local ua pkt FLAG_FROM_SERVER) = (Inr (), x) \<and>
    sent x = answers s ps ln flags ua req"
proof -
  from accepted_reading [OF assms(2)] obtain u where u: "with_version 2 (accepted local ua pkt FLAG_FROM_SERVER) = reading pkt None u"
    "fresh u" "sendAddresses u = [ua]" "cn_Version (link u) = 2" "Direction (link u) = FLAG_FROM_SERVER" by blast
  have len: "length (search_wire bo req @ extra) < 2 ^ 31" using assms(1,2) by (simp add: frame_def)
  from udp_handle_tags [OF u(2) assms(3,4)] obtain order where "udp_handle s ps ln net (reading pkt None u) =
      udp_handle s ps ln net (reading (frame bo v flags APP_SEARCH_REQUEST (search_wire bo req @ extra) @ rest) order u)"
    unfolding assms(1) by blast
  also have "\<dots> = respond s ps ln net flags req (reading rest (Some bo) u)"
    by (rule udp_handle_search [OF u(2) assms(3,5) len])
  finally show ?thesis
    using respond_answers [where ln = ln and flags = flags and rest = rest and order = "Some bo", OF u(2,4,5,3) _ assms(6) response_fits [OF assms(7,8)]] assms(5)
    by (simp add: handleConnection_def u(1) search_ok_def)
qed

section \<open>What is forwarded\<close>

lemma shifted_id:
  assumes "i < (2 ^ 24 :: 32 word)"
  shows "1 # le_bytes 4 i = le_bytes 4 (push_bit 8 i OR 1) @ [0]"
proof -
  have "drop_bit 24 i = 0"
    using assms by (simp add: drop_bit_eq_div div_word_less word_less_nat_alt unat_div flip: unat_eq_zero)
  moreover have "ucast (push_bit 8 i OR 1 :: 32 word) = (1 :: byte)"
    by (rule bit_word_eqI) (auto simp: bit_simps bit_1_iff)
  moreover have "ucast (drop_bit k (push_bit 8 i OR 1)) = (ucast (drop_bit (k - 8) i) :: byte)" if "8 \<le> k" "k \<le> 24" for k
    by (rule bit_word_eqI) (use that in \<open>auto simp: bit_simps bit_1_iff\<close>)
  ultimately show ?thesis by (simp add: le_bytes_def upt_rec)
qed

lemma enc_channel_field:
  assumes "\<not> eucbs s" and "length name \<le> 500"
  shows "enc_field (n, '',short'', GSlice z [SearchRequest_Channel_gval \<lparr>SearchInstanceID = i, sr_ChannelName = name\<rparr>] []) s =
    (Inr False, emit (put_uint (eorder s) 2 (1 :: 16 word) @ [1] @ put_uint (eorder s) 4 i @ string_wire (eorder s) name) s)"
  using assms
  by (simp add: enc_field_simps parse_tag_short enc_pv.simps enc_elem.simps SearchRequest_Channel_gval_def act_simps without_ecbs_def array_len_enc_def
      record_changed_def scalar_enc_defs parse_tag_bound PVBoundedString_PVEncode_def PVString_enc)

lemma OriginTag_encoding: "encoding bo (OriginTag_gval m) = Inr (ForwarderAddress m)"
  by (simp add: encoding_def encode_struct_fields OriginTag_gval_def act_simps enc_bytes_field)

text \<open>The local address in an origin tag, and the direction of what is forwarded.\<close>

definition origin :: "Listener \<Rightarrow> byte list" where
  "origin ln = copy_into (replicate 16 0) (To16 (addr_IP (LocalAddr ln)))"

lemma forward_packet_eq:
  assumes "encoding LittleEndian (SearchRequest_gval (forwarded src req)) = Inr bs"
  shows "forward_packet ln flags src req =
    tag_frames LittleEndian 0 (flags AND FLAG_FROM_SERVER) [origin ln] @
    frame LittleEndian 0 (flags AND FLAG_FROM_SERVER) APP_SEARCH_REQUEST bs"
proof -
  let ?c = "New (flags AND FLAG_FROM_SERVER) []"
  have c: "eorder (cn_enc ?c) = LittleEndian" "app_frame ?c = frame LittleEndian 0 (flags AND FLAG_FROM_SERVER)" "ebuf (cn_enc ?c) = []"
    by (simp_all add: New_def app_frame_def header_flags_def fun_eq_iff)
  obtain d where d: "SendApp APP_ORIGIN_TAG (Coded (encode_struct (OriginTag_gval \<lparr>ForwarderAddress = origin ln\<rparr>))) ?c = (Inr (), d)"
      "wrote (app_frame ?c APP_ORIGIN_TAG (origin ln)) ?c d"
    using SendApp_encoding [OF OriginTag_encoding] by (metis OriginTag.select_convs(1))
  note d' = wroteD [OF d(2)]
  have "encoding (eorder (cn_enc d)) (SearchRequest_gval (forwarded src req)) = Inr bs" using assms d'(5) c(1) by simp
  from SendApp_encoding [OF this] obtain e where
    e: "SendApp APP_SEARCH_REQUEST (Coded (encode_struct (SearchRequest_gval (forwarded src req)))) d = (Inr (), e)"
      "wrote (app_frame d APP_SEARCH_REQUEST bs) d e" by blast
  note e' = wroteD [OF e(2)]
  show ?thesis
    using d(1) e(1) e'(6) by (simp add: forward_packet_def Let_def tag_frames_def d'(6,7) c flip: origin_def)
qed

lemma length_copy_into: "length (copy_into dst src) = length dst"
  by (simp add: copy_into_def)

lemma forwarded_encoding:
  assumes "sr_Channels m = [\<lparr>SearchInstanceID = i, sr_ChannelName = name\<rparr>]" and "i < 2 ^ 24" and "length name \<le> 500"
  shows "encoding bo (SearchRequest_gval m) = Inr (put_uint bo 4 (sr_SearchSequenceID m) @ [sr_Flags m] @ Reserved m @
    ResponseAddress m @ put_uint bo 2 (ResponsePort m) @ size_wire bo (len_word (length (Protocols m))) @
    concat (map (string_wire bo) (Protocols m)) @ put_uint bo 2 (1 :: 16 word) @ [1] @ put_uint bo 4 i @ string_wire bo name)"
  by (simp add: encoding_def encode_struct_fields SearchRequest_gval_def assms(1) act_simps enc_field_plain enc_bytes_field
      enc_strings_field enc_channel_field [OF _ assms(3)] record_changed_def scalar_enc_defs field_options_def has_tag_def)

lemma garbled_wire:
  assumes "sr_Channels m = [\<lparr>SearchInstanceID = i, sr_ChannelName = name\<rparr>]" and "i < 2 ^ 24" and "length name \<le> 500"
  shows "encoding LittleEndian (SearchRequest_gval m) = Inr (search_wire LittleEndian
    (m\<lparr>sr_Channels := [\<lparr>SearchInstanceID = push_bit 8 i OR 1, sr_ChannelName = []\<rparr>]\<rparr>) @ string_wire LittleEndian name)"
proof -
  have "1 # le_bytes 4 i @ xs = le_bytes 4 (push_bit 8 i OR 1) @ 0 # xs" for xs
    using shifted_id [OF assms(2)] by (metis append.assoc append_Cons append_Nil)
  moreover have "string_wire LittleEndian [] = [0]" by (simp add: string_wire_def size_wire_def len_word_def bytes_of_string_def)
  ultimately show ?thesis
    by (simp add: forwarded_encoding [OF assms] search_wire_def search_channel_wire_def)
qed

section \<open>Properties of the search server\<close>

text \<open>C32: A datagram with a search request, behind any origin tags of this host, is answered by at most two
  datagrams: the request as it is forwarded to the multicast group, when it was sent to this host alone,
  and the reply, sent to the response address or else to where the datagram came from.\<close>

theorem datagram_answered:
  assumes "pkt = tag_frames bo v flags tags @ frame bo v flags APP_SEARCH_REQUEST (search_wire bo req @ extra) @ rest"
    and "length pkt \<le> 1500" and "announces flags bo" and "list_all (local_tag ln) tags" and "search_ok req"
    and "\<And>a p. net a p = None" and "length (GUID s) = 12" and "(length ps + 1) * length (sr_Channels req) \<le> 1000"
  shows "\<exists>x. handleConnection s ps ln net (accepted local ua pkt FLAG_FROM_SERVER) = (Inr (), x) \<and>
    sent x = answers s ps ln flags ua req"
  by (rule datagram_search [OF assms])

text \<open>C33: A datagram that another host has forwarded, which its origin tag shows, is ignored: nothing is sent,
  whatever stands behind the tag.\<close>

theorem foreign_tag_ignored:
  assumes "pkt = tag_frames bo v flags tags @ frame bo v flags APP_ORIGIN_TAG a @ rest"
    and "length pkt \<le> 1500" and "announces flags bo" and "list_all (local_tag ln) tags"
    and "length a = 16" and "\<not> IsUnspecified a" and "\<not> IsTappedIP ln a"
  shows "\<exists>x. handleConnection s ps ln net (accepted local ua pkt FLAG_FROM_SERVER) = (Inr (), x) \<and> sent x = []"
proof -
  from accepted_reading [OF assms(2)] obtain u where u: "with_version 2 (accepted local ua pkt FLAG_FROM_SERVER) = reading pkt None u"
    "fresh u" by blast
  from udp_handle_tags [OF u(2) assms(3,4)] obtain order where "udp_handle s ps ln net (reading pkt None u) =
      udp_handle s ps ln net (reading (frame bo v flags APP_ORIGIN_TAG a @ rest) order u)"
    unfolding assms(1) by blast
  with udp_handle_tag [OF u(2) assms(3,5), of s ps ln net v rest order] assms(6,7) u(2) show ?thesis
    by (simp add: handleConnection_def u(1) local_tag_def fresh_def reading_def)
qed

text \<open>The response address that a request gets from an IPv4 socket is not the IPv4 address of its sender.\<close>

lemma forwarded_source_unmapped:
  assumes "length (addr_IP src) = 4" and "ResponseAddress req = replicate 16 0"
  shows "ResponseAddress (forwarded src req) = addr_IP src @ replicate 12 0 \<and> \<not> IP_Equal (ResponseAddress (forwarded src req)) (addr_IP src)"
proof -
  from assms(1) obtain a b c d where ip: "addr_IP src = [a, b, c, d]" by (auto simp: length_Suc_conv numeral_eq_Suc)
  have "IsUnspecified (replicate 16 0)" by (simp add: IsUnspecified_def)
  then have "ResponseAddress (forwarded src req) = [a, b, c, d] @ replicate 12 0"
    by (simp add: forwarded_def assms(2) copy_into_def ip numeral_eq_Suc)
  then show ?thesis by (auto simp: ip IP_Equal_def v4_prefix_def dest!: arg_cong [where f = last])
qed

text \<open>C34: A request that is forwarded is not the one that was received: another server reads a channel of an
  empty name with another instance, for which it answers instead. (The writer puts a presence byte before
  every channel, which the reader takes for the first byte of its instance.)\<close>

theorem forwarded_search_garbled:
  assumes "sr_Channels req = [\<lparr>SearchInstanceID = i, sr_ChannelName = name\<rparr>]" and "i < 2 ^ 24" and "length name \<le> 500"
    and "search_ok req" and "local_tag ln' (origin ln)" and "length (forward_packet ln flags src req) \<le> 1500"
    and "\<And>a p. net a p = None" and "length (GUID s) = 12" and "length ps < 1000"
  shows "\<exists>x r. handleConnection s ps ln' net (accepted local ua (forward_packet ln flags src req) FLAG_FROM_SERVER) = (Inr (), x) \<and>
    sent x = [(reply_addr ua r, response_frame s ps r)] \<and> sr_SearchSequenceID r = sr_SearchSequenceID req \<and>
    sr_Channels r = [\<lparr>SearchInstanceID = push_bit 8 i OR 1, sr_ChannelName = []\<rparr>]"
proof -
  let ?f = "forwarded src req"
  let ?r = "?f\<lparr>sr_Channels := [\<lparr>SearchInstanceID = push_bit 8 i OR 1, sr_ChannelName = []\<rparr>]\<rparr>"
  let ?dir = "flags AND FLAG_FROM_SERVER"
  have "sr_Channels ?f = [\<lparr>SearchInstanceID = i, sr_ChannelName = name\<rparr>]" by (simp add: forwarded_def assms(1))
  note wire = garbled_wire [OF this assms(2,3)]
  have pkt: "forward_packet ln flags src req = tag_frames LittleEndian 0 ?dir [origin ln] @
      frame LittleEndian 0 ?dir APP_SEARCH_REQUEST (search_wire LittleEndian ?r @ string_wire LittleEndian name) @ []"
    by (simp add: forward_packet_eq [OF wire])
  have ann: "announces ?dir LittleEndian" by (simp add: announces_def and.assoc)
  have ok: "search_ok ?r"
    using assms(4) by (simp add: search_ok_def forwarded_def length_copy_into string_ok_def len_ok_def)
  have uni: "sr_Flags ?r AND SEARCH_UNICAST \<noteq> SEARCH_UNICAST" by (simp add: forwarded_def and.assoc)
  have tags: "list_all (local_tag ln') [origin ln]" using assms(5) by simp
  have "(length ps + 1) * length (sr_Channels ?r) \<le> 1000" using assms(9) by simp
  from datagram_search [OF pkt assms(6) ann tags ok assms(7,8) this] show ?thesis
    using uni by (simp add: answers_def) (force simp: forwarded_def)
qed

text \<open>A server with one provider of a channel called x.\<close>

definition example_provider :: provider where
  "example_provider = \<lparr>CreateChannel = \<lambda>name. Inr None, ChannelList = None, ChannelFind = Some (\<lambda>name. Inr (name = ''x''))\<rparr>"

definition example_search_server :: search_server where
  "example_search_server = \<lparr>GUID = replicate 12 7, ServerIP = [192, 168, 7, 9], ServerPort = 5075\<rparr>"

definition example_listener :: Listener where
  "example_listener = \<lparr>sendConn = \<lparr>addr_IP = replicate 16 0, addr_Port = 40000, addr_Zone = []\<rparr>,
     broadcastSendAddresses = [at_udpPort [192, 168, 15, 255]], lns = [], tappedIPs = [[192, 168, 7, 9]]\<rparr>"

definition example_search :: SearchRequest where
  "example_search = \<lparr>sr_SearchSequenceID = 9, sr_Flags = 0x81, Reserved = [0, 0, 0], ResponseAddress = replicate 16 0,
     ResponsePort = 5076, Protocols = [''tcp''], sr_Channels = [\<lparr>SearchInstanceID = 3, sr_ChannelName = ''x''\<rparr>]\<rparr>"

definition example_datagram :: "byte list" where
  "example_datagram = tag_frames LittleEndian 2 0 [replicate 16 0] @
     frame LittleEndian 2 0 APP_SEARCH_REQUEST (search_wire LittleEndian example_search)"

definition example_client :: udp_addr where
  "example_client = \<lparr>addr_IP = [192, 168, 7, 30], addr_Port = 50000, addr_Zone = []\<rparr>"

lemma example_search_facts:
  "search_ok example_search" "announces 0 LittleEndian" "length (search_wire LittleEndian example_search) = 39"
  "IsUnspecified (replicate 16 0)" "origin example_listener = replicate 16 0"
  by (simp_all add: example_search_def search_ok_def string_ok_def len_ok_def announces_def search_wire_def search_channel_wire_def
      string_wire_def size_wire_def len_word_def bytes_of_string_def IsUnspecified_def origin_def example_listener_def LocalAddr_def
      To16_def copy_into_def)

lemma example_datagram_length: "length example_datagram \<le> 1500"
  by (simp add: example_datagram_def tag_frames_def frame_def example_search_facts)

lemma example_servers:
  "length (GUID example_search_server) = 12" "length [example_provider] = 1" "sr_Channels example_search = [\<lparr>SearchInstanceID = 3, sr_ChannelName = ''x''\<rparr>]"
  "ResponseAddress example_search = replicate 16 0" "sr_Flags example_search = 0x81"
  by (simp_all add: example_search_server_def example_search_def)

theorem datagram_answered_witness:
  "\<exists>x. handleConnection example_search_server [example_provider] example_listener (\<lambda>a p. None)
      (accepted (at_udpPort [192, 168, 7, 9]) example_client example_datagram FLAG_FROM_SERVER) = (Inr (), x) \<and>
    sent x = [(mcast_addr, forward_packet example_listener 0 example_client example_search),
      (example_client, response_frame example_search_server [example_provider] example_search)]"
proof -
  have "example_datagram = tag_frames LittleEndian 2 0 [replicate 16 0] @
      frame LittleEndian 2 0 APP_SEARCH_REQUEST (search_wire LittleEndian example_search @ []) @ []"
    by (simp add: example_datagram_def)
  from datagram_answered [OF this example_datagram_length example_search_facts(2) _ example_search_facts(1) _ example_servers(1),
      of example_listener "\<lambda>a p. None" "[example_provider]" "at_udpPort [192, 168, 7, 9]" example_client]
  show ?thesis
    by (simp add: local_tag_def example_search_facts(4) example_servers answers_def reply_addr_def del: replicate.simps)
qed

theorem foreign_tag_ignored_witness:
  "\<exists>x. handleConnection example_search_server [example_provider] example_listener (\<lambda>a p. None)
      (accepted (at_udpPort [192, 168, 7, 9]) example_client
        (frame LittleEndian 2 0 APP_ORIGIN_TAG (v4_prefix @ [192, 168, 7, 8]) @ example_datagram) FLAG_FROM_SERVER) = (Inr (), x) \<and> sent x = []"
proof -
  have ip: "length (v4_prefix @ [192, 168, 7, 8]) = 16" "\<not> IsUnspecified (v4_prefix @ [192, 168, 7, 8])"
    "\<not> IsTappedIP example_listener (v4_prefix @ [192, 168, 7, 8])" by code_simp+
  have "length (frame LittleEndian 2 0 APP_ORIGIN_TAG (v4_prefix @ [192, 168, 7, 8]) @ example_datagram) \<le> 1500"
    by (simp add: frame_def v4_prefix_def example_datagram_def tag_frames_def example_search_facts(3))
  moreover have "frame LittleEndian 2 0 APP_ORIGIN_TAG (v4_prefix @ [192, 168, 7, 8]) @ example_datagram =
      tag_frames LittleEndian 2 0 [] @ frame LittleEndian 2 0 APP_ORIGIN_TAG (v4_prefix @ [192, 168, 7, 8]) @ example_datagram"
    by (simp add: tag_frames_def)
  ultimately show ?thesis
    using foreign_tag_ignored [OF _ _ example_search_facts(2) _ ip, of _ 2 "[]" example_datagram] by fastforce
qed

theorem forwarded_search_garbled_witness:
  "\<exists>x r. handleConnection example_search_server [example_provider] example_listener (\<lambda>a p. None)
      (accepted mcast_addr example_client (forward_packet example_listener 0 example_client example_search) FLAG_FROM_SERVER) = (Inr (), x) \<and>
    sent x = [(reply_addr example_client r, response_frame example_search_server [example_provider] r)] \<and>
    sr_Channels r = [\<lparr>SearchInstanceID = 0x301, sr_ChannelName = []\<rparr>]"
proof -
  have tag: "local_tag example_listener (origin example_listener)"
    by (simp add: local_tag_def example_search_facts(4,5) del: replicate.simps)
  have small: "(3 :: 32 word) < 2 ^ 24" "length ''x'' \<le> 500" by simp_all
  have "sr_Channels (forwarded example_client example_search) = [\<lparr>SearchInstanceID = 3, sr_ChannelName = ''x''\<rparr>]"
    by (simp add: forwarded_def example_servers)
  from forward_packet_eq [OF forwarded_encoding [OF this small, of LittleEndian], of example_listener 0]
  have "length (forward_packet example_listener 0 example_client example_search) \<le> 1500"
    by (simp add: tag_frames_def frame_def example_search_facts(5) forwarded_def copy_into_def example_search_def string_wire_def
        size_wire_def len_word_def bytes_of_string_def example_client_def)
  from forwarded_search_garbled [where net = "\<lambda>a p. None" and s = example_search_server and ps = "[example_provider]" and ua = example_client
      and local = mcast_addr, OF example_servers(3) small example_search_facts(1) tag this _ example_servers(1)]
  show ?thesis by auto
qed

end
