(* ===== verification/PV_Beacons.thy ===== *)
theory PV_Beacons
  imports PV_Discovery
begin

text \<open>
  The beacons of a server (\<open>Serve\<close> in internal/search/udp.go): what every tick sends, when the ticks
  come, and what an error of the network leaves.
\<close>

section \<open>Beacons\<close>

text \<open>
  Times are in seconds. \<open>interval\<close> is the period of the ticker, \<open>now\<close> the time of the last tick; the
  GUID is filled in from random bytes where it is zero.
\<close>

definition startupInterval :: nat where "startupInterval = 1"
definition startupCount :: nat where "startupCount = 15"
definition beaconInterval :: nat where "beaconInterval = 5"

record beacons =
  beacon :: BeaconMessage
  beaconSender :: udp_conn
  interval :: nat
  ticks :: nat
  now :: nat

definition with_GUID :: "gerr + byte list \<Rightarrow> search_server \<Rightarrow> gerr + search_server" where
  "with_GUID rand s = (if GUID s = replicate 12 0 then bindE rand (\<lambda>g. Inr (s\<lparr>GUID := copy_into (GUID s) g\<rparr>)) else Inr s)"

definition Serve_beacons :: "search_server \<Rightarrow> Listener \<Rightarrow> beacons" where
  "Serve_beacons s ln = \<lparr>
     beacon = \<lparr>bm_GUID = GUID s, bm_Flags = 0, BeaconSequenceID = 0, ChangeCount = 0,
       bm_ServerAddress = (if length (ServerIP s) > 0 then copy_into (replicate 16 0) (To16 (ServerIP s)) else replicate 16 0),
       bm_ServerPort = word_of_int (ServerPort s), bm_Protocol = ''tcp'', ServerStatus = None\<rparr>,
     beaconSender = with_version 2 (BroadcastConn ln FLAG_FROM_SERVER),
     interval = startupInterval, ticks = 0, now = 0\<rparr>"

text \<open>How \<open>Serve\<close> comes to its loop: the GUID, the sockets and the connection for beacons.\<close>

definition search_Serve :: "gerr + byte list \<Rightarrow> os \<Rightarrow> search_server \<Rightarrow> gerr + search_server \<times> Listener \<times> beacons" where
  "search_Serve rand os s = bindE (with_GUID rand s) (\<lambda>s. bindE (Listen os) (\<lambda>ln. Inr (s, ln, Serve_beacons s ln)))"

text \<open>One tick; the error of the send is ignored.\<close>

definition beacon_tick :: "net \<Rightarrow> beacons \<Rightarrow> beacons" where
  "beacon_tick net b =
     (let m = (beacon b)\<lparr>BeaconSequenceID := BeaconSequenceID (beacon b) + 1\<rparr>;
          u = snd (via net (SendApp APP_BEACON (Coded (encode_struct (BeaconMessage_gval m)))) (beaconSender b));
          i = ticks b + 1
      in \<lparr>beacon = m, beaconSender = u, interval = (if i = startupCount then beaconInterval else interval b),
          ticks = i, now = now b + interval b\<rparr>)"

section \<open>The schedule of beacons\<close>

definition beacon_bytes :: "search_server \<Rightarrow> nat \<Rightarrow> byte list" where
  "beacon_bytes s k = GUID s @ [0, word_of_nat k, 0, 0] @ copy_into (replicate 16 0) (To16 (ServerIP s)) @
     put_uint LittleEndian 2 (word_of_int (ServerPort s) :: 16 word) @ string_wire LittleEndian ''tcp'' @ [0xFF]"

definition beacon_frame :: "search_server \<Rightarrow> nat \<Rightarrow> byte list" where
  "beacon_frame s k = frame LittleEndian 2 FLAG_FROM_SERVER APP_BEACON (beacon_bytes s k)"

lemma Beacon_encoding:
  assumes "ServerStatus m = None"
  shows "encoding bo (BeaconMessage_gval m) = Inr (bm_GUID m @ [bm_Flags m, BeaconSequenceID m] @ put_uint bo 2 (ChangeCount m) @
    bm_ServerAddress m @ put_uint bo 2 (bm_ServerPort m) @ string_wire bo (bm_Protocol m) @ [0xFF])"
proof -
  have null: "FieldDesc_PVEncode (code_desc NULL_TYPE_CODE) t = (Inr (), emit [0xFF] t)" for t
    by (simp add: FieldDesc_PVEncode.simps code_desc_def zero_head_def act_simps scalar_enc_defs FieldDesc_encode_ids_def write_byte_def)
  have "enc_field (n, [], GAny None) t = (Inr False, emit [0xFF] t)" if "\<not> eucbs t" for n t
    using that by (simp add: enc_field_simps enc_pv.simps act_simps record_changed_def null)
  moreover have "enc_field (n, [], GPrim False p) t = bindA record_changed (\<lambda>_. bindA (enc_prim p) (\<lambda>_. retA False)) t" for n p t
    by (simp add: enc_field_simps)
  ultimately show ?thesis
    by (simp add: encoding_def encode_struct_fields BeaconMessage_gval_def assms act_simps enc_bytes_field
        record_changed_def scalar_enc_defs PVString_enc)
qed

lemma Serve_beacons_simps:
  "ServerStatus (beacon (Serve_beacons s ln)) = None" "eorder (cn_enc (link (beaconSender (Serve_beacons s ln)))) = LittleEndian"
  "app_frame (link (beaconSender (Serve_beacons s ln))) = frame LittleEndian 2 FLAG_FROM_SERVER"
  "werr (beaconSender (Serve_beacons s ln)) = None" "sent (beaconSender (Serve_beacons s ln)) = []"
  "sendAddresses (beaconSender (Serve_beacons s ln)) = broadcastSendAddresses ln"
  "ticks (Serve_beacons s ln) = 0" "now (Serve_beacons s ln) = 0" "interval (Serve_beacons s ln) = startupInterval"
  by (simp_all add: Serve_beacons_def with_version_def BroadcastConn_def New_def app_frame_def header_flags_def fun_eq_iff)

text \<open>The state after \<open>k\<close> ticks, but for what was sent.\<close>

definition ticked :: "search_server \<Rightarrow> Listener \<Rightarrow> nat \<Rightarrow> beacons \<Rightarrow> bool" where
  "ticked s ln k b \<longleftrightarrow> beacon b = (beacon (Serve_beacons s ln))\<lparr>BeaconSequenceID := word_of_nat k\<rparr> \<and>
     eorder (cn_enc (link (beaconSender b))) = LittleEndian \<and>
     app_frame (link (beaconSender b)) = frame LittleEndian 2 FLAG_FROM_SERVER \<and>
     sendAddresses (beaconSender b) = broadcastSendAddresses ln \<and> ticks b = k \<and>
     interval b = (if k < startupCount then startupInterval else beaconInterval) \<and>
     now b = (if k \<le> startupCount then k * startupInterval
              else startupCount * startupInterval + (k - startupCount) * beaconInterval)"

lemma ticked_0: "ticked s ln 0 (Serve_beacons s ln)"
  by (simp add: ticked_def Serve_beacons_simps) (simp add: Serve_beacons_def startupCount_def)

lemma put_message_sender:
  "sendAddresses (snd (put_message net bs u)) = sendAddresses u" "link (snd (put_message net bs u)) = link u"
  by (auto simp: put_message_def put_datagram_def Let_def split: option.splits prod.splits)

lemma beacon_tick_step:
  assumes "ticked s ln k b"
  shows "ticked s ln (k + 1) (beacon_tick net b) \<and>
    (\<exists>d. beaconSender (beacon_tick net b) = snd (put_message net (beacon_frame s (k + 1)) ((beaconSender b)\<lparr>link := d\<rparr>)))"
proof -
  let ?u = "beaconSender b" and ?m = "(beacon b)\<lparr>BeaconSequenceID := BeaconSequenceID (beacon b) + 1\<rparr>"
  have m: "?m = (beacon (Serve_beacons s ln))\<lparr>BeaconSequenceID := word_of_nat (k + 1)\<rparr>"
    using assms by (simp add: ticked_def add.commute)
  have "To16 [] = []" by (simp add: To16_def)
  then have "encoding LittleEndian (BeaconMessage_gval ?m) = Inr (beacon_bytes s (k + 1))"
    unfolding m by (simp add: Beacon_encoding Serve_beacons_def beacon_bytes_def le_bytes_def upt_rec copy_into_def)
  then have enc: "encoding (eorder (cn_enc (link ?u))) (BeaconMessage_gval ?m) = Inr (beacon_bytes s (k + 1))"
    using assms by (simp add: ticked_def)
  have frame: "app_frame (link ?u) APP_BEACON (beacon_bytes s (k + 1)) = beacon_frame s (k + 1)"
    using assms by (simp add: ticked_def beacon_frame_def)
  obtain d where d: "via net (SendApp APP_BEACON (Coded (encode_struct (BeaconMessage_gval ?m)))) ?u =
      put_message net (beacon_frame s (k + 1)) (?u\<lparr>link := d\<rparr>)" "app_frame d = app_frame (link ?u)"
      "eorder (cn_enc d) = eorder (cn_enc (link ?u))"
    using via_SendApp [OF enc, of net APP_BEACON] unfolding frame by auto
  have b: "beacon_tick net b = \<lparr>beacon = ?m, beaconSender = snd (put_message net (beacon_frame s (k + 1)) (?u\<lparr>link := d\<rparr>)),
     interval = (if ticks b + 1 = startupCount then beaconInterval else interval b), ticks = ticks b + 1, now = now b + interval b\<rparr>"
    by (simp add: beacon_tick_def Let_def d(1))
  have "ticked s ln (k + 1) (beacon_tick net b)"
    using assms d(2,3) unfolding b m
    by (auto simp: ticked_def put_message_sender startupCount_def startupInterval_def beaconInterval_def)
  with b show ?thesis by auto
qed

lemma beacon_frame_ok:
  assumes "length (GUID s) = 12"
  shows "beacon_frame s k \<noteq> []" "length (beacon_frame s k) \<le> 4096"
  using assms by (simp_all add: beacon_frame_def beacon_bytes_def frame_def copy_into_def string_wire_def size_wire_def bytes_of_string_def len_word_def)

text \<open>A network that carries everything.\<close>

abbreviation carries :: "net \<Rightarrow> bool" where
  "carries net \<equiv> (\<forall>a p. net a p = None)"

definition beacon_log :: "search_server \<Rightarrow> Listener \<Rightarrow> nat \<Rightarrow> (udp_addr \<times> byte list) list" where
  "beacon_log s ln n = concat (map (\<lambda>k. map (\<lambda>a. (a, beacon_frame s (Suc k))) (broadcastSendAddresses ln)) [0..<n])"

lemma beacons_sent:
  assumes "list_all carries nets" and "length (GUID s) = 12"
  shows "ticked s ln (length nets) (fold beacon_tick nets (Serve_beacons s ln)) \<and>
    werr (beaconSender (fold beacon_tick nets (Serve_beacons s ln))) = None \<and>
    sent (beaconSender (fold beacon_tick nets (Serve_beacons s ln))) = beacon_log s ln (length nets)"
  using assms(1)
proof (induction nets rule: rev_induct)
  case Nil
  show ?case by (simp add: ticked_0 Serve_beacons_simps beacon_log_def)
next
  case (snoc net nets)
  let ?b = "fold beacon_tick nets (Serve_beacons s ln)"
  have IH: "ticked s ln (length nets) ?b" "werr (beaconSender ?b) = None" "sent (beaconSender ?b) = beacon_log s ln (length nets)"
    and net: "carries net"
    using snoc by simp_all
  from beacon_tick_step [OF IH(1), of net] obtain d where t: "ticked s ln (length nets + 1) (beacon_tick net ?b)"
    "beaconSender (beacon_tick net ?b) = snd (put_message net (beacon_frame s (length nets + 1)) ((beaconSender ?b)\<lparr>link := d\<rparr>))" by blast
  have addrs: "sendAddresses (beaconSender ?b) = broadcastSendAddresses ln" using IH(1) by (simp add: ticked_def)
  have "put_message net (beacon_frame s (length nets + 1)) ((beaconSender ?b)\<lparr>link := d\<rparr>) = (Inr (), (beaconSender ?b)\<lparr>link := d,
      sent := sent (beaconSender ?b) @ map (\<lambda>a. (a, beacon_frame s (length nets + 1))) (broadcastSendAddresses ln)\<rparr>)"
    by (subst put_message_ok) (use IH(2) net addrs beacon_frame_ok [OF assms(2)] in simp_all)
  with t IH(2,3) show ?case by (simp add: beacon_log_def)
qed


lemma stopped_beacon:
  assumes "werr (beaconSender b) = Some e"
  shows "werr (beaconSender (beacon_tick net b)) = Some e" "sent (beaconSender (beacon_tick net b)) = sent (beaconSender b)"
  using assms by (auto simp: beacon_tick_def Let_def via_def put_message_def split: prod.splits sum.splits)

lemma stopped_beacons:
  "werr (beaconSender b) = Some e \<Longrightarrow> sent (beaconSender (fold beacon_tick nets b)) = sent (beaconSender b)"
  by (induction nets arbitrary: b) (simp_all add: stopped_beacon)

lemma tick_fails:
  assumes "ticked s ln k b" and "length (GUID s) = 12" and "werr (beaconSender b) = None"
    and "broadcastSendAddresses ln = a # as" and "\<And>p. net a p \<noteq> None"
  shows "\<exists>e. werr (beaconSender (beacon_tick net b)) = Some e \<and> sent (beaconSender (beacon_tick net b)) = sent (beaconSender b)"
proof -
  from beacon_tick_step [OF assms(1), of net] obtain d where
    t: "beaconSender (beacon_tick net b) = snd (put_message net (beacon_frame s (k + 1)) ((beaconSender b)\<lparr>link := d\<rparr>))" by blast
  obtain e where e: "net a (beacon_frame s (k + 1)) = Some e" using assms(5) by auto
  have "sendAddresses (beaconSender b) = a # as" using assms(1,4) by (simp add: ticked_def)
  with e assms(3) beacon_frame_ok [OF assms(2), of "k + 1"] show ?thesis
    unfolding t by (simp add: put_message_def put_datagram_def)
qed

lemma search_Serve_starts:
  assumes "search_Serve rand os s = Inr (s', ln, b)" and "length (GUID s) = 12"
  shows "b = Serve_beacons s' ln" "length (GUID s') = 12"
  using assms by (auto simp: search_Serve_def with_GUID_def bindE_def copy_into_def split: sum.splits if_splits)

text \<open>C35: While the network carries them, a beacon goes to every broadcast address in every tick, with
  consecutive sequence numbers that wrap: every second at first, every five seconds from the 15th on.\<close>

theorem beacon_schedule:
  assumes "search_Serve rand os s = Inr (s', ln, b0)" and "length (GUID s) = 12" and "list_all carries nets"
  shows "let b = fold beacon_tick nets b0; n = length nets
    in sent (beaconSender b) = beacon_log s' ln n \<and> BeaconSequenceID (beacon b) = word_of_nat n \<and>
       now b = (if n \<le> 15 then n else 15 + 5 * (n - 15))"
  using beacons_sent [OF assms(3) search_Serve_starts(2) [OF assms(1,2)], of ln] search_Serve_starts(1) [OF assms(1,2)]
  by (simp add: Let_def ticked_def startupInterval_def startupCount_def beaconInterval_def)

text \<open>C36: After one datagram that could not be sent to the first broadcast address, no beacon is sent any more, even if the network
  carries them again: the buffered writer keeps the error.\<close>

theorem beacons_stop:
  assumes "search_Serve rand os s = Inr (s', ln, b0)" and "length (GUID s) = 12" and "list_all carries nets"
    and "broadcastSendAddresses ln = a # as" and "\<And>p. net a p \<noteq> None"
  shows "sent (beaconSender (fold beacon_tick (nets @ net # later) b0)) = beacon_log s' ln (length nets)"
proof -
  note b0 = search_Serve_starts [OF assms(1,2)]
  note b = beacons_sent [OF assms(3) b0(2), of ln]
  from tick_fails [where net = net, OF _ b0(2) _ assms(4,5)] b
  obtain e where e: "werr (beaconSender (beacon_tick net (fold beacon_tick nets (Serve_beacons s' ln)))) = Some e"
    "sent (beaconSender (beacon_tick net (fold beacon_tick nets (Serve_beacons s' ln)))) = beacon_log s' ln (length nets)" by metis
  with stopped_beacons [OF e(1), of later] show ?thesis by (simp add: b0(1))
qed

text \<open>A server of a host with one broadcast address, and a GUID of its own.\<close>

lemma example_Serve:
  "\<exists>ln b. search_Serve (Inl EOF) example_os example_search_server = Inr (example_search_server, ln, b) \<and>
     broadcastSendAddresses ln = [at_udpPort [192, 168, 15, 255]]"
  by (simp add: search_Serve_def with_GUID_def example_search_server_def Listen_def bindE_def example_os_def bindInterfaces_def
      bindMulticast_def bind_addr_def act_simps bound_def addConn_def tap_def example_ips Let_def at_udpPort_def)

theorem beacon_schedule_witness:
  "\<exists>ln b0. search_Serve (Inl EOF) example_os example_search_server = Inr (example_search_server, ln, b0) \<and>
     (let b = fold beacon_tick (replicate 16 (\<lambda>a p. None)) b0
      in sent (beaconSender b) = beacon_log example_search_server ln 16 \<and> BeaconSequenceID (beacon b) = 16 \<and> now b = 20)"
proof -
  obtain ln b0 where b0: "search_Serve (Inl EOF) example_os example_search_server = Inr (example_search_server, ln, b0)"
    using example_Serve by blast
  have "length (GUID example_search_server) = 12" "list_all carries (replicate 16 (\<lambda>a p. None))"
    by (simp_all add: example_search_server_def list_all_iff)
  from beacon_schedule [OF b0 this] b0 show ?thesis by (simp add: Let_def del: replicate.simps)
qed

theorem beacons_stop_witness:
  "\<exists>ln b0. search_Serve (Inl EOF) example_os example_search_server = Inr (example_search_server, ln, b0) \<and>
     sent (beaconSender (fold beacon_tick ([\<lambda>a p. None] @ (\<lambda>a p. Some (OtherError ''network is unreachable'')) # replicate 3 (\<lambda>a p. None)) b0)) =
       [(at_udpPort [192, 168, 15, 255], beacon_frame example_search_server 1)]"
proof -
  obtain ln b0 where b0: "search_Serve (Inl EOF) example_os example_search_server = Inr (example_search_server, ln, b0)"
    and addrs: "broadcastSendAddresses ln = [at_udpPort [192, 168, 15, 255]]" using example_Serve by blast
  have "length (GUID example_search_server) = 12" "list_all carries [\<lambda>a p. None]"
    by (simp_all add: example_search_server_def)
  from beacons_stop [where net = "\<lambda>a p. Some (OtherError ''network is unreachable'')" and later = "replicate 3 (\<lambda>a p. None)", OF b0 this addrs]
    b0 show ?thesis by (simp add: beacon_log_def addrs)
qed

end
