(* ===== verification/PV_Datagrams.thy ===== *)
theory PV_Datagrams
  imports PV_Discovery
begin

text \<open>
  What any datagram does to the server (\<open>handleConnection\<close> in internal/search/udp.go), well formed or not:
  how much it can make the server send, and how one of eight bytes ends the program.
\<close>

section \<open>How much a datagram can make the server send\<close>

lemma header_takes:
  "PVAccessHeader_PVDecode h s = (Inr x, t) \<Longrightarrow> length (dbuf s) = length (dbuf t) + 8"
  by (auto simp: PVAccessHeader_PVDecode_def scalar_dec_defs ReadUint32_def read_uint_def read_byte_def read_full_def bindA_def
      seqA_def ifA_def whenA_def set_byte_order_def retA_def failA_def
      split: if_splits list.splits option.splits prod.splits sum.splits)

lemma length_frame: "length (frame bo v f cmd data) = length data + 8"
  by (cases bo) (simp_all add: frame_def)

lemma control_writes:
  assumes "handleControlMessage h c = (r, d)"
  shows "r = Inr () \<and> length (ebuf (cn_enc d)) \<le> length (ebuf (cn_enc c)) + 8 \<and> cn_dec d = cn_dec c"
proof -
  have "length (ctrl_frame bo v f cmd n) = 8" for bo v f cmd and n :: "32 word" by (cases bo) (simp_all add: ctrl_frame_def)
  with assms show ?thesis
    by (auto simp: handleControlMessage_def SendCtrl_frame whenA_def retA_def force_byte_order_def split: if_splits)
qed

lemma echo_writes:
  assumes "handleAppEcho h data c = (r, d)"
  shows "r = Inr () \<and> length (ebuf (cn_enc d)) \<le> length (ebuf (cn_enc c)) + (length data + 8) \<and> cn_dec d = cn_dec c"
  using assms by (auto simp: handleAppEcho_def SendApp_Raw length_frame split: if_splits)

text \<open>What is written in a round is no longer than what is read, and at least a header is read.\<close>

lemma next_round_writes:
  assumes "next_round c = (r, d)" and "ebuf (cn_enc c) = []"
  shows "length (ebuf (cn_enc d)) + length (dbuf (cn_dec d)) \<le> length (dbuf (cn_dec c)) \<and>
    (r \<in> range Inr \<longrightarrow> length (dbuf (cn_dec d)) + 8 \<le> length (dbuf (cn_dec c))) \<and>
    (ebuf (cn_enc d) \<noteq> [] \<longrightarrow> r = Inr None)"
proof -
  obtain q s where q: "PVAccessHeader_PVDecode (zero_header (forceByteOrder c)) (cn_dec c) = (q, s)" by fastforce
  let ?u = "c\<lparr>cn_dec := s\<rparr>"
  have shorter: "length (dbuf s) \<le> length (dbuf (cn_dec c))" using onwardD [OF onward_header q] by auto
  show ?thesis
  proof (cases q)
    case (Inl e)
    then have "r = Inl e" "d = ?u" using assms(1) q by (simp_all add: next_round_def bindA_def on_dec_def)
    with shorter assms(2) show ?thesis by auto
  next
    case (Inr h)
    note eight = header_takes [OF q [unfolded Inr]]
    have rest: "(if Flags h AND FLAG_MSG_CTRL = FLAG_MSG_CTRL then bindA (handleControlMessage h) (\<lambda>_. retA None)
       else if sint (PayloadSize h) < 0 then failA (Panic MakeSliceLen)
       else bindA (on_dec (read_full (nat (sint (PayloadSize h))))) (\<lambda>data.
         if MessageCommand h = APP_ECHO then bindA (handleAppEcho h data) (\<lambda>_. retA None)
         else retA (Some \<lparr>Header = h, Data = data, msg_reader = None\<rparr>))) ?u = (r, d)"
      using assms(1) q Inr by (simp add: next_round_def bindA_def on_dec_def)
    show ?thesis
    proof (cases "Flags h AND FLAG_MSG_CTRL = FLAG_MSG_CTRL \<or> sint (PayloadSize h) < 0")
      case True
      with rest eight assms(2) show ?thesis
        by (auto simp: bindA_def retA_def failA_def dest!: control_writes split: if_splits prod.splits sum.splits)
    next
      case False
      obtain p s' where p: "read_full (nat (sint (PayloadSize h))) s = (p, s')" by fastforce
      show ?thesis
      proof (cases p)
        case (Inl e)
        with False rest p eight assms(2) show ?thesis by (auto simp: bindA_def on_dec_def read_full_def split: if_splits)
      next
        case (Inr data)
        then have "dbuf s = data @ dbuf s'" using p by (auto simp: read_full_def split: if_splits)
        with False rest p Inr eight assms(2) show ?thesis
          by (auto simp: bindA_def on_dec_def retA_def dest!: echo_writes split: if_splits prod.splits sum.splits)
      qed
    qed
  qed
qed

lemma put_datagram_one:
  assumes "length (sendAddresses u) = 1"
  shows "length (sent (put_datagram net p u)) \<le> length (sent u) + 1" "sendAddresses (put_datagram net p u) = sendAddresses u"
proof -
  from assms obtain a where "sendAddresses u = [a]" by (auto simp: length_Suc_conv)
  then show "length (sent (put_datagram net p u)) \<le> length (sent u) + 1" "sendAddresses (put_datagram net p u) = sendAddresses u"
    by (auto simp: put_datagram_def split: option.splits prod.splits)
qed

lemma put_message_two:
  assumes "length (sendAddresses u) = 1" and "put_message net bs u = (r, v)"
  shows "length (sent v) \<le> length (sent u) + (if bs = [] then 0 else if length bs \<le> 4096 then 1 else 2) \<and> sendAddresses v = sendAddresses u"
  using assms put_datagram_one [OF assms(1), of net "take 4096 bs"] put_datagram_one [OF assms(1), of net bs]
    put_datagram_one [of "put_datagram net (take 4096 bs) u" net "drop 4096 bs"]
  by (auto simp: put_message_def Let_def split: option.splits if_splits)

lemma via_two:
  assumes "length (sendAddresses u) = 1" and "via net m u = (r, v)"
  shows "length (sent v) \<le> length (sent u) + 2"
proof -
  obtain q d where q: "m ((link u)\<lparr>cn_enc := (cn_enc (link u))\<lparr>ebuf := []\<rparr>\<rparr>) = (q, d)" by fastforce
  obtain p x where p: "put_message net (ebuf (cn_enc d)) (u\<lparr>link := d\<rparr>) = (p, x)" by fastforce
  have "length (sent x) \<le> length (sent u) + 2" using put_message_two [OF _ p] assms(1) by (auto split: if_splits)
  with q p assms(2) show ?thesis by (auto simp: via_def split: sum.splits)
qed

text \<open>What is still to be read, with eight bytes for every datagram that was sent.\<close>

definition spent :: "udp_conn \<Rightarrow> nat" where
  "spent u = 8 * length (sent u) + length (dbuf (cn_dec (link u)))"

definition one_packet :: "udp_conn \<Rightarrow> bool" where
  "one_packet u \<longleftrightarrow> length (sendAddresses u) = 1 \<and> length (dbuf (cn_dec (link u))) \<le> 1500"

lemma via_round:
  assumes "one_packet u" and "via net next_round u = (r, v)"
  shows "one_packet v \<and> spent v \<le> spent u \<and> (\<forall>msg. r = Inr (Some msg) \<longrightarrow> spent v + 8 \<le> spent u)"
proof -
  let ?c = "(link u)\<lparr>cn_enc := (cn_enc (link u))\<lparr>ebuf := []\<rparr>\<rparr>"
  obtain q d where q: "next_round ?c = (q, d)" by fastforce
  from next_round_writes [OF q] have w: "length (ebuf (cn_enc d)) + length (dbuf (cn_dec d)) \<le> length (dbuf (cn_dec (link u)))"
    "q \<in> range Inr \<Longrightarrow> length (dbuf (cn_dec d)) + 8 \<le> length (dbuf (cn_dec (link u)))" "ebuf (cn_enc d) \<noteq> [] \<Longrightarrow> q = Inr None"
    by simp_all
  obtain p x where p: "put_message net (ebuf (cn_enc d)) (u\<lparr>link := d\<rparr>) = (p, x)" by fastforce
  have x: "link x = d" using put_message_link [OF p] by simp
  have sent: "length (sent x) \<le> length (sent u) + (if ebuf (cn_enc d) = [] then 0 else 1) \<and> sendAddresses x = sendAddresses u"
    using put_message_two [OF _ p] assms(1) w(1) by (auto simp: one_packet_def split: if_splits)
  show ?thesis
  proof (cases q)
    case (Inl e)
    with assms q w(1) show ?thesis by (auto simp: via_def one_packet_def spent_def)
  next
    case (Inr y)
    then have "v = x" "\<And>msg. r = Inr (Some msg) \<Longrightarrow> y = Some msg" using assms(2) q p by (auto simp: via_def split: sum.splits)
    with assms(1) Inr w sent x show ?thesis by (cases "ebuf (cn_enc d) = []") (auto simp: one_packet_def spent_def)
  qed
qed

lemma udp_Next_spent:
  "udp_Next net u = (r, v) \<Longrightarrow> one_packet u \<Longrightarrow>
   one_packet v \<and> spent v \<le> spent u \<and> (\<forall>msg. r = Inr msg \<longrightarrow> spent v + 8 \<le> spent u)"
proof (induction net u rule: udp_Next.induct)
  case (1 net u)
  obtain q x where x: "via net next_round u = (q, x)" by fastforce
  note round = via_round [OF 1(3) x]
  show ?case
  proof (cases "q = Inr None")
    case True
    then have "udp_Next net x = (r, v)" using 1(2) x by (simp add: udp_Next.simps [of net u])
    with 1(1) [OF x [symmetric], of None] True round show ?thesis by fastforce
  next
    case False
    with 1(2) x have "v = x" "\<And>msg. r = Inr msg \<Longrightarrow> q = Inr (Some msg)"
      by (auto simp: udp_Next.simps [of net u] split: sum.splits option.splits)
    with round show ?thesis by auto
  qed
qed

lemma respond_spent:
  assumes "one_packet u" and "respond s ps ln net flags req u = (r, v)"
  shows "length (sent v) \<le> length (sent u) + 3"
proof -
  obtain u1 where u1: "u1 = (if sr_Flags req AND SEARCH_UNICAST = SEARCH_UNICAST
      then WriteMulticast net (forward_packet ln flags (Addr u) req) u else u)" by blast
  obtain u2 where u2: "u2 = (if length (ResponseAddress req) > 0 \<and> \<not> IsUnspecified (ResponseAddress req)
      then SetSendAddress \<lparr>addr_IP = ResponseAddress req, addr_Port = uint (ResponsePort req), addr_Zone = []\<rparr> u1 else u1)" by blast
  have "length (sent u1) \<le> length (sent u) + 1" "length (sendAddresses u1) = 1"
    using assms(1) by (auto simp: u1 WriteMulticast_def one_packet_def split: option.splits)
  then have "length (sent u2) \<le> length (sent u) + 1" "length (sendAddresses u2) = 1" by (auto simp: u2 SetSendAddress_def)
  moreover have "via net (Search s ps req) u2 = (r, v)" using assms(2) unfolding respond_def Let_def u2 u1 .
  ultimately show ?thesis using via_two [of u2 net "Search s ps req" r v] by simp
qed

lemma udp_decode_keeps: "udp_decode m msg u = (r, v) \<Longrightarrow> sent v = sent u \<and> sendAddresses v = sendAddresses u"
  by (auto simp: udp_decode_def split: prod.splits)

lemma udp_decode_spent: "udp_decode m msg u = (r, v) \<Longrightarrow> spent v = spent u \<and> one_packet v = one_packet u"
  using udp_decode_keeps [of m msg u r v] udp_decode_same [of m msg u r v] by (simp add: spent_def one_packet_def)

lemma udp_handle_spent:
  "udp_handle s ps ln net u = (r, v) \<Longrightarrow> one_packet u \<Longrightarrow> 8 * length (sent v) \<le> spent u + 16"
proof (induction s ps ln net u rule: udp_handle.induct)
  case (1 s ps ln net u)
  obtain q x where x: "udp_Next net u = (q, x)" by fastforce
  note nxt = udp_Next_spent [OF x 1(4)]
  show ?case
  proof (cases q)
    case (Inl e)
    with 1(3) x nxt show ?thesis by (simp add: udp_handle.simps [of s ps ln net u] spent_def)
  next
    case (Inr msg)
    then have x': "udp_Next net u = (Inr msg, x)" "one_packet x" "spent x + 8 \<le> spent u" using x nxt by auto
    obtain p y where tagd: "udp_decode Decode_OriginTag msg x = (p, y)" by fastforce
    obtain p' y' where sreq: "udp_decode Decode_SearchRequest msg x = (p', y')" by fastforce
    note same = udp_decode_spent [OF tagd] udp_decode_spent [OF sreq]
    have sent: "8 * length (sent z) \<le> spent z" for z by (simp add: spent_def)
    consider (tag) "MessageCommand (Header msg) = APP_ORIGIN_TAG" | (srch) "MessageCommand (Header msg) = APP_SEARCH_REQUEST"
      | (other) "MessageCommand (Header msg) \<noteq> APP_ORIGIN_TAG" "MessageCommand (Header msg) \<noteq> APP_SEARCH_REQUEST" by blast
    then show ?thesis
    proof cases
      case tag: tag
      consider e where "p = Inl e" | t where "p = Inr t" "\<not> IsUnspecified (ForwarderAddress t)" "\<not> IsTappedIP ln (ForwarderAddress t)"
        | t where "p = Inr t" "\<not> (\<not> IsUnspecified (ForwarderAddress t) \<and> \<not> IsTappedIP ln (ForwarderAddress t))"
        by (cases p) auto
      then show ?thesis
      proof cases
        case (3 t)
        then have "udp_handle s ps ln net y = (r, v)" using 1(3) tag x'(1) tagd
          by (auto simp: udp_handle.simps [of s ps ln net u] split: if_splits)
        with 1(1) [OF x'(1) [symmetric] refl tag tagd [symmetric] 3] x'(2,3) same(1) show ?thesis by fastforce
      qed (use 1(3) tag x' tagd same(1) sent [of y] in \<open>simp_all add: udp_handle.simps [of s ps ln net u]\<close>)
    next
      case srch
      show ?thesis
      proof (cases p')
        case (Inl e)
        with 1(3) srch x' sreq same(2) sent [of y'] show ?thesis by (simp add: udp_handle.simps [of s ps ln net u])
      next
        case (Inr req)
        then have "respond s ps ln net (Flags (Header msg)) req y' = (r, v)"
          using 1(3) srch x'(1) sreq by (simp add: udp_handle.simps [of s ps ln net u])
        from respond_spent [OF _ this] same(2) x'(2,3) sent [of y'] show ?thesis by simp
      qed
    next
      case other
      then have "udp_handle s ps ln net x = (r, v)" using 1(3) x'(1) by (simp add: udp_handle.simps [of s ps ln net u])
      with 1(2) [OF x'(1) [symmetric] refl other] x'(2,3) show ?thesis by simp
    qed
  qed
qed

text \<open>C39: Whatever a datagram holds, it makes the server send at most two datagrams more than it has room for
  headers.\<close>

theorem datagram_bounded:
  "length (sent (snd (handleConnection s ps ln net (accepted local ua pkt direction)))) \<le> min 1500 (length pkt) div 8 + 2"
proof -
  let ?u = "with_version 2 (accepted local ua pkt direction)"
  have "one_packet ?u" "spent ?u = min 1500 (length pkt)"
    by (simp_all add: one_packet_def spent_def with_version_def accepted_def New_def min.commute)
  moreover obtain r v where "udp_handle s ps ln net ?u = (r, v)" by fastforce
  ultimately show ?thesis using udp_handle_spent [of s ps ln net ?u r v] by (simp add: handleConnection_def)
qed

lemma negative_round:
  assumes "dbuf (cn_dec c) = [MAGIC, v, flags, cmd] @ put_uint bo 4 (n :: 32 word) @ rest" and "agree c bo flags"
    and "flags AND FLAG_MSG_CTRL \<noteq> FLAG_MSG_CTRL" and "sint n < 0"
  shows "\<exists>d. next_round c = (Inl (Panic MakeSliceLen), d)"
  using header_dec [OF assms(1,2)] assms(3,4) by (simp add: next_round_def bindA_def failA_def)

text \<open>C40: Eight bytes in a datagram crash the server, when the size that they announce is negative.\<close>

theorem eight_bytes_crash_server:
  assumes "announces flags bo" and "sint (n :: 32 word) < 0" and "pkt = [MAGIC, v, flags, cmd] @ put_uint bo 4 n @ rest"
  shows "fst (handleConnection s ps ln net (accepted local ua pkt FLAG_FROM_SERVER)) = Inl (Panic MakeSliceLen)"
proof -
  let ?u = "with_version 2 (accepted local ua pkt FLAG_FROM_SERVER)"
  let ?c = "(link ?u)\<lparr>cn_enc := (cn_enc (link ?u))\<lparr>ebuf := []\<rparr>\<rparr>"
  have "length (put_uint bo 4 n) = 4" by (cases bo) simp_all
  then have "take 1500 pkt = [MAGIC, v, flags, cmd] @ put_uint bo 4 n @ take 1492 rest" by (simp add: assms(3))
  then have "dbuf (cn_dec ?c) = [MAGIC, v, flags, cmd] @ put_uint bo 4 n @ take 1492 rest"
    by (simp add: with_version_def accepted_def New_def)
  moreover have "agree ?c bo flags" "flags AND FLAG_MSG_CTRL \<noteq> FLAG_MSG_CTRL"
    using assms(1) by (simp_all add: agree_def announces_def with_version_def accepted_def New_def)
  ultimately obtain d where "next_round ?c = (Inl (Panic MakeSliceLen), d)" using negative_round assms(2) by blast
  then have "via net next_round ?u = (Inl (Panic MakeSliceLen), ?u\<lparr>link := d\<rparr>)" by (simp add: via_def)
  then have "udp_Next net ?u = (Inl (Panic MakeSliceLen), ?u\<lparr>link := d\<rparr>)" by (simp add: udp_Next.simps [of net ?u])
  then show ?thesis by (simp add: handleConnection_def udp_handle.simps [of s ps ln net ?u])
qed

theorem eight_bytes_crash_server_witness:
  "fst (handleConnection example_search_server [example_provider] example_listener (\<lambda>a p. None)
     (accepted (at_udpPort [192, 168, 7, 9]) example_client [0xCA, 2, 0, 3, 0xFF, 0xFF, 0xFF, 0xFF] FLAG_FROM_SERVER)) = Inl (Panic MakeSliceLen)"
proof (rule eight_bytes_crash_server [OF example_search_facts(2)])
  have "le_bytes 4 (-1 :: 32 word) = [0xFF, 0xFF, 0xFF, 0xFF]" by code_simp
  then show "[0xCA, 2, 0, 3, 0xFF, 0xFF, 0xFF, 0xFF] = [MAGIC, 2, 0, 3] @ put_uint LittleEndian 4 (-1 :: 32 word) @ []" by simp
qed simp

end
