(* ===== verification/Spec2Isabelle.thy ===== *)
theory Spec2Isabelle
  imports PV_Tags PV_Types PV_Forward PV_Channel PV_Faults PV_Listening PV_StatusChannel PV_Beacons PV_Datagrams
begin

text \<open>
  A model of go-pvaccess, a server of the EPICS pvAccess protocol written in Go, and the theorems that
  say what it does: how values and messages become bytes and come back, how a connection frames
  them, what a client of a server observes, and how a server is found.

  \<^bold>\<open>The program and the theories.\<close> From the bottom up:

  \<^item> \<open>PV_Prelude\<close>: bytes and Go strings, the errors and panics as values (\<open>gerr\<close>), and the actions
    \<open>('s, 'a) act\<close> (a state to an error or result, and the new state) in which all readers, writers and
    handlers are written. Every early return of the code is an \<open>Inl\<close>.
  \<^item> \<open>PV_Tags\<close> (pvdata/value_conversion.go): struct tags. \<open>PV_Wire\<close>: \<open>EncoderState\<close> and \<open>DecoderState\<close> of
    pvdata/values.go as the records \<open>estate\<close> and \<open>dstate\<close>, with the locale \<open>wire_codec\<close> for a pair of a
    writer and a reader. \<open>PV_Scalars\<close>, \<open>PV_BitSet\<close>, \<open>PV_Status\<close>, \<open>PV_FieldDesc\<close>: the codecs of sizes, scalars,
    strings, bit sets, statuses and type descriptions, each an interpretation of \<open>wire_codec\<close>.
  \<^item> \<open>PV_Reflect\<close>: Go variables as seen through package reflect. A value of \<open>gval\<close> is a variable with its
    type and content; \<open>field_of\<close> and \<open>iface_var\<close> are \<open>valueToPVField\<close>, which picks the codec. \<open>PV_Describe\<close>:
    \<open>valueToField\<close> and \<open>createZero\<close>, and the normative types of pvdata/nt.go. \<open>PV_Encode\<close> and \<open>PV_Decode\<close>:
    \<open>Encode\<close> and \<open>Decode\<close> with the codecs of arrays, structures, differences, variants and times (\<open>enc_value\<close>,
    \<open>enc_pv\<close>, \<open>enc_elem\<close>, \<open>enc_field\<close> and their readers). \<open>PV_Roundtrip\<close>: what is written is read back. \<open>PV_Types\<close>:
    descriptions and creation agree, decoding keeps types, and where they do not. \<open>PV_Forward\<close>: a variant that
    was received can be sent on.
  \<^item> \<open>PV_Proto\<close> and \<open>PV_Messages\<close> (internal/proto): the header, the structs of the messages and their codecs,
    under the locale \<open>message\<close>, which is interpreted for every struct that both sides code by reflection,
    and the aligning writer.
  \<^item> \<open>PV_Conn\<close> (internal/connection): \<open>SendCtrl\<close>, \<open>SendApp\<close>, \<open>Next\<close> and \<open>Message.Decode\<close> over a byte stream.
  \<^item> \<open>PV_Monitor\<close> (internal/server/monitor) and \<open>PV_Channel\<close> (channels.go): the monitor that sends the latest
    value as its subscriber permits, the channel that holds one value, and their composition; the
    locale \<open>latest_source\<close> is what a monitor needs of its source.
  \<^item> \<open>PV_Requests\<close> (server.go): the request table as a heap of request objects and a map from IDs, with the
    locale \<open>request_ids\<close> as its contract. \<open>PV_Search\<close> (internal/search/search.go): the answer to a search.
    \<open>PV_Server\<close> (server.go, channels.go): the state of a connection, all handlers, their goroutines as
    tasks and the step relation \<open>srv_step\<close>. \<open>PV_Serving\<close>: its invariant. \<open>PV_Session\<close>: exchanges from bytes
    to bytes. \<open>PV_Faults\<close>: errors and faults. \<open>PV_StatusChannel\<close> (internal/server/status). \<open>PV_Listening\<close>:
    \<open>Serve\<close> and \<open>handleConnection\<close>, the listener and the goroutines of all connections, as the steps of \<open>server_do\<close>.
  \<^item> \<open>PV_Udp\<close> (internal/udpconn), \<open>PV_Discovery\<close>, \<open>PV_Datagrams\<close> and \<open>PV_Beacons\<close> (internal/search/udp.go): the
    listener, the answers to datagrams, their forwarding, what any datagram can cause, and the beacons.

  \<^bold>\<open>What the theorems show.\<close> Values: the round trips of values, differences, bit sets and descriptions
  over any input behind them; which fields of nested structures the bits of a difference select; a
  variant that was received is sent on unchanged; every decoder ends on every input and only moves
  forward; the bytes do not depend on what the coder has done before. Messages and connections: the
  hand-written and the reflective codecs, failed responses, framing of whole streams, the byte order.
  Monitors: what is sent is a subsequence of what was put, within the window; a monitor refines, operation
  for operation and value for value, a mailbox for the latest value; and the last value set arrives,
  unless the handler's first value comes after it. Server: the request table refines a map
  from IDs to statuses; whatever the clients send and the scheduler picks, no request is executed twice
  at a time and registered IDs stand for live requests; a server that is told to stop can finish; a client that waits for its replies gets its value, byte
  for byte, whatever the scheduler does; errors are answered. Discovery: which addresses are tapped, what a datagram is answered with and where, that
  datagrams forwarded by others are ignored, how many datagrams one can cause at most, and the schedule
  of the beacons. Where the code does
  something else than it means to, a theorem or a lemma says what it does: a datagram of eight bytes,
  two messages of a client, or a client that does not wait for the reply to its initialization can crash
  the server; a subscriber can be left with a stale value; the socket of a client that has gone stays open; a
  cancelled request comes back; a destroyed monitor goes on sending; a forwarded search request is not
  what was asked; and beacons stop for good after one failed write.

  \<^bold>\<open>Machine.\<close> A Go \<open>int\<close> has 64 bits (the window of a monitor, which would need \<open>2 ^ 32\<close> acknowledgements
  to wrap, is an \<open>int\<close> of HOL); wire integers are words of their width; floating-point numbers are their
  bits. Memory is unbounded: only a negative length makes an allocation panic. Values are reached through
  pointers, so variables are addressable; structs by value in interfaces give the panic
  \<open>Unaddressable\<close>, which in \<open>NewPVAny\<close> comes when the value is converted instead of when it is encoded
  (so also in front of a failed status, behind which it is not). Slices that share an array, variables of type \<open>*PVField\<close>, the name option on the
  package's own struct types, and bytes above 127 in the names of struct fields (taken as letters) are
  outside the model. Texts of \<open>fmt\<close> verbs that print values or types are parameters.

  \<^bold>\<open>Recursion.\<close> All functions are total. The recursion through descriptions and variables is bounded by
  sizes; the decoder of descriptions, whose input can nest as deep as it is long, takes fuel: one more
  than the bytes to come, which is enough because every level reads a byte first, and more fuel never
  changes the result (\<open>FieldDesc_decode_fuel_enough\<close>, \<open>FieldDesc_PVDecode_total\<close>). \<open>Next\<close> and the loop over a
  datagram end because each round takes a header.

  \<^bold>\<open>Network.\<close> The input of a TCP connection is a finite list of bytes that ends with EOF, and writing to
  it never fails. A UDP connection has one datagram of at most 1500 bytes to read, and each message it
  sends is one datagram, or two when it is longer than the buffer of 4096 bytes; whether it leaves is
  decided by the network (\<open>net\<close>), and the error that the buffered writer keeps is \<open>werr\<close>. Sockets are
  their local addresses, and the outcome of binding one is the operating system's (\<open>os\<close>).

  \<^bold>\<open>Concurrency.\<close> What runs under the mutex of a connection is one step. A goroutine is a task that is cut
  where others can act on what it has done: after its request is registered, after its reply is out.
  Tasks, messages and the rounds of the monitors' loops interleave in any order (\<open>srv_step\<close>, \<open>served\<close>), and with
  them a client that reads and sends in conversations (\<open>talk_step\<close>, where \<open>serve\<close> blocks without input). The calls of one monitor message on its monitor are one step. The application (\<open>world\<close>, \<open>provider\<close>) is
  a parameter; its calls do not panic, a call that blocks is a step not taken yet, and the objects it
  returns without an error are not nil. Contexts that are done because a connection ends are not told
  from others: what the application answers is arbitrary in any case.

  \<^bold>\<open>Not modelled.\<close> The accept loop on UDP (\<open>Accept\<close>, \<open>readLoop\<close>, \<open>Close\<close> and \<open>serveSearch\<close>): it hands each datagram
  to the code that is modelled. Socket options (internal/udpconn/reuseport.go and the system calls of
  udpconn.go), logging (internal/ctxlog), the test server (cmd/gopvtestsrv), and the size of the receive
  buffer that the operating system reports, which is a parameter of the greeting. Of third-party
  packages the modelled code uses error groups only.
\<close>

end
